(* ===== verification/Reverie_Prelude.thy ===== *)
theory Reverie_Prelude
  imports Main "HOL-Library.Word"
begin

text \<open>
  Shared vocabulary of the development: the machine integers of the Rust code, checked
  arithmetic, the outcome of an operation that may return an error or panic, the model of
  \<^verbatim>\<open>std::collections::BTreeMap\<close> as a list of entries in key order, and the two generic
  interfaces the components instantiate: an ordered map and a machine with an invariant.
\<close>

section \<open>Integers\<close>

type_synonym u8 = "8 word"
type_synonym u16 = "16 word"
type_synonym u32 = "32 word"
type_synonym u64 = "64 word"

text \<open>
  A signed integer that the code compares, stores or uses as an index, and never overflows,
  is an unbounded integer.
\<close>

type_synonym i32 = int
type_synonym i64 = int

definition checked_add :: "'a::len word \<Rightarrow> 'a word \<Rightarrow> 'a word option" where
  "checked_add a b = (if unat a + unat b < 2 ^ LENGTH('a) then Some (a + b) else None)"

lemma checked_add_Some_iff:
  "checked_add (a :: 'a::len word) b = Some c \<longleftrightarrow> unat c = unat a + unat b"
proof
  assume "checked_add a b = Some c"
  then show "unat c = unat a + unat b"
    by (auto simp: checked_add_def unat_word_ariths split: if_splits)
next
  assume u: "unat c = unat a + unat b"
  moreover have "unat c < 2 ^ LENGTH('a)" by simp
  ultimately have "unat a + unat b < 2 ^ LENGTH('a)" by simp
  moreover from this have "unat (a + b) = unat a + unat b"
    by (simp add: unat_word_ariths)
  with u have "c = a + b" by (metis word_unat_eq_iff)
  ultimately show "checked_add a b = Some c" by (simp add: checked_add_def)
qed

text \<open>Evaluation compares the wrapped sum instead of computing with natural numbers.\<close>

lemma checked_add_code [code]:
  "checked_add (a :: 'a::len word) b = (if a + b < a then None else Some (a + b))"
proof -
  let ?m = "2 ^ LENGTH('a) :: nat"
  have lt: "unat a < ?m" "unat b < ?m" by simp_all
  have sum: "unat (a + b) = (unat a + unat b) mod ?m" by (simp add: unat_word_ariths)
  show ?thesis
  proof (cases "unat a + unat b < ?m")
    case True
    then show ?thesis by (simp add: checked_add_def word_less_nat_alt sum)
  next
    case False
    then have "unat a + unat b - ?m < ?m" using lt by linarith
    then have "unat (a + b) = unat a + unat b - ?m" using False sum by (simp add: le_mod_geq)
    then have "unat (a + b) < unat a" using lt False by linarith
    then show ?thesis using False by (simp add: checked_add_def word_less_nat_alt)
  qed
qed

lemma checked_add_None_iff:
  "checked_add (a :: 'a::len word) b = None \<longleftrightarrow> 2 ^ LENGTH('a) \<le> unat a + unat b"
  by (auto simp: checked_add_def)

lemma checked_add_one_less:
  "checked_add a (1 :: 'a::len word) = Some c \<Longrightarrow> a < c"
  by (auto simp: checked_add_Some_iff word_less_nat_alt)

text \<open>Comparing two numbers by their high and low digits.\<close>

lemma nat_less_div_mod_iff:
  "(m :: nat) < n \<longleftrightarrow> m div c < n div c \<or> (m div c = n div c \<and> m mod c < n mod c)"
proof (cases "m div c" "n div c" rule: linorder_cases)
  case less
  then show ?thesis using div_le_mono [of n m c] by (meson leD leI)
next
  case equal
  then show ?thesis
    using div_mult_mod_eq [of m c] div_mult_mod_eq [of n c] by (metis nat_add_left_cancel_less less_irrefl)
next
  case greater
  then show ?thesis using div_le_mono [of m n c] by (metis leD less_imp_le_nat less_irrefl)
qed

section \<open>Outcomes\<close>

text \<open>
  What a call of a fallible function gives: a value, an error, or a panic. A panic aborts the
  caller; a lock that was held is poisoned and no later call returns.
\<close>

datatype ('e, 'a) outcome = Ok 'a | Err 'e | Panic

text \<open>
  An operation on a state. It changes the state also when it ends in an error: what it wrote
  before it returned stays written.
\<close>

type_synonym ('s, 'e, 'a) operation = "'s \<Rightarrow> ('e, 'a) outcome \<times> 's"

definition and_then ::
    "('s, 'e, 'a) operation \<Rightarrow> ('a \<Rightarrow> ('s, 'e, 'b) operation) \<Rightarrow> ('s, 'e, 'b) operation" where
  "and_then m f s =
     (case m s of
        (Ok a, s') \<Rightarrow> f a s'
      | (Err e, s') \<Rightarrow> (Err e, s')
      | (Panic, s') \<Rightarrow> (Panic, s'))"

text \<open>
  The result of a computation on the current state, taken with the question mark operator: its
  value goes on, its error or panic is the result of the caller.
\<close>

definition try_ok :: "('e, 'a) outcome \<Rightarrow> ('a \<Rightarrow> ('s, 'e, 'b) operation) \<Rightarrow> ('s, 'e, 'b) operation" where
  "try_ok r f s = (case r of Ok a \<Rightarrow> f a s | Err e \<Rightarrow> (Err e, s) | Panic \<Rightarrow> (Panic, s))"

definition ok_or :: "'a option \<Rightarrow> 'e \<Rightarrow> ('e, 'a) outcome" where
  "ok_or x e = (case x of Some a \<Rightarrow> Ok a | None \<Rightarrow> Err e)"

definition unwrap :: "'a option \<Rightarrow> ('e, 'a) outcome" where
  "unwrap x = (case x of Some a \<Rightarrow> Ok a | None \<Rightarrow> Panic)"

definition refuse :: "'e \<Rightarrow> ('s, 'e, 'a) operation" where
  "refuse e s = (Err e, s)"

text \<open>The checks of a loop in sequence, up to the first that fails.\<close>

fun check_all :: "('a \<Rightarrow> ('e, unit) outcome) \<Rightarrow> 'a list \<Rightarrow> ('e, unit) outcome" where
  "check_all f [] = Ok ()"
| "check_all f (x # xs) = (case f x of Ok _ \<Rightarrow> check_all f xs | Err e \<Rightarrow> Err e | Panic \<Rightarrow> Panic)"

lemma check_all_Ok: "check_all f xs = Ok u \<longleftrightarrow> (\<forall>x \<in> set xs. f x = Ok ())"
  by (induction xs) (auto split: outcome.splits)

lemma check_all_not_Panic: "(\<And>x. x \<in> set xs \<Longrightarrow> f x \<noteq> Panic) \<Longrightarrow> check_all f xs \<noteq> Panic"
  by (induction xs) (auto split: outcome.splits)

lemma ok_or_simps [simp]:
  "ok_or x e = Ok a \<longleftrightarrow> x = Some a" "ok_or x e = Err e' \<longleftrightarrow> x = None \<and> e' = e"
  "ok_or x e \<noteq> Panic" "ok_or (Some a) e = Ok a" "ok_or None e = Err e"
  by (auto simp: ok_or_def split: option.splits)

lemma unwrap_simps [simp]:
  "unwrap x = Ok a \<longleftrightarrow> x = Some a" "unwrap x \<noteq> Err e" "unwrap x = Panic \<longleftrightarrow> x = None"
  "unwrap (Some a) = Ok a" "unwrap None = Panic"
  by (auto simp: unwrap_def split: option.splits)

lemma try_ok_Ok [simp]: "try_ok (Ok a) f = f a"
  by (simp add: try_ok_def fun_eq_iff)

fun for_each :: "('a \<Rightarrow> ('s, 'e, unit) operation) \<Rightarrow> 'a list \<Rightarrow> ('s, 'e, unit) operation" where
  "for_each f [] s = (Ok (), s)"
| "for_each f (x # xs) s = and_then (f x) (\<lambda>_. for_each f xs) s"

text \<open>
  A total correctness triple: from a state of \<open>P\<close> the operation does not panic, and it ends with a
  value in \<open>Q\<close> or with an error in \<open>E\<close>.
\<close>

fun lands :: "('a \<Rightarrow> 's \<Rightarrow> bool) \<Rightarrow> ('s \<Rightarrow> bool) \<Rightarrow> ('e, 'a) outcome \<times> 's \<Rightarrow> bool" where
  "lands Q E (Ok a, s) \<longleftrightarrow> Q a s"
| "lands Q E (Err e, s) \<longleftrightarrow> E s"
| "lands Q E (Panic, s) \<longleftrightarrow> False"

definition triple ::
    "('s \<Rightarrow> bool) \<Rightarrow> ('s, 'e, 'a) operation \<Rightarrow> ('a \<Rightarrow> 's \<Rightarrow> bool) \<Rightarrow> ('s \<Rightarrow> bool) \<Rightarrow> bool" where
  "triple P m Q E \<longleftrightarrow> (\<forall>s. P s \<longrightarrow> lands Q E (m s))"

abbreviation keeps :: "('s \<Rightarrow> bool) \<Rightarrow> ('s, 'e, 'a) operation \<Rightarrow> bool" where
  "keeps I m \<equiv> triple I m (\<lambda>_. I) I"

lemma lands_cases:
  assumes "lands Q E r"
  obtains a s where "r = (Ok a, s)" "Q a s" | e s where "r = (Err e, s)" "E s"
  using assms by (cases "(Q, E, r)" rule: lands.cases) auto

lemma lands_weaken:
  "lands Q E r \<Longrightarrow> (\<And>a s. Q a s \<Longrightarrow> Q' a s) \<Longrightarrow> (\<And>s. E s \<Longrightarrow> E' s) \<Longrightarrow> lands Q' E' r"
  by (erule lands_cases) auto

lemma lands_and_then:
  "lands Q E (m s) \<Longrightarrow> (\<And>a t. Q a t \<Longrightarrow> lands R E (f a t)) \<Longrightarrow> lands R E (and_then m f s)"
  by (erule lands_cases) (auto simp: and_then_def)

lemma lands_try_ok:
  "r \<noteq> Panic \<Longrightarrow> (\<And>e. r = Err e \<Longrightarrow> E s) \<Longrightarrow> (\<And>a. r = Ok a \<Longrightarrow> lands Q E (f a s)) \<Longrightarrow>
   lands Q E (try_ok r f s)"
  by (cases r) (auto simp: try_ok_def)

lemma tripleD: "triple P m Q E \<Longrightarrow> P s \<Longrightarrow> lands Q E (m s)"
  by (simp add: triple_def)

lemma tripleI: "(\<And>s. P s \<Longrightarrow> lands Q E (m s)) \<Longrightarrow> triple P m Q E"
  by (simp add: triple_def)

lemma triple_and_then:
  "triple P m Q E \<Longrightarrow> (\<And>a. triple (Q a) (f a) R E) \<Longrightarrow> triple P (and_then m f) R E"
  unfolding triple_def by (blast intro: lands_and_then)

lemma triple_for_each:
  "(\<And>x. x \<in> set xs \<Longrightarrow> triple I (f x) (\<lambda>_. I) E) \<Longrightarrow> triple I (for_each f xs) (\<lambda>_. I) E"
proof (induction xs)
  case (Cons x xs)
  then have "triple I (and_then (f x) (\<lambda>_. for_each f xs)) (\<lambda>_. I) E"
    by (intro triple_and_then [where Q = "\<lambda>_. I"]) auto
  then show ?case by (simp add: triple_def)
qed (simp add: triple_def)

lemma triple_weaken:
  "triple P m Q E \<Longrightarrow> (\<And>s. P' s \<Longrightarrow> P s) \<Longrightarrow> (\<And>a s. Q a s \<Longrightarrow> Q' a s) \<Longrightarrow> (\<And>s. E s \<Longrightarrow> E' s) \<Longrightarrow>
   triple P' m Q' E'"
  unfolding triple_def by (blast intro: lands_weaken)

lemma keepsD:
  "keeps I m \<Longrightarrow> I s \<Longrightarrow> fst (m s) \<noteq> Panic"
  "keeps I m \<Longrightarrow> I s \<Longrightarrow> I (snd (m s))"
  by (auto dest!: tripleD elim!: lands_cases)

text \<open>A relation between the states before and after, whatever the outcome.\<close>

definition preserves :: "('s \<Rightarrow> 's \<Rightarrow> bool) \<Rightarrow> ('s, 'e, 'a) operation \<Rightarrow> bool" where
  "preserves R m \<longleftrightarrow> (\<forall>s. R s (snd (m s)))"

lemma preservesD: "preserves R m \<Longrightarrow> R s (snd (m s))"
  by (simp add: preserves_def)

lemma preserves_and_then:
  assumes "transp R" and "preserves R m" and "\<And>a. preserves R (f a)"
  shows "preserves R (and_then m f)"
proof -
  have "R s (snd (and_then m f s))" for s
    using assms(1) preservesD [OF assms(2), of s] preservesD [OF assms(3)]
    unfolding and_then_def by (auto split: prod.splits outcome.splits intro: transpD)
  then show ?thesis by (simp add: preserves_def)
qed

lemma preserves_for_each:
  assumes "reflp R" and "transp R" and "\<And>x. preserves R (f x)"
  shows "preserves R (for_each f xs)"
proof (induction xs)
  case Nil
  then show ?case using assms(1) by (simp add: preserves_def reflpD)
next
  case (Cons x xs)
  then have "preserves R (and_then (f x) (\<lambda>_. for_each f xs))"
    using assms(2,3) by (intro preserves_and_then) auto
  then show ?case by (simp add: preserves_def)
qed

lemma lands_snd: "lands Q E r \<Longrightarrow> R (snd r) \<Longrightarrow> lands (\<lambda>a s. Q a s \<and> R s) (\<lambda>s. E s \<and> R s) r"
  by (erule lands_cases) auto

section \<open>Lists\<close>

lemma find_Some_set: "find P xs = Some x \<Longrightarrow> x \<in> set xs \<and> P x"
  by (auto simp: find_Some_iff)

lemma sorted_wrt_filter_less:
  "sorted_wrt (<) (map f xs) \<Longrightarrow> sorted_wrt (<) (map f (filter P xs))"
  by (induction xs) auto

section \<open>Ordered maps\<close>

text \<open>
  A \<^verbatim>\<open>BTreeMap\<close> is the list of its entries in ascending key order, which is the order its
  iterators visit them. \<open>bt_ok\<close> is that order; the operations below keep it.
\<close>

type_synonym ('k, 'v) btree = "('k \<times> 'v) list"

definition bt_ok :: "('k::linorder, 'v) btree \<Rightarrow> bool" where
  "bt_ok m \<longleftrightarrow> sorted_wrt (<) (map fst m)"

abbreviation bt_get :: "('k, 'v) btree \<Rightarrow> 'k \<Rightarrow> 'v option" where
  "bt_get \<equiv> map_of"

abbreviation bt_values :: "('k, 'v) btree \<Rightarrow> 'v list" where
  "bt_values m \<equiv> map snd m"

fun bt_insert :: "'k::linorder \<Rightarrow> 'v \<Rightarrow> ('k, 'v) btree \<Rightarrow> ('k, 'v) btree" where
  "bt_insert k v [] = [(k, v)]"
| "bt_insert k v ((k', v') # m) =
     (if k < k' then (k, v) # (k', v') # m
      else if k = k' then (k, v) # m
      else (k', v') # bt_insert k v m)"

definition bt_remove :: "'k \<Rightarrow> ('k, 'v) btree \<Rightarrow> ('k, 'v) btree" where
  "bt_remove k m = filter (\<lambda>e. fst e \<noteq> k) m"

definition bt_retain :: "('v \<Rightarrow> bool) \<Rightarrow> ('k, 'v) btree \<Rightarrow> ('k, 'v) btree" where
  "bt_retain P m = filter (\<lambda>e. P (snd e)) m"

text \<open>A change of one entry through \<^verbatim>\<open>get_mut\<close>, of every entry through \<^verbatim>\<open>values_mut\<close>, and of
  the entries whose keys a loop visits.\<close>

definition bt_update :: "'k \<Rightarrow> ('v \<Rightarrow> 'v) \<Rightarrow> ('k, 'v) btree \<Rightarrow> ('k, 'v) btree" where
  "bt_update k f m = map (\<lambda>(k', v). (k', if k' = k then f v else v)) m"

definition bt_map :: "('v \<Rightarrow> 'v) \<Rightarrow> ('k, 'v) btree \<Rightarrow> ('k, 'v) btree" where
  "bt_map f m = map (\<lambda>(k, v). (k, f v)) m"

definition bt_map_on :: "('k \<Rightarrow> bool) \<Rightarrow> ('v \<Rightarrow> 'v) \<Rightarrow> ('k, 'v) btree \<Rightarrow> ('k, 'v) btree" where
  "bt_map_on P f m = map (\<lambda>(k, v). (k, if P k then f v else v)) m"

lemma bt_ok_Nil [simp]: "bt_ok []"
  by (simp add: bt_ok_def)

lemma bt_ok_Cons [simp]:
  "bt_ok (e # m) \<longleftrightarrow> (\<forall>e' \<in> set m. fst e < fst e') \<and> bt_ok m"
  by (auto simp: bt_ok_def)

lemma bt_ok_distinct: "bt_ok m \<Longrightarrow> distinct (map fst m)"
  by (simp add: bt_ok_def strict_sorted_iff)

lemma bt_get_insert [simp]: "bt_get (bt_insert k v m) = (bt_get m)(k \<mapsto> v)"
  by (induction k v m rule: bt_insert.induct) (auto simp: fun_eq_iff)

lemma fst_set_bt_insert: "fst ` set (bt_insert k v m) = insert k (fst ` set m)"
  by (induction k v m rule: bt_insert.induct) auto

lemma bt_ok_insert [simp]: "bt_ok m \<Longrightarrow> bt_ok (bt_insert k v m)"
proof (induction k v m rule: bt_insert.induct)
  case (2 k v k' v' m)
  moreover have "fst e \<in> insert k (fst ` set m)" if "e \<in> set (bt_insert k v m)" for e
    using that fst_set_bt_insert [of k v m] by blast
  ultimately show ?case by (fastforce intro: order.strict_trans)
qed simp

lemma bt_get_remove [simp]: "bt_get (bt_remove k m) = (bt_get m)(k := None)"
  by (induction m) (auto simp: bt_remove_def fun_eq_iff)

lemma bt_ok_remove [simp]: "bt_ok m \<Longrightarrow> bt_ok (bt_remove k m)"
  by (simp add: bt_ok_def bt_remove_def sorted_wrt_filter_less)

lemma bt_ok_retain [simp]: "bt_ok m \<Longrightarrow> bt_ok (bt_retain P m)"
  by (simp add: bt_ok_def bt_retain_def sorted_wrt_filter_less)

lemma map_of_filter_None: "k \<notin> fst ` set m \<Longrightarrow> map_of (filter P m) k = None"
  by (induction m) auto

lemma bt_get_retain:
  "bt_ok m \<Longrightarrow> bt_get (bt_retain P m) k =
     (case bt_get m k of None \<Rightarrow> None | Some v \<Rightarrow> if P v then Some v else None)"
proof (induction m)
  case (Cons e m)
  then have "fst e \<notin> fst ` set m" by auto
  then show ?case using Cons
    by (cases e) (auto simp: bt_retain_def map_of_filter_None split: option.splits)
qed (simp add: bt_retain_def)

lemma bt_get_update [simp]:
  "bt_get (bt_update k f m) = (bt_get m)(k := map_option f (bt_get m k))"
  by (induction m) (auto simp: bt_update_def fun_eq_iff)

lemma bt_ok_update [simp]: "bt_ok (bt_update k f m) = bt_ok m"
  by (simp add: bt_ok_def bt_update_def case_prod_unfold comp_def)

lemma bt_get_map [simp]: "bt_get (bt_map f m) k = map_option f (bt_get m k)"
  by (induction m) (auto simp: bt_map_def)

lemma bt_ok_map [simp]: "bt_ok (bt_map f m) = bt_ok m"
  by (simp add: bt_ok_def bt_map_def case_prod_unfold comp_def)

lemma bt_get_map_on [simp]:
  "bt_get (bt_map_on P f m) k = (if P k then map_option f (bt_get m k) else bt_get m k)"
  by (induction m) (auto simp: bt_map_on_def)

lemma bt_ok_map_on [simp]: "bt_ok (bt_map_on P f m) = bt_ok m"
  by (simp add: bt_ok_def bt_map_on_def case_prod_unfold comp_def)

text \<open>An iteration over the entries visits exactly what lookups find.\<close>

lemma bt_in_set_iff: "bt_ok m \<Longrightarrow> (k, v) \<in> set m \<longleftrightarrow> bt_get m k = Some v"
  by (simp add: bt_ok_distinct)

lemma bt_in_values_iff: "bt_ok m \<Longrightarrow> v \<in> set (bt_values m) \<longleftrightarrow> (\<exists>k. bt_get m k = Some v)"
  by (force simp: image_iff bt_in_set_iff [symmetric])

subsection \<open>The interface\<close>

text \<open>
  What the components rely on. The laws are those of the standard library's documentation: a
  lookup after an insertion or a removal, an iteration that meets each entry once, and the
  ascending order of the iteration.
\<close>

locale ordered_map =
  fixes ok :: "'m \<Rightarrow> bool"
    and lookup :: "'m \<Rightarrow> 'k::linorder \<Rightarrow> 'v option"
    and upd :: "'k \<Rightarrow> 'v \<Rightarrow> 'm \<Rightarrow> 'm"
    and del :: "'k \<Rightarrow> 'm \<Rightarrow> 'm"
    and entries :: "'m \<Rightarrow> ('k \<times> 'v) list"
  assumes lookup_upd: "ok m \<Longrightarrow> lookup (upd k v m) = (lookup m)(k \<mapsto> v)"
    and lookup_del: "ok m \<Longrightarrow> lookup (del k m) = (lookup m)(k := None)"
    and ok_upd: "ok m \<Longrightarrow> ok (upd k v m)"
    and ok_del: "ok m \<Longrightarrow> ok (del k m)"
    and entries_iff: "ok m \<Longrightarrow> (k, v) \<in> set (entries m) \<longleftrightarrow> lookup m k = Some v"
    and entries_sorted: "ok m \<Longrightarrow> sorted_wrt (<) (map fst (entries m))"
begin

text \<open>The first entry, in key order, that satisfies a predicate is the one of least key.\<close>

lemma find_least_key:
  assumes "ok m" and "find (\<lambda>(k, v). P k v) (entries m) = Some (k, v)"
    and "lookup m k' = Some v'" and "P k' v'"
  shows "k \<le> k'"
proof -
  obtain i where i: "i < length (entries m)" "entries m ! i = (k, v)"
      and before: "\<And>j. j < i \<Longrightarrow> \<not> (case entries m ! j of (k, v) \<Rightarrow> P k v)"
    using assms(2) by (auto simp: find_Some_iff)
  have "(k', v') \<in> set (entries m)" using assms(1,3) by (simp add: entries_iff)
  then obtain j where j: "j < length (entries m)" "entries m ! j = (k', v')"
    by (auto simp: in_set_conv_nth)
  have "\<not> j < i" using before [of j] j(2) assms(4) by auto
  show ?thesis
  proof (cases "i = j")
    case True then show ?thesis using i(2) j(2) by simp
  next
    case False
    then have "i < j" using \<open>\<not> j < i\<close> by simp
    then have "map fst (entries m) ! i < map fst (entries m) ! j"
      using entries_sorted [OF assms(1)] j(1) by (simp add: sorted_wrt_iff_nth_less)
    then show ?thesis using i j \<open>i < j\<close> by simp
  qed
qed

lemma any_entry:
  "ok m \<Longrightarrow> (\<exists>e \<in> set (entries m). P (fst e) (snd e)) \<longleftrightarrow> (\<exists>k v. lookup m k = Some v \<and> P k v)"
  by (metis entries_iff fst_conv snd_conv prod.collapse)

lemma lookup_upd_del: "ok m \<Longrightarrow> lookup (del k (upd k v m)) = (lookup m)(k := None)"
  by (simp add: lookup_del lookup_upd ok_upd)

end

interpretation bt: ordered_map bt_ok bt_get bt_insert bt_remove "\<lambda>m. m"
  by unfold_locales (auto simp: bt_in_set_iff bt_ok_def [symmetric])

section \<open>Machines with an invariant\<close>

text \<open>
  A component that is only changed by its operations: a relation \<open>step\<close> of one operation, the
  states reachable from a start, and the rule that what the start has and every operation keeps
  holds in every reachable state.
\<close>

inductive reach :: "('s \<Rightarrow> bool) \<Rightarrow> ('s \<Rightarrow> 's \<Rightarrow> bool) \<Rightarrow> 's \<Rightarrow> bool"
  for start :: "'s \<Rightarrow> bool" and step :: "'s \<Rightarrow> 's \<Rightarrow> bool" where
  reach_start: "start s \<Longrightarrow> reach start step s"
| reach_step: "reach start step s \<Longrightarrow> step s t \<Longrightarrow> reach start step t"

locale invariant_machine =
  fixes start :: "'s \<Rightarrow> bool"
    and step :: "'s \<Rightarrow> 's \<Rightarrow> bool"
    and inv :: "'s \<Rightarrow> bool"
  assumes inv_start: "start s \<Longrightarrow> inv s"
    and inv_step: "inv s \<Longrightarrow> step s t \<Longrightarrow> inv t"
begin

lemma inv_reach: "reach start step s \<Longrightarrow> inv s"
  by (induction rule: reach.induct) (auto intro: inv_start inv_step)

lemma inv_steps: "step\<^sup>*\<^sup>* s t \<Longrightarrow> inv s \<Longrightarrow> inv t"
  by (induction rule: rtranclp_induct) (auto intro: inv_step)

end

section \<open>Codecs\<close>

text \<open>An encoder with a partial decoder that takes every encoding back.\<close>

locale codec =
  fixes encode :: "'a \<Rightarrow> 'b" and decode :: "'b \<Rightarrow> 'a option" and dom_ok :: "'a \<Rightarrow> bool"
  assumes decode_encode: "dom_ok x \<Longrightarrow> decode (encode x) = Some x"
begin

lemma encode_inj: "dom_ok x \<Longrightarrow> dom_ok y \<Longrightarrow> encode x = encode y \<Longrightarrow> x = y"
  by (metis decode_encode option.inject)

end

end
