(* ===== verification/Seccomp_Bpf.thy ===== *)
theory Seccomp_Bpf
  imports Reverie_Prelude
begin

unbundle bit_operations_syntax

text \<open>
  Seccomp-BPF byte code (\<^verbatim>\<open>reverie-process/src/seccomp/bpf.rs\<close>): the instruction words, the
  fragments the filter builder emits, and the interpreter \<open>run\<close>. A fragment for one rule
  either returns its action or falls through to the code after it with the registers the next
  rule expects; that contract is the locale \<open>bpf_rules\<close>, and a list of rules is then checked in
  sequence, the first match deciding.
\<close>

section \<open>Instruction words\<close>

definition BPF_LD :: u16 where "BPF_LD = 0x00"
definition BPF_ST :: u16 where "BPF_ST = 0x02"
definition BPF_JMP :: u16 where "BPF_JMP = 0x05"
definition BPF_RET :: u16 where "BPF_RET = 0x06"
definition BPF_W :: u16 where "BPF_W = 0x00"
definition BPF_ABS :: u16 where "BPF_ABS = 0x20"
definition BPF_MEM :: u16 where "BPF_MEM = 0x60"
definition BPF_JEQ :: u16 where "BPF_JEQ = 0x10"
definition BPF_JGT :: u16 where "BPF_JGT = 0x20"
definition BPF_JGE :: u16 where "BPF_JGE = 0x30"
definition BPF_K :: u16 where "BPF_K = 0x00"

definition BPF_MAXINSNS :: nat where "BPF_MAXINSNS = 4096"

definition SECCOMP_DATA_OFFSET_NR :: u32 where "SECCOMP_DATA_OFFSET_NR = 0"
definition SECCOMP_DATA_OFFSET_ARCH :: u32 where "SECCOMP_DATA_OFFSET_ARCH = 4"
definition SECCOMP_DATA_OFFSET_IP :: u32 where "SECCOMP_DATA_OFFSET_IP = 8"
definition SECCOMP_DATA_OFFSET_IP_HI :: u32 where
  "SECCOMP_DATA_OFFSET_IP_HI = SECCOMP_DATA_OFFSET_IP + 4"
definition SECCOMP_DATA_OFFSET_IP_LO :: u32 where
  "SECCOMP_DATA_OFFSET_IP_LO = SECCOMP_DATA_OFFSET_IP"

text \<open>Return values of a filter, as the kernel's \<^verbatim>\<open>linux/seccomp.h\<close> numbers them.\<close>

definition SECCOMP_RET_KILL_PROCESS :: u32 where "SECCOMP_RET_KILL_PROCESS = 0x80000000"
definition SECCOMP_RET_KILL_THREAD :: u32 where "SECCOMP_RET_KILL_THREAD = 0"
definition SECCOMP_RET_TRAP :: u32 where "SECCOMP_RET_TRAP = 0x00030000"
definition SECCOMP_RET_ERRNO :: u32 where "SECCOMP_RET_ERRNO = 0x00050000"
definition SECCOMP_RET_TRACE :: u32 where "SECCOMP_RET_TRACE = 0x7ff00000"
definition SECCOMP_RET_LOG :: u32 where "SECCOMP_RET_LOG = 0x7ffc0000"
definition SECCOMP_RET_ALLOW :: u32 where "SECCOMP_RET_ALLOW = 0x7fff0000"
definition SECCOMP_RET_DATA :: u32 where "SECCOMP_RET_DATA = 0x0000ffff"

record sock_filter =
  code :: u16
  jt :: u8
  jf :: u8
  k :: u32

definition BPF_STMT :: "u16 \<Rightarrow> u32 \<Rightarrow> sock_filter" where
  "BPF_STMT c v = \<lparr>code = c, jt = 0, jf = 0, k = v\<rparr>"

definition BPF_JUMP :: "u16 \<Rightarrow> u32 \<Rightarrow> u8 \<Rightarrow> u8 \<Rightarrow> sock_filter" where
  "BPF_JUMP c v t f = \<lparr>code = c, jt = t, jf = f, k = v\<rparr>"

text \<open>A program is the vector of its instructions (\<^verbatim>\<open>Filter\<close>).\<close>

type_synonym Filter = "sock_filter list"

definition LOAD_SYSCALL_NR :: sock_filter where
  "LOAD_SYSCALL_NR = BPF_STMT (BPF_LD + BPF_W + BPF_ABS) SECCOMP_DATA_OFFSET_NR"

definition ALLOW :: sock_filter where
  "ALLOW = BPF_STMT (BPF_RET + BPF_K) SECCOMP_RET_ALLOW"

definition DENY :: sock_filter where
  "DENY = BPF_STMT (BPF_RET + BPF_K) SECCOMP_RET_KILL_THREAD"

definition TRAP :: sock_filter where
  "TRAP = BPF_STMT (BPF_RET + BPF_K) SECCOMP_RET_TRAP"

definition TRACE :: "u16 \<Rightarrow> sock_filter" where
  "TRACE data = BPF_STMT (BPF_RET + BPF_K) (SECCOMP_RET_TRACE OR (ucast data AND SECCOMP_RET_DATA))"

definition ERRNO :: "u32 \<Rightarrow> sock_filter" where
  "ERRNO err = BPF_STMT (BPF_RET + BPF_K) (SECCOMP_RET_ERRNO OR (err AND SECCOMP_RET_DATA))"

section \<open>Fragments\<close>

definition VALIDATE_ARCH :: "u32 \<Rightarrow> Filter" where
  "VALIDATE_ARCH target_arch =
     [BPF_STMT (BPF_LD + BPF_W + BPF_ABS) SECCOMP_DATA_OFFSET_ARCH,
      BPF_JUMP (BPF_JMP + BPF_JEQ + BPF_K) target_arch 1 0,
      BPF_STMT (BPF_RET + BPF_K) SECCOMP_RET_KILL_PROCESS]"

definition VALIDATE_ARCH_OR_ALTERNATE :: "u32 \<Rightarrow> u32 \<Rightarrow> sock_filter \<Rightarrow> Filter" where
  "VALIDATE_ARCH_OR_ALTERNATE target_arch alternate_arch action =
     [BPF_STMT (BPF_LD + BPF_W + BPF_ABS) SECCOMP_DATA_OFFSET_ARCH,
      BPF_JUMP (BPF_JMP + BPF_JEQ + BPF_K) target_arch 3 0,
      BPF_JUMP (BPF_JMP + BPF_JEQ + BPF_K) alternate_arch 0 1,
      action,
      BPF_STMT (BPF_RET + BPF_K) SECCOMP_RET_KILL_PROCESS]"

definition LOAD_SYSCALL_IP :: Filter where
  "LOAD_SYSCALL_IP =
     [BPF_STMT (BPF_LD + BPF_W + BPF_ABS) SECCOMP_DATA_OFFSET_IP_LO,
      BPF_STMT BPF_ST 0,
      BPF_STMT (BPF_LD + BPF_W + BPF_ABS) SECCOMP_DATA_OFFSET_IP_HI,
      BPF_STMT BPF_ST 1]"

definition SYSCALL :: "u32 \<Rightarrow> sock_filter \<Rightarrow> Filter" where
  "SYSCALL nr action = [BPF_JUMP (BPF_JMP + BPF_JEQ + BPF_K) nr 0 1, action]"

definition IP_RANGE64 :: "u32 \<Rightarrow> u32 \<Rightarrow> u32 \<Rightarrow> u32 \<Rightarrow> sock_filter \<Rightarrow> Filter" where
  "IP_RANGE64 blo bhi elo ehi action =
     [BPF_JUMP (BPF_JMP + BPF_JGT + BPF_K) bhi 4 0,
      BPF_JUMP (BPF_JMP + BPF_JEQ + BPF_K) bhi 0 9,
      BPF_STMT (BPF_LD + BPF_MEM) 0,
      BPF_JUMP (BPF_JMP + BPF_JGE + BPF_K) blo 0 7,
      BPF_STMT (BPF_LD + BPF_MEM) 1,
      BPF_JUMP (BPF_JMP + BPF_JGT + BPF_K) ehi 5 0,
      BPF_JUMP (BPF_JMP + BPF_JEQ + BPF_K) ehi 0 3,
      BPF_STMT (BPF_LD + BPF_MEM) 0,
      BPF_JUMP (BPF_JMP + BPF_JGE + BPF_K) elo 2 0,
      BPF_STMT (BPF_LD + BPF_MEM) 1,
      action,
      BPF_STMT (BPF_LD + BPF_MEM) 1]"

definition IP_EQ64 :: "u32 \<Rightarrow> u32 \<Rightarrow> sock_filter \<Rightarrow> Filter" where
  "IP_EQ64 lo hi action =
     [BPF_JUMP (BPF_JMP + BPF_JEQ + BPF_K) hi 0 3,
      BPF_STMT (BPF_LD + BPF_MEM) 0,
      BPF_JUMP (BPF_JMP + BPF_JEQ + BPF_K) lo 0 1,
      action,
      BPF_STMT (BPF_LD + BPF_MEM) 1]"

definition ip_lo :: "u64 \<Rightarrow> u32" where "ip_lo ip = ucast ip"
definition ip_hi :: "u64 \<Rightarrow> u32" where "ip_hi ip = ucast (drop_bit 32 ip)"

definition IP_EQ :: "u64 \<Rightarrow> sock_filter \<Rightarrow> Filter" where
  "IP_EQ ip action = IP_EQ64 (ip_lo ip) (ip_hi ip) action"

definition IP_RANGE :: "u64 \<Rightarrow> u64 \<Rightarrow> sock_filter \<Rightarrow> Filter" where
  "IP_RANGE begin_ip end_ip action =
     (let begin_lo = ip_lo begin_ip; begin_hi = ip_hi begin_ip;
          end_lo = ip_lo end_ip; end_hi = ip_hi end_ip
      in IP_RANGE64 begin_lo begin_hi end_lo end_hi action)"

section \<open>The interpreter\<close>

record seccomp_data =
  nr :: u32
  arch :: u32
  instruction_pointer :: u64

datatype ins_result = Next u32 "u32 list" | Jump nat | Return u32 | Stuck

definition step :: "sock_filter \<Rightarrow> seccomp_data \<Rightarrow> u32 \<Rightarrow> u32 list \<Rightarrow> ins_result" where
  "step insn d acc mem =
     (if code insn = BPF_LD + BPF_W + BPF_ABS then
        (if k insn = SECCOMP_DATA_OFFSET_NR then Next (nr d) mem
         else if k insn = SECCOMP_DATA_OFFSET_ARCH then Next (arch d) mem
         else if k insn = SECCOMP_DATA_OFFSET_IP_LO then Next (ip_lo (instruction_pointer d)) mem
         else if k insn = SECCOMP_DATA_OFFSET_IP_HI then Next (ip_hi (instruction_pointer d)) mem
         else Stuck)
      else if code insn = BPF_ST then
        (if unat (k insn) < length mem then Next acc (mem[unat (k insn) := acc]) else Stuck)
      else if code insn = BPF_LD + BPF_MEM then
        (if unat (k insn) < length mem then Next (mem ! unat (k insn)) mem else Stuck)
      else if code insn = BPF_JMP + BPF_JEQ + BPF_K then
        Jump (unat (if acc = k insn then jt insn else jf insn))
      else if code insn = BPF_JMP + BPF_JGT + BPF_K then
        Jump (unat (if acc > k insn then jt insn else jf insn))
      else if code insn = BPF_JMP + BPF_JGE + BPF_K then
        Jump (unat (if acc \<ge> k insn then jt insn else jf insn))
      else if code insn = BPF_RET + BPF_K then Return (k insn)
      else Stuck)"

text \<open>
  The loop of the interpreter; \<open>None\<close> is a panic: an instruction outside the program, an opcode
  or an offset that is not modelled, a memory slot out of range.
\<close>

function run_at :: "Filter \<Rightarrow> seccomp_data \<Rightarrow> nat \<Rightarrow> u32 \<Rightarrow> u32 list \<Rightarrow> u32 option" where
  "run_at prog d pc acc mem =
     (if pc < length prog then
        (case step (prog ! pc) d acc mem of
           Next acc' mem' \<Rightarrow> run_at prog d (Suc pc) acc' mem'
         | Jump off \<Rightarrow> run_at prog d (Suc pc + off) acc mem
         | Return v \<Rightarrow> Some v
         | Stuck \<Rightarrow> None)
      else None)"
  by pat_completeness auto
termination
  by (relation "measure (\<lambda>(prog, d, pc, acc, mem). length prog - pc)") auto

declare run_at.simps [simp del]

definition run :: "Filter \<Rightarrow> seccomp_data \<Rightarrow> u32 option" where
  "run prog d = run_at prog d 0 0 (replicate 16 0)"

section \<open>Execution by suffixes\<close>

text \<open>
  Jumps are relative and forward, so a run from a position is a run of the rest of the program.
\<close>

function exec :: "Filter \<Rightarrow> seccomp_data \<Rightarrow> u32 \<Rightarrow> u32 list \<Rightarrow> u32 option" where
  "exec [] d acc mem = None"
| "exec (insn # rest) d acc mem =
     (case step insn d acc mem of
        Next acc' mem' \<Rightarrow> exec rest d acc' mem'
      | Jump off \<Rightarrow> exec (drop off rest) d acc mem
      | Return v \<Rightarrow> Some v
      | Stuck \<Rightarrow> None)"
  by pat_completeness auto
termination
  by (relation "measure (\<lambda>(prog, d, acc, mem). length prog)") auto

lemma run_at_exec: "run_at prog d pc acc mem = exec (drop pc prog) d acc mem"
proof (induction prog d pc acc mem rule: run_at.induct)
  case (1 prog d pc acc mem)
  show ?case
  proof (cases "pc < length prog")
    case True
    then have "drop pc prog = prog ! pc # drop (Suc pc) prog"
      by (simp add: Cons_nth_drop_Suc)
    with True 1 show ?thesis
      by (simp add: run_at.simps [of prog d pc acc mem] add.commute split: ins_result.split)
  next
    case False
    then show ?thesis by (simp add: run_at.simps [of prog d pc acc mem])
  qed
qed

lemma run_exec: "run prog d = exec prog d 0 (replicate 16 0)"
  by (simp add: run_def run_at_exec)

named_theorems bpf_words

lemmas [bpf_words] =
  BPF_LD_def BPF_ST_def BPF_JMP_def BPF_RET_def BPF_W_def BPF_ABS_def BPF_MEM_def BPF_JEQ_def
  BPF_JGT_def BPF_JGE_def BPF_K_def SECCOMP_DATA_OFFSET_NR_def SECCOMP_DATA_OFFSET_ARCH_def
  SECCOMP_DATA_OFFSET_IP_def SECCOMP_DATA_OFFSET_IP_HI_def SECCOMP_DATA_OFFSET_IP_LO_def

declare exec.simps(2) [simp del]

text \<open>One instruction of each kind the fragments use.\<close>

lemma exec_stmt_simps [simp]:
  "exec (BPF_STMT (BPF_LD + BPF_W + BPF_ABS) SECCOMP_DATA_OFFSET_NR # rest) d acc mem =
     exec rest d (nr d) mem"
  "exec (BPF_STMT (BPF_LD + BPF_W + BPF_ABS) SECCOMP_DATA_OFFSET_ARCH # rest) d acc mem =
     exec rest d (arch d) mem"
  "exec (BPF_STMT (BPF_LD + BPF_W + BPF_ABS) SECCOMP_DATA_OFFSET_IP_LO # rest) d acc mem =
     exec rest d (ip_lo (instruction_pointer d)) mem"
  "exec (BPF_STMT (BPF_LD + BPF_W + BPF_ABS) SECCOMP_DATA_OFFSET_IP_HI # rest) d acc mem =
     exec rest d (ip_hi (instruction_pointer d)) mem"
  "unat v < length mem \<Longrightarrow>
     exec (BPF_STMT BPF_ST v # rest) d acc mem = exec rest d acc (mem[unat v := acc])"
  "unat v < length mem \<Longrightarrow>
     exec (BPF_STMT (BPF_LD + BPF_MEM) v # rest) d acc mem = exec rest d (mem ! unat v) mem"
  "exec (BPF_STMT (BPF_RET + BPF_K) v # rest) d acc mem = Some v"
  by (simp_all add: exec.simps(2) step_def BPF_STMT_def bpf_words)

lemma exec_jump_simps [simp]:
  "exec (BPF_JUMP (BPF_JMP + BPF_JEQ + BPF_K) v t f # rest) d acc mem =
     exec (drop (if acc = v then unat t else unat f) rest) d acc mem"
  "exec (BPF_JUMP (BPF_JMP + BPF_JGT + BPF_K) v t f # rest) d acc mem =
     exec (drop (if acc > v then unat t else unat f) rest) d acc mem"
  "exec (BPF_JUMP (BPF_JMP + BPF_JGE + BPF_K) v t f # rest) d acc mem =
     exec (drop (if acc \<ge> v then unat t else unat f) rest) d acc mem"
  by (simp_all add: exec.simps(2) step_def BPF_JUMP_def bpf_words)

section \<open>Halves of the instruction pointer\<close>

lemma unat_ip_lo: "unat (ip_lo x) = unat x mod 2 ^ 32"
  by (simp add: ip_lo_def unsigned_ucast_eq take_bit_eq_mod)

lemma unat_ip_hi: "unat (ip_hi x) = unat x div 2 ^ 32"
proof -
  have "unat x div 2 ^ 32 < 2 ^ 32"
    using unsigned_less [of x, where 'a = nat] by (simp add: less_mult_imp_div_less)
  moreover have "unat (drop_bit 32 x) = unat x div 2 ^ 32"
    unfolding unat_drop_bit_eq by (rule drop_bit_eq_div)
  ultimately show ?thesis
    by (simp add: ip_hi_def unsigned_ucast_eq take_bit_eq_mod del: drop_bit_numeral_minus_bit1)
qed

lemma ip_halves_less:
  "x < y \<longleftrightarrow> ip_hi x < ip_hi y \<or> (ip_hi x = ip_hi y \<and> ip_lo x < ip_lo y)"
  using nat_less_div_mod_iff [of "unat x" "unat y" "2 ^ 32"]
  by (simp only: word_less_nat_alt word_unat_eq_iff unat_ip_lo unat_ip_hi)

lemma ip_halves_eq: "x = y \<longleftrightarrow> ip_hi x = ip_hi y \<and> ip_lo x = ip_lo y"
  by (metis ip_halves_less linorder_neq_iff)

lemma ip_halves_le:
  "x \<le> y \<longleftrightarrow> ip_hi x < ip_hi y \<or> (ip_hi x = ip_hi y \<and> ip_lo x \<le> ip_lo y)"
  by (metis ip_halves_less ip_halves_eq order_le_less)

section \<open>Rules in sequence\<close>

text \<open>
  The contract of a family of rules: code that, in a register state \<open>ready\<close> for it, returns the
  rule's verdict when the rule matches and otherwise continues with the code after it in the
  same register state.
\<close>

locale bpf_rules =
  fixes emit :: "'r \<Rightarrow> Filter"
    and hit :: "'r \<Rightarrow> seccomp_data \<Rightarrow> bool"
    and verdict :: "'r \<Rightarrow> u32"
    and ready :: "seccomp_data \<Rightarrow> u32 \<Rightarrow> u32 list \<Rightarrow> bool"
  assumes emit_hit: "ready d acc mem \<Longrightarrow> hit r d \<Longrightarrow> exec (emit r @ rest) d acc mem = Some (verdict r)"
    and emit_miss: "ready d acc mem \<Longrightarrow> \<not> hit r d \<Longrightarrow>
      exec (emit r @ rest) d acc mem = exec rest d acc mem"
begin

lemma rules_in_sequence:
  assumes "ready d acc mem"
  shows "exec (concat (map emit rs) @ rest) d acc mem =
    (case find (\<lambda>r. hit r d) rs of Some r \<Rightarrow> Some (verdict r) | None \<Rightarrow> exec rest d acc mem)"
  by (induction rs) (use assms in \<open>auto simp: emit_hit emit_miss\<close>)

end

abbreviation ret :: "u32 \<Rightarrow> sock_filter" where
  "ret v \<equiv> BPF_STMT (BPF_RET + BPF_K) v"

definition ip_ready :: "seccomp_data \<Rightarrow> u32 \<Rightarrow> u32 list \<Rightarrow> bool" where
  "ip_ready d acc mem \<longleftrightarrow> length mem = 16 \<and> acc = ip_hi (instruction_pointer d)
     \<and> mem ! 0 = ip_lo (instruction_pointer d) \<and> mem ! 1 = ip_hi (instruction_pointer d)"

lemma ip_eq_exec:
  assumes "ip_ready d acc mem"
  shows "exec (IP_EQ ip (ret v) @ rest) d acc mem =
    (if instruction_pointer d = ip then Some v else exec rest d acc mem)"
  using assms
  by (simp add: IP_EQ_def IP_EQ64_def ip_ready_def ip_halves_eq [of "instruction_pointer _"])

lemma ip_range_exec:
  assumes "ip_ready d acc mem"
  shows "exec (IP_RANGE b e (ret v) @ rest) d acc mem =
    (if b \<le> instruction_pointer d \<and> instruction_pointer d < e then Some v
     else exec rest d acc mem)"
  using assms unfolding ip_halves_le ip_halves_less IP_RANGE_def IP_RANGE64_def ip_ready_def Let_def
  by (cases "ip_hi (instruction_pointer d)" "ip_hi b" rule: linorder_cases;
      cases "ip_hi (instruction_pointer d)" "ip_hi e" rule: linorder_cases) auto

end
