(* ===== verification/Seccomp_Filter.thy ===== *)
theory Seccomp_Filter
  imports Seccomp_Bpf
begin

unbundle bit_operations_syntax

text \<open>
  From a tool's subscription to the filter the kernel runs: \<^verbatim>\<open>reverie/src/subscription.rs\<close>
  (which events a tool asks for), \<^verbatim>\<open>reverie-process/src/seccomp.rs\<close> (the filter builder) and
  \<^verbatim>\<open>seccomp_filter\<close> of \<^verbatim>\<open>reverie-ptrace/src/tracer.rs\<close> (the filter of the ptrace backend).
  The built byte code decides each system call as the abstract rule list \<open>decide\<close> says.

  A \<^verbatim>\<open>Sysno\<close> is its number, and a \<^verbatim>\<open>SysnoSet\<close> a set of them that is iterated in
  ascending order; the table of all numbers is the argument \<open>all_sysnos\<close>. The build is x86-64.
\<close>

section \<open>Subscriptions\<close>

type_synonym Sysno = u32

definition CPUID :: u32 where "CPUID = 1"
definition RDTSC :: u32 where "RDTSC = 2"

record Subscription =
  sub_instructions :: u32
  sub_syscalls :: "Sysno set"

definition sub_none :: Subscription where
  "sub_none = \<lparr>sub_instructions = 0, sub_syscalls = {}\<rparr>"

definition sub_all :: "Sysno set \<Rightarrow> Subscription" where
  "sub_all all_sysnos = \<lparr>sub_instructions = CPUID OR RDTSC, sub_syscalls = all_sysnos\<rparr>"

definition sub_all_syscalls :: "Sysno set \<Rightarrow> Subscription" where
  "sub_all_syscalls all_sysnos = \<lparr>sub_instructions = 0, sub_syscalls = all_sysnos\<rparr>"

definition rdtsc :: "Subscription \<Rightarrow> Subscription" where
  "rdtsc s = s\<lparr>sub_instructions := sub_instructions s OR RDTSC\<rparr>"

definition cpuid :: "Subscription \<Rightarrow> Subscription" where
  "cpuid s = s\<lparr>sub_instructions := sub_instructions s OR CPUID\<rparr>"

definition has_rdtsc :: "Subscription \<Rightarrow> bool" where
  "has_rdtsc s \<longleftrightarrow> sub_instructions s AND RDTSC = RDTSC"

definition has_cpuid :: "Subscription \<Rightarrow> bool" where
  "has_cpuid s \<longleftrightarrow> sub_instructions s AND CPUID = CPUID"

definition sub_set :: "Sysno \<Rightarrow> bool \<Rightarrow> Subscription \<Rightarrow> Subscription" where
  "sub_set n enabled s =
     (if enabled then s\<lparr>sub_syscalls := insert n (sub_syscalls s)\<rparr>
      else s\<lparr>sub_syscalls := sub_syscalls s - {n}\<rparr>)"

definition sub_syscall :: "Sysno \<Rightarrow> Subscription \<Rightarrow> Subscription" where
  "sub_syscall n s = s\<lparr>sub_syscalls := insert n (sub_syscalls s)\<rparr>"

definition sub_add_syscalls :: "Sysno list \<Rightarrow> Subscription \<Rightarrow> Subscription" where
  "sub_add_syscalls ns s = fold sub_syscall ns s"

definition disable_syscall :: "Sysno \<Rightarrow> Subscription \<Rightarrow> Subscription" where
  "disable_syscall n s = s\<lparr>sub_syscalls := sub_syscalls s - {n}\<rparr>"

definition disable_syscalls :: "Sysno list \<Rightarrow> Subscription \<Rightarrow> Subscription" where
  "disable_syscalls ns s = fold disable_syscall ns s"

definition iter_syscalls :: "Subscription \<Rightarrow> Sysno list" where
  "iter_syscalls s = sorted_list_of_set (sub_syscalls s)"

definition sub_bitor :: "Subscription \<Rightarrow> Subscription \<Rightarrow> Subscription" where
  "sub_bitor s rhs = s\<lparr>sub_instructions := sub_instructions s OR sub_instructions rhs,
     sub_syscalls := sub_syscalls s \<union> sub_syscalls rhs\<rparr>"

definition sub_extend :: "Sysno list \<Rightarrow> Subscription \<Rightarrow> Subscription" where
  "sub_extend ns s = fold sub_syscall ns s"

definition sub_from_iter :: "Sysno list \<Rightarrow> Subscription" where
  "sub_from_iter ns = sub_extend ns sub_none"

lemma set_iter_syscalls [simp]: "set (iter_syscalls s) = sub_syscalls s"
  by (simp add: iter_syscalls_def)

lemma sub_syscalls_fold_insert [simp]:
  "sub_syscalls (fold sub_syscall ns s) = set ns \<union> sub_syscalls s"
  by (induction ns arbitrary: s) (auto simp: sub_syscall_def)

lemma sub_syscalls_fold_disable [simp]:
  "sub_syscalls (fold disable_syscall ns s) = sub_syscalls s - set ns"
  by (induction ns arbitrary: s) (auto simp: disable_syscall_def)

lemma sub_instructions_fold [simp]:
  "sub_instructions (fold sub_syscall ns s) = sub_instructions s"
  "sub_instructions (fold disable_syscall ns s) = sub_instructions s"
  by (induction ns arbitrary: s) (auto simp: sub_syscall_def disable_syscall_def)

section \<open>Actions and architectures\<close>

type_synonym Errno = i32

datatype Action = Allow | Errno Errno | KillThread | KillProcess | Log | Trace u16 | Trap | Notify

fun action_u32 :: "Action \<Rightarrow> u32" where
  "action_u32 Allow = SECCOMP_RET_ALLOW"
| "action_u32 (Errno x) = SECCOMP_RET_ERRNO OR (word_of_int x AND SECCOMP_RET_DATA)"
| "action_u32 KillThread = SECCOMP_RET_KILL_THREAD"
| "action_u32 KillProcess = SECCOMP_RET_KILL_PROCESS"
| "action_u32 Log = SECCOMP_RET_LOG"
| "action_u32 (Trace x) = SECCOMP_RET_TRACE OR (ucast x AND SECCOMP_RET_DATA)"
| "action_u32 Trap = SECCOMP_RET_TRAP"
| "action_u32 Notify = 0x7fc00000"

definition action_sock_filter :: "Action \<Rightarrow> sock_filter" where
  "action_sock_filter a = BPF_STMT (BPF_RET + BPF_K) (action_u32 a)"

definition EM_386 :: u32 where "EM_386 = 3"
definition EM_MIPS :: u32 where "EM_MIPS = 8"
definition EM_PPC :: u32 where "EM_PPC = 20"
definition EM_PPC64 :: u32 where "EM_PPC64 = 21"
definition EM_ARM :: u32 where "EM_ARM = 40"
definition EM_X86_64 :: u32 where "EM_X86_64 = 62"
definition EM_AARCH64 :: u32 where "EM_AARCH64 = 183"
definition AUDIT_ARCH_64BIT :: u32 where "AUDIT_ARCH_64BIT = 0x80000000"
definition AUDIT_ARCH_LE :: u32 where "AUDIT_ARCH_LE = 0x40000000"

datatype TargetArch = x86 | x86_64 | mips | powerpc | powerpc64 | arm | aarch64

fun target_arch_u32 :: "TargetArch \<Rightarrow> u32" where
  "target_arch_u32 x86 = EM_386 OR AUDIT_ARCH_LE"
| "target_arch_u32 x86_64 = EM_X86_64 OR AUDIT_ARCH_64BIT OR AUDIT_ARCH_LE"
| "target_arch_u32 mips = EM_MIPS"
| "target_arch_u32 powerpc = EM_PPC"
| "target_arch_u32 powerpc64 = EM_PPC64 OR AUDIT_ARCH_64BIT"
| "target_arch_u32 arm = EM_ARM OR AUDIT_ARCH_LE"
| "target_arch_u32 aarch64 = EM_AARCH64 OR AUDIT_ARCH_64BIT OR AUDIT_ARCH_LE"

definition CURRENT :: TargetArch where "CURRENT = x86_64"

section \<open>The builder\<close>

record FilterBuilder =
  target_arch :: TargetArch
  default_action :: Action
  fb_syscalls :: "(Sysno, Action) btree"
  ip_ranges :: "(u64 \<times> u64 \<times> Action) list"
  instruction_pointers :: "(u64 \<times> Action) list"
  alternate_arch :: "(TargetArch \<times> Action) option"

definition builder_new :: FilterBuilder where
  "builder_new = \<lparr>target_arch = CURRENT, default_action = KillThread, fb_syscalls = [],
     ip_ranges = [], instruction_pointers = [], alternate_arch = None\<rparr>"

definition builder_target_arch :: "TargetArch \<Rightarrow> FilterBuilder \<Rightarrow> FilterBuilder" where
  "builder_target_arch a fb = fb\<lparr>target_arch := a\<rparr>"

definition builder_default_action :: "Action \<Rightarrow> FilterBuilder \<Rightarrow> FilterBuilder" where
  "builder_default_action a fb = fb\<lparr>default_action := a\<rparr>"

definition builder_syscall :: "Sysno \<Rightarrow> Action \<Rightarrow> FilterBuilder \<Rightarrow> FilterBuilder" where
  "builder_syscall n a fb = fb\<lparr>fb_syscalls := bt_insert n a (fb_syscalls fb)\<rparr>"

definition builder_syscalls :: "(Sysno \<times> Action) list \<Rightarrow> FilterBuilder \<Rightarrow> FilterBuilder" where
  "builder_syscalls table fb =
     fb\<lparr>fb_syscalls := fold (\<lambda>(n, a). bt_insert n a) table (fb_syscalls fb)\<rparr>"

definition builder_alternate_arch :: "TargetArch \<Rightarrow> Action \<Rightarrow> FilterBuilder \<Rightarrow> FilterBuilder" where
  "builder_alternate_arch ar a fb = fb\<lparr>alternate_arch := Some (ar, a)\<rparr>"

definition builder_instruction_pointer :: "u64 \<Rightarrow> Action \<Rightarrow> FilterBuilder \<Rightarrow> FilterBuilder" where
  "builder_instruction_pointer ip a fb =
     fb\<lparr>instruction_pointers := instruction_pointers fb @ [(ip, a)]\<rparr>"

definition builder_ip_range :: "u64 \<Rightarrow> u64 \<Rightarrow> Action \<Rightarrow> FilterBuilder \<Rightarrow> FilterBuilder" where
  "builder_ip_range b e a fb = fb\<lparr>ip_ranges := ip_ranges fb @ [(b, e, a)]\<rparr>"

definition builder_ip_ranges :: "(u64 \<times> u64 \<times> Action) list \<Rightarrow> FilterBuilder \<Rightarrow> FilterBuilder" where
  "builder_ip_ranges rs fb = fb\<lparr>ip_ranges := ip_ranges fb @ rs\<rparr>"

definition build :: "FilterBuilder \<Rightarrow> Filter" where
  "build fb =
     (case alternate_arch fb of
        None \<Rightarrow> VALIDATE_ARCH (target_arch_u32 (target_arch fb))
      | Some (ar, action) \<Rightarrow>
          VALIDATE_ARCH_OR_ALTERNATE (target_arch_u32 (target_arch fb)) (target_arch_u32 ar)
            (action_sock_filter action)) @
     (if instruction_pointers fb \<noteq> [] \<or> ip_ranges fb \<noteq> [] then
        LOAD_SYSCALL_IP @
        concat (map (\<lambda>(ip, action). IP_EQ ip (action_sock_filter action))
          (instruction_pointers fb)) @
        concat (map (\<lambda>(b, e, action). IP_RANGE b e (action_sock_filter action)) (ip_ranges fb))
      else []) @
     (if fb_syscalls fb \<noteq> [] then
        [LOAD_SYSCALL_NR] @
        concat (map (\<lambda>(n, action). SYSCALL n (action_sock_filter action)) (fb_syscalls fb))
      else []) @
     [action_sock_filter (default_action fb)]"

text \<open>
  The check before a program is handed to the kernel; \<open>sys_seccomp\<close> is the \<^verbatim>\<open>seccomp\<close> system call.
\<close>

definition EINVAL :: Errno where "EINVAL = 22"

definition install :: "(u32 \<Rightarrow> Filter \<Rightarrow> Errno + i32) \<Rightarrow> u32 \<Rightarrow> Filter \<Rightarrow> Errno + i32" where
  "install sys_seccomp flags prog =
     (let len = length prog
      in if len = 0 \<or> len > BPF_MAXINSNS then Inl EINVAL else sys_seccomp flags prog)"

definition load :: "(u32 \<Rightarrow> Filter \<Rightarrow> Errno + i32) \<Rightarrow> Filter \<Rightarrow> Errno + unit" where
  "load sys_seccomp prog = (case install sys_seccomp 0 prog of Inl e \<Rightarrow> Inl e | Inr _ \<Rightarrow> Inr ())"

section \<open>The filter of the ptrace backend\<close>

definition TRAMPOLINE_BASE :: u64 where "TRAMPOLINE_BASE = 0x71000000"
definition SYSCALL_INSTR_SIZE :: u64 where "SYSCALL_INSTR_SIZE = 2"
definition UD_INSTR_SIZE :: u64 where "UD_INSTR_SIZE = 1"

definition SYS_rt_sigreturn :: Sysno where "SYS_rt_sigreturn = 15"

definition seccomp_filter :: "Subscription \<Rightarrow> bool \<Rightarrow> Filter" where
  "seccomp_filter events observes_sigreturns =
     build
       (builder_ip_range (TRAMPOLINE_BASE + SYSCALL_INSTR_SIZE)
          (TRAMPOLINE_BASE + SYSCALL_INSTR_SIZE + UD_INSTR_SIZE) Allow
         (builder_syscall SYS_rt_sigreturn (if observes_sigreturns then Trace 0 else Allow)
           (builder_syscalls (map (\<lambda>n. (n, Trace 0)) (iter_syscalls events))
             (builder_default_action Allow builder_new))))"

section \<open>What a filter decides\<close>

text \<open>
  The specification, on the rules as the caller gave them: the architecture first, then the exact
  instruction pointers, the ranges and the system call numbers, each list in sequence.
\<close>

definition decide :: "FilterBuilder \<Rightarrow> seccomp_data \<Rightarrow> Action" where
  "decide fb d =
     (if arch d = target_arch_u32 (target_arch fb) then
        (case find (\<lambda>(ip, a). instruction_pointer d = ip) (instruction_pointers fb) of
           Some (ip, a) \<Rightarrow> a
         | None \<Rightarrow>
           (case find (\<lambda>(b, e, a). b \<le> instruction_pointer d \<and> instruction_pointer d < e)
                   (ip_ranges fb) of
              Some (b, e, a) \<Rightarrow> a
            | None \<Rightarrow>
              (case bt_get (fb_syscalls fb) (nr d) of Some a \<Rightarrow> a | None \<Rightarrow> default_action fb)))
      else
        (case alternate_arch fb of
           Some (ar, a) \<Rightarrow> if arch d = target_arch_u32 ar then a else KillProcess
         | None \<Rightarrow> KillProcess))"

lemma exec_arch_check:
  "exec (VALIDATE_ARCH a @ rest) d acc mem =
     (if arch d = a then exec rest d a mem else Some SECCOMP_RET_KILL_PROCESS)"
  by (simp add: VALIDATE_ARCH_def)

lemma exec_arch_check_alternate:
  "exec (VALIDATE_ARCH_OR_ALTERNATE a b (action_sock_filter v) @ rest) d acc mem =
     (if arch d = a then exec rest d a mem
      else if arch d = b then Some (action_u32 v) else Some SECCOMP_RET_KILL_PROCESS)"
  by (simp add: VALIDATE_ARCH_OR_ALTERNATE_def action_sock_filter_def)

lemma exec_load_ip:
  "length mem = 16 \<Longrightarrow>
   exec (LOAD_SYSCALL_IP @ rest) d acc mem =
     exec rest d (ip_hi (instruction_pointer d))
       (mem[0 := ip_lo (instruction_pointer d), 1 := ip_hi (instruction_pointer d)])"
  by (simp add: LOAD_SYSCALL_IP_def)

lemma ip_ready_after_load:
  "length mem = 16 \<Longrightarrow>
   ip_ready d (ip_hi (instruction_pointer d))
     (mem[0 := ip_lo (instruction_pointer d), 1 := ip_hi (instruction_pointer d)])"
  by (simp add: ip_ready_def)

lemma find_eq_bt_get: "find (\<lambda>(n, a). x = n) m = map_option (Pair x) (bt_get m x)"
  by (induction m) auto

text \<open>The three families of rules a builder emits.\<close>

interpretation ip_eq: bpf_rules
  "\<lambda>(ip, a). IP_EQ ip (action_sock_filter a)"
  "\<lambda>r d. case r of (ip, a) \<Rightarrow> instruction_pointer d = ip"
  "\<lambda>(ip, a). action_u32 a" ip_ready
  by unfold_locales (auto simp add: ip_eq_exec action_sock_filter_def split: prod.splits)

interpretation ip_range: bpf_rules
  "\<lambda>(b, e, a). IP_RANGE b e (action_sock_filter a)"
  "\<lambda>r d. case r of (b, e, a) \<Rightarrow> b \<le> instruction_pointer d \<and> instruction_pointer d < e"
  "\<lambda>(b, e, a). action_u32 a" ip_ready
  by unfold_locales (auto simp add: ip_range_exec action_sock_filter_def split: prod.splits)

interpretation sys: bpf_rules
  "\<lambda>(n, a). SYSCALL n (action_sock_filter a)" "\<lambda>r d. case r of (n, a) \<Rightarrow> nr d = n"
  "\<lambda>(n, a). action_u32 a" "\<lambda>d acc mem. acc = nr d"
  by unfold_locales (auto simp add: SYSCALL_def action_sock_filter_def split: prod.splits)

lemma exec_return_action [simp]: "exec [action_sock_filter a] d acc mem = Some (action_u32 a)"
  by (simp add: action_sock_filter_def)

lemma exec_load_nr [simp]: "exec (LOAD_SYSCALL_NR # rest) d acc mem = exec rest d (nr d) mem"
  by (simp add: LOAD_SYSCALL_NR_def)

lemma exec_syscall_part:
  "exec ((if m \<noteq> [] then [LOAD_SYSCALL_NR] @
            concat (map (\<lambda>(n, a). SYSCALL n (action_sock_filter a)) m) else []) @
         [action_sock_filter dflt]) d acc mem =
     Some (action_u32 (case bt_get m (nr d) of Some a \<Rightarrow> a | None \<Rightarrow> dflt))"
  using sys.rules_in_sequence [of "nr d" d m "[action_sock_filter dflt]" mem]
  by (auto simp add: find_eq_bt_get split: option.split)

lemma exec_ip_rules:
  assumes "ip_ready d acc mem"
  shows "exec (concat (map (\<lambda>(ip, a). IP_EQ ip (action_sock_filter a)) ips) @
           concat (map (\<lambda>(b, e, a). IP_RANGE b e (action_sock_filter a)) ranges) @ rest)
         d acc mem =
     (case find (\<lambda>(ip, a). instruction_pointer d = ip) ips of
        Some (ip, a) \<Rightarrow> Some (action_u32 a)
      | None \<Rightarrow>
        (case find (\<lambda>(b, e, a). b \<le> instruction_pointer d \<and> instruction_pointer d < e) ranges of
           Some (b, e, a) \<Rightarrow> Some (action_u32 a) | None \<Rightarrow> exec rest d acc mem))"
  by (simp only: ip_eq.rules_in_sequence [OF assms] ip_range.rules_in_sequence [OF assms])
    (simp split: option.split)

lemma exec_ip_part:
  assumes "length mem = 16" and "\<And>acc mem. exec rest d acc mem = Some r"
  shows "exec ((if ips \<noteq> [] \<or> ranges \<noteq> [] then
           LOAD_SYSCALL_IP @
           concat (map (\<lambda>(ip, a). IP_EQ ip (action_sock_filter a)) ips) @
           concat (map (\<lambda>(b, e, a). IP_RANGE b e (action_sock_filter a)) ranges) else []) @ rest)
         d acc mem =
     (case find (\<lambda>(ip, a). instruction_pointer d = ip) ips of
        Some (ip, a) \<Rightarrow> Some (action_u32 a)
      | None \<Rightarrow>
        (case find (\<lambda>(b, e, a). b \<le> instruction_pointer d \<and> instruction_pointer d < e) ranges of
           Some (b, e, a) \<Rightarrow> Some (action_u32 a) | None \<Rightarrow> Some r))"
proof (cases "ips \<noteq> [] \<or> ranges \<noteq> []")
  case True
  then show ?thesis
    by (simp only: if_True append_assoc exec_load_ip [OF assms(1)]
        exec_ip_rules [OF ip_ready_after_load [OF assms(1)]] assms(2) simp_thms)
next
  case False
  then show ?thesis by (simp add: assms(2))
qed

lemma exec_rules_part:
  assumes "length mem = 16"
  shows "exec ((if instruction_pointers fb \<noteq> [] \<or> ip_ranges fb \<noteq> [] then
           LOAD_SYSCALL_IP @
           concat (map (\<lambda>(ip, a). IP_EQ ip (action_sock_filter a)) (instruction_pointers fb)) @
           concat (map (\<lambda>(b, e, a). IP_RANGE b e (action_sock_filter a)) (ip_ranges fb)) else []) @
         (if fb_syscalls fb \<noteq> [] then [LOAD_SYSCALL_NR] @
            concat (map (\<lambda>(n, a). SYSCALL n (action_sock_filter a)) (fb_syscalls fb)) else []) @
         [action_sock_filter (default_action fb)])
         d (target_arch_u32 (target_arch fb)) mem =
       Some (action_u32 (decide fb (d\<lparr>arch := target_arch_u32 (target_arch fb)\<rparr>)))"
  unfolding exec_ip_part [OF assms exec_syscall_part] decide_def
  by (simp split: option.split)

lemma exec_build:
  assumes "length mem = 16"
  shows "exec (build fb) d acc mem = Some (action_u32 (decide fb d))"
proof (cases "arch d = target_arch_u32 (target_arch fb)")
  case True
  then have "d\<lparr>arch := target_arch_u32 (target_arch fb)\<rparr> = d" by simp
  with True show ?thesis
    unfolding build_def
    by (cases "alternate_arch fb")
      (auto simp only: exec_arch_check exec_arch_check_alternate exec_rules_part [OF assms]
        if_True option.case prod.case refl)
next
  case False
  then show ?thesis
    unfolding build_def decide_def
    by (auto simp: exec_arch_check exec_arch_check_alternate split: option.split)
qed

section \<open>Size of a filter\<close>

lemma length_concat_const:
  "(\<And>x. length (f x) = n) \<Longrightarrow> length (concat (map f xs)) = n * length xs"
  by (induction xs) auto

lemma length_fragments [simp]:
  "length (VALIDATE_ARCH a) = 3" "length (VALIDATE_ARCH_OR_ALTERNATE a b act) = 5"
  "length LOAD_SYSCALL_IP = 4" "length (SYSCALL n act) = 2"
  by (simp_all add: VALIDATE_ARCH_def VALIDATE_ARCH_OR_ALTERNATE_def LOAD_SYSCALL_IP_def SYSCALL_def)

lemma length_ip_fragments [simp]: "length (IP_EQ ip act) = 5" "length (IP_RANGE b e act) = 12"
  by (simp_all add: IP_EQ_def IP_EQ64_def IP_RANGE_def IP_RANGE64_def Let_def)

lemma length_build_le:
  "length (build fb) \<le> 10 + 5 * length (instruction_pointers fb) + 12 * length (ip_ranges fb)
     + (if fb_syscalls fb = [] then 0 else 1 + 2 * length (fb_syscalls fb))"
  by (auto simp: build_def length_concat_const [where n = 5] length_concat_const [where n = 12]
      length_concat_const [where n = 2] split: prod.split option.split)

lemma build_not_Nil: "build fb \<noteq> []"
  by (simp add: build_def)

lemma length_bt_insert: "length (bt_insert x v m) \<le> Suc (length m)"
  by (induction x v m rule: bt_insert.induct) auto

lemma length_fold_insert:
  "length (fold (\<lambda>(n, a). bt_insert n a) table m) \<le> length m + length table"
proof (induction table arbitrary: m)
  case (Cons r table)
  obtain n a where "r = (n, a)" by (cases r)
  with Cons.IH [of "bt_insert n a m"] length_bt_insert [of n a m] show ?case by simp
qed simp

section \<open>The decisions of the ptrace backend\<close>

lemma bt_get_fold_insert:
  "bt_get (fold (\<lambda>(n, a). bt_insert n a) (map (\<lambda>n. (n, v)) ns) m) x =
     (if x \<in> set ns then Some v else bt_get m x)"
  by (induction ns arbitrary: m) auto

lemma trampoline_window:
  "TRAMPOLINE_BASE + SYSCALL_INSTR_SIZE \<le> ip \<and> ip < TRAMPOLINE_BASE + SYSCALL_INSTR_SIZE + UD_INSTR_SIZE
     \<longleftrightarrow> ip = 0x71000002"
proof -
  have "(0x71000002 :: u64) \<le> ip \<and> ip < 0x71000003 \<longleftrightarrow> ip = 0x71000002"
    by (auto simp: word_le_nat_alt word_less_nat_alt word_unat_eq_iff)
  then show ?thesis
    by (simp add: TRAMPOLINE_BASE_def SYSCALL_INSTR_SIZE_def UD_INSTR_SIZE_def)
qed

lemmas builder_defs = builder_new_def builder_target_arch_def builder_default_action_def
  builder_syscall_def builder_syscalls_def builder_alternate_arch_def
  builder_instruction_pointer_def builder_ip_range_def builder_ip_ranges_def

section \<open>Properties\<close>

text \<open>
  C16: the byte code generated for any set of rules, run as the kernel runs it, always returns, and
  returns the action of the first rule that matches: the architecture, then the exact instruction
  pointers in sequence, then the half-open ranges in sequence, then the system call number, and the
  default action last.
\<close>

theorem build_decides: "run (build fb) d = Some (action_u32 (decide fb d))"
  by (simp add: run_exec exec_build)

text \<open>
  C17: the filter of the ptrace backend on x86-64. A call of another architecture kills the process;
  a call from the private trampoline page is never traced; the guest's \<^verbatim>\<open>rt_sigreturn\<close> is traced
  exactly when the tool observes it; every other call is traced exactly when it is subscribed.
\<close>

theorem seccomp_filter_traces:
  assumes "finite (sub_syscalls events)"
  shows "run (seccomp_filter events obs) d =
    Some (if arch d \<noteq> target_arch_u32 x86_64 then SECCOMP_RET_KILL_PROCESS
          else if instruction_pointer d = 0x71000002 then SECCOMP_RET_ALLOW
          else if nr d = SYS_rt_sigreturn then
            (if obs then SECCOMP_RET_TRACE else SECCOMP_RET_ALLOW)
          else if nr d \<in> sub_syscalls events then SECCOMP_RET_TRACE
          else SECCOMP_RET_ALLOW)"
  using assms unfolding seccomp_filter_def run_exec
  by (simp add: exec_build decide_def builder_defs bt_get_fold_insert trampoline_window CURRENT_def)

theorem seccomp_filter_traces_witness:
  "run (seccomp_filter (sub_from_iter [59, 0]) True)
     \<lparr>nr = 59, arch = target_arch_u32 x86_64, instruction_pointer = 0x400000\<rparr> =
   Some SECCOMP_RET_TRACE"
  by (subst seccomp_filter_traces)
    (simp_all add: sub_from_iter_def sub_extend_def sub_none_def sub_syscall_def
      SYS_rt_sigreturn_def)

text \<open>
  C18: the filter of the ptrace backend always passes the length check and reaches the kernel, for
  any subscription of at most 2,030 system calls.
\<close>

theorem seccomp_filter_installs:
  assumes "card (sub_syscalls events) \<le> 2030"
  shows "install sys_seccomp flags (seccomp_filter events obs) =
    sys_seccomp flags (seccomp_filter events obs)"
proof -
  define m where "m = fold (\<lambda>(n, a). bt_insert n a)
    (map (\<lambda>n. (n, Trace 0)) (iter_syscalls events)) ([] :: (Sysno, Action) btree)"
  have "length m \<le> 2030"
    using assms length_fold_insert [of "map (\<lambda>n. (n, Trace 0)) (iter_syscalls events)" "[]"]
    by (simp add: m_def iter_syscalls_def)
  then have m: "length (bt_insert SYS_rt_sigreturn a m) \<le> 2031" for a
    using length_bt_insert [of SYS_rt_sigreturn a m] by simp
  have "length (seccomp_filter events obs) \<le> 23 + 2 * 2031"
    unfolding seccomp_filter_def
    by (rule order_trans [OF length_build_le]) (simp add: builder_defs m m_def [symmetric])
  then show ?thesis
    by (simp add: install_def seccomp_filter_def build_not_Nil BPF_MAXINSNS_def)
qed

theorem seccomp_filter_installs_witness:
  "install (\<lambda>flags prog. Inr 0) 0 (seccomp_filter (sub_from_iter [59]) False) = Inr 0"
  by (subst seccomp_filter_installs)
    (simp_all add: sub_from_iter_def sub_extend_def sub_none_def sub_syscall_def)

end
