(* ===== verification/Input_Layout.thy ===== *)
theory Input_Layout
  imports Reverie_Prelude
begin

unbundle bit_operations_syntax

text \<open>
  The reserved input page of \<^verbatim>\<open>reverie/src/reserved_input/mod.rs\<close>: the layout of the page, the
  conservative overlap test on every spelling of a tagged address, and the complete image that is
  written to the page. A refusal \<^verbatim>\<open>InputUnavailable\<close> is its reason; \<^verbatim>\<open>usize\<close> has 64 bits.
\<close>

section \<open>Layouts\<close>

type_synonym InputUnavailable = string

definition RESERVED_INPUT_BASE :: u64 where "RESERVED_INPUT_BASE = 0x71010000"

datatype InputAbi = X86_64 | Aarch64

record ReservedInputLayout =
  base :: u64
  page_bytes :: u64
  abi :: InputAbi

definition validate :: "ReservedInputLayout \<Rightarrow> (InputUnavailable, ReservedInputLayout) outcome" where
  "validate l =
     (if base l \<noteq> RESERVED_INPUT_BASE
         \<or> page_bytes l \<notin> {4096, 16384, 65536}
         \<or> checked_add (base l) (page_bytes l) = None
         \<or> (abi l = X86_64 \<and> page_bytes l \<noteq> 4096)
      then Err ''input-layout-unsupported'' else Ok l)"

definition contains :: "ReservedInputLayout \<Rightarrow> u64 \<Rightarrow> u64 \<Rightarrow> bool" where
  "contains l address len \<longleftrightarrow>
     address \<ge> base l \<and>
     (case (checked_add address len, checked_add (base l) (page_bytes l)) of
        (Some end, Some page_end) \<Rightarrow> end \<le> page_end
      | _ \<Rightarrow> False)"

definition candidates :: "InputAbi \<Rightarrow> u64 \<Rightarrow> u64 list" where
  "candidates a address =
     (case a of
        Aarch64 \<Rightarrow>
          (let untagged = (if address AND push_bit 55 1 = 0 then address AND 0x00ffffffffffffff
                           else address)
           in [address, untagged, untagged])
      | X86_64 \<Rightarrow>
          [address, address AND 0x8000ffffffffffff, address AND 0x81ffffffffffffff])"

fun overlap_loop :: "u64 \<Rightarrow> u64 \<Rightarrow> u64 \<Rightarrow> u64 list \<Rightarrow> (InputUnavailable, bool) outcome" where
  "overlap_loop lo page_end len [] = Ok False"
| "overlap_loop lo page_end len (start # rest) =
     (case checked_add start len of
        None \<Rightarrow> Err ''address-normalization-unavailable''
      | Some end \<Rightarrow>
          if start < page_end \<and> end > lo then Ok True else overlap_loop lo page_end len rest)"

definition possibly_overlaps ::
    "ReservedInputLayout \<Rightarrow> u64 \<Rightarrow> u64 \<Rightarrow> (InputUnavailable, bool) outcome" where
  "possibly_overlaps l address len =
     (if len = 0 then Ok False
      else
        (case checked_add (base l) (page_bytes l) of
           None \<Rightarrow> Panic
         | Some page_end \<Rightarrow> overlap_loop (base l) page_end len (candidates (abi l) address)))"

section \<open>Images\<close>

record InputWrite =
  offset :: u64
  write_bytes :: "u8 list"

record ReservedInputImage =
  image_layout :: ReservedInputLayout
  image_bytes :: "u8 list"

text \<open>
  The body of the loop over the writes. \<open>unat (offset w) + length (write_bytes w)\<close> is the checked
  sum; the writes before an error have already changed the local buffers, which are then dropped.
\<close>

fun write_loop ::
    "u64 \<Rightarrow> InputWrite list \<Rightarrow> u8 list \<Rightarrow> bool list \<Rightarrow> (InputUnavailable, u8 list) outcome" where
  "write_loop page [] bytes occupied = Ok bytes"
| "write_loop page (w # ws) bytes occupied =
     (let start = unat (offset w); end = start + length (write_bytes w)
      in if end < 2 ^ 64 \<and> end \<le> unat page then
           if list_ex id (take (end - start) (drop start occupied)) then Err ''input-image-overlap''
           else
             write_loop page ws (take start bytes @ write_bytes w @ drop end bytes)
               (take start occupied @ replicate (end - start) True @ drop end occupied)
         else Err ''input-image-range'')"

definition image_new ::
    "ReservedInputLayout \<Rightarrow> InputWrite list \<Rightarrow> (InputUnavailable, ReservedInputImage) outcome" where
  "image_new layout writes =
     (case validate layout of
        Ok l \<Rightarrow>
          (case write_loop (page_bytes l) writes (replicate (unat (page_bytes l)) 0)
                  (replicate (unat (page_bytes l)) False) of
             Ok bytes \<Rightarrow> Ok \<lparr>image_layout = l, image_bytes = bytes\<rparr>
           | Err e \<Rightarrow> Err e
           | Panic \<Rightarrow> Panic)
      | Err e \<Rightarrow> Err e
      | Panic \<Rightarrow> Panic)"

text \<open>The output buffer of \<open>n\<close> bytes after a successful read, \<open>None\<close> when the read is refused.\<close>

definition image_read :: "ReservedInputImage \<Rightarrow> u64 \<Rightarrow> u64 \<Rightarrow> u8 list option" where
  "image_read img address n =
     (if contains (image_layout img) address n then
        let start = unat (address - base (image_layout img))
        in Some (take (unat n) (drop start (image_bytes img)))
      else None)"

record InputPathContext =
  reader_mount_namespace :: "u64 \<times> u64"
  target_mount_namespace :: "u64 \<times> u64"
  reader_cgroup_namespace :: "u64 \<times> u64"
  target_cgroup_namespace :: "u64 \<times> u64"
  reader_root :: "u64 \<times> u64"
  target_root :: "u64 \<times> u64"

definition same_view :: "InputPathContext \<Rightarrow> bool" where
  "same_view c \<longleftrightarrow>
     reader_mount_namespace c = target_mount_namespace c
     \<and> reader_cgroup_namespace c = target_cgroup_namespace c
     \<and> reader_root c = target_root c"

section \<open>Validated layouts\<close>

definition layout_valid :: "ReservedInputLayout \<Rightarrow> bool" where
  "layout_valid l \<longleftrightarrow> validate l = Ok l"

lemma validate_Ok: "validate l = Ok l' \<longleftrightarrow> layout_valid l \<and> l' = l"
  by (auto simp: layout_valid_def validate_def)

lemma validate_not_Panic [simp]: "validate l \<noteq> Panic"
  by (simp add: validate_def)

lemma layout_valid_page:
  assumes "layout_valid l"
  shows "base l = RESERVED_INPUT_BASE" "page_bytes l \<in> {4096, 16384, 65536}"
    "unat (base l + page_bytes l) = unat (base l) + unat (page_bytes l)"
    "checked_add (base l) (page_bytes l) = Some (base l + page_bytes l)"
  using assms
  by (auto simp: layout_valid_def validate_def checked_add_def unat_word_ariths split: if_splits)

section \<open>The overlap test\<close>

definition in_page :: "ReservedInputLayout \<Rightarrow> nat \<Rightarrow> bool" where
  "in_page l x \<longleftrightarrow> unat (base l) \<le> x \<and> x < unat (base l) + unat (page_bytes l)"

lemma overlap_loop_False:
  assumes "overlap_loop lo hi n cs = Ok False" and "c \<in> set cs" and "i < unat n"
  shows "\<not> (unat lo \<le> unat c + i \<and> unat c + i < unat hi)"
  using assms
  by (induction cs)
    (auto simp: checked_add_Some_iff word_less_nat_alt split: option.splits if_splits)

section \<open>Building an image\<close>

definition covers :: "InputWrite \<Rightarrow> nat \<Rightarrow> bool" where
  "covers w i \<longleftrightarrow> unat (offset w) \<le> i \<and> i < unat (offset w) + length (write_bytes w)"

text \<open>What the page holds after a list of writes: the byte of the write that covers the place.\<close>

definition image_byte :: "InputWrite list \<Rightarrow> nat \<Rightarrow> u8" where
  "image_byte ws i =
     (case find (\<lambda>w. covers w i) ws of
        Some w \<Rightarrow> write_bytes w ! (i - unat (offset w)) | None \<Rightarrow> 0)"

definition writes_disjoint :: "InputWrite list \<Rightarrow> bool" where
  "writes_disjoint ws \<longleftrightarrow> sorted_wrt (\<lambda>v w. \<forall>i. \<not> (covers v i \<and> covers w i)) ws"

text \<open>The loop invariant: the buffers after the writes \<open>ps\<close>.\<close>

definition painted :: "nat \<Rightarrow> InputWrite list \<Rightarrow> u8 list \<Rightarrow> bool list \<Rightarrow> bool" where
  "painted n ps bytes occupied \<longleftrightarrow> length bytes = n \<and> length occupied = n \<and> writes_disjoint ps
     \<and> (\<forall>i < n. bytes ! i = image_byte ps i \<and> occupied ! i = (\<exists>w \<in> set ps. covers w i))
     \<and> (\<forall>w \<in> set ps. unat (offset w) + length (write_bytes w) \<le> n)"

lemma splice_nth:
  assumes "s + length new \<le> length old" and "i < length old"
  shows "(take s old @ new @ drop (s + length new) old) ! i =
    (if s \<le> i \<and> i < s + length new then new ! (i - s) else old ! i)"
  using assms by (auto simp: nth_append min_def)

lemma find_snoc:
  "find P (xs @ [x]) = (case find P xs of Some y \<Rightarrow> Some y | None \<Rightarrow> if P x then Some x else None)"
  by (induction xs) auto

lemma painted_step:
  assumes "painted n ps bytes occupied"
    and fit: "unat (offset w) + length (write_bytes w) \<le> n"
    and free: "\<not> list_ex id (take (length (write_bytes w)) (drop (unat (offset w)) occupied))"
  shows "painted n (ps @ [w])
    (take (unat (offset w)) bytes @ write_bytes w @ drop (unat (offset w) + length (write_bytes w)) bytes)
    (take (unat (offset w)) occupied @ replicate (length (write_bytes w)) True
       @ drop (unat (offset w) + length (write_bytes w)) occupied)"
proof -
  let ?s = "unat (offset w)" and ?b = "write_bytes w"
  have len: "length bytes = n" "length occupied = n" using assms(1) by (auto simp: painted_def)
  have "\<not> occupied ! i" if "covers w i" for i
  proof -
    have "i - ?s < length ?b" "?s + (i - ?s) = i" using that by (auto simp: covers_def)
    then have "take (length ?b) (drop ?s occupied) ! (i - ?s) = occupied ! i"
      using fit len by simp
    moreover have "i - ?s < length (take (length ?b) (drop ?s occupied))"
      using that fit len by (auto simp: covers_def)
    ultimately show ?thesis using free by (metis id_apply list_ex_length)
  qed
  moreover have "i < n" if "covers w i" for i using that fit by (auto simp: covers_def)
  ultimately have none: "covers v i \<Longrightarrow> \<not> covers w i" if "v \<in> set ps" for v i
    using assms(1) that by (auto simp: painted_def)
  have byte: "image_byte (ps @ [w]) i = (if covers w i then ?b ! (i - ?s) else image_byte ps i)" for i
  proof -
    have "find (\<lambda>w. covers w i) ps = None" if "covers w i"
      using none that by (auto simp: find_None_iff)
    then show ?thesis by (auto simp: image_byte_def find_snoc split: option.split)
  qed
  show ?thesis
    unfolding painted_def
    using assms(1) fit none len splice_nth [of ?s ?b bytes] splice_nth [of ?s "replicate (length ?b) True" occupied]
    by (auto simp: painted_def byte writes_disjoint_def sorted_wrt_append covers_def)
qed

lemma write_loop_painted:
  assumes "write_loop page ws bytes occupied = Ok out" and "painted (unat page) ps bytes occupied"
  shows "\<exists>occ. painted (unat page) (ps @ ws) out occ"
  using assms
proof (induction ws arbitrary: ps bytes occupied)
  case (Cons w ws)
  then show ?case
    using painted_step [of "unat page" ps bytes occupied w]
    by (fastforce simp: Let_def split: if_splits)
qed auto

lemma painted_start: "painted n [] (replicate n 0) (replicate n False)"
  by (simp add: painted_def image_byte_def writes_disjoint_def)

lemma image_new_painted:
  assumes "image_new layout ws = Ok img"
  shows "image_layout img = layout" "layout_valid layout"
    "\<exists>occ. painted (unat (page_bytes layout)) ws (image_bytes img) occ"
  using assms write_loop_painted [OF _ painted_start, of "page_bytes layout" ws]
  by (auto simp: image_new_def validate_Ok split: outcome.splits)

lemma find_disjoint:
  "writes_disjoint ws \<Longrightarrow> w \<in> set ws \<Longrightarrow> covers w i \<Longrightarrow> find (\<lambda>v. covers v i) ws = Some w"
  by (induction ws) (auto simp: writes_disjoint_def)

lemma painted_slice:
  assumes "painted n ws bytes occ" and "w \<in> set ws"
  shows "take (length (write_bytes w)) (drop (unat (offset w)) bytes) = write_bytes w"
proof (rule nth_equalityI)
  have fit: "unat (offset w) + length (write_bytes w) \<le> length bytes"
    using assms by (auto simp: painted_def)
  then show "length (take (length (write_bytes w)) (drop (unat (offset w)) bytes)) =
      length (write_bytes w)" by simp
  fix i assume "i < length (take (length (write_bytes w)) (drop (unat (offset w)) bytes))"
  then have i: "i < length (write_bytes w)" by simp
  then have "covers w (unat (offset w) + i)" by (simp add: covers_def)
  then have "find (\<lambda>v. covers v (unat (offset w) + i)) ws = Some w"
    using assms by (intro find_disjoint) (auto simp: painted_def)
  then have "bytes ! (unat (offset w) + i) = write_bytes w ! i"
    using assms(1) fit i by (simp add: painted_def image_byte_def)
  with i fit show "take (length (write_bytes w)) (drop (unat (offset w)) bytes) ! i = write_bytes w ! i"
    by simp
qed

lemma page_bytes_less: "layout_valid l \<Longrightarrow> unat (page_bytes l) \<le> 65536"
  using layout_valid_page(2) [of l] by auto

lemma read_address:
  assumes "layout_valid l" and "off + n \<le> unat (page_bytes l)"
  shows "contains l (base l + of_nat off) (of_nat n)" "unat (base l + of_nat off - base l) = off"
    "unat (of_nat n :: u64) = n"
proof -
  have small: "off \<le> 65536" "n \<le> 65536" "off + n \<le> 65536"
    using assms page_bytes_less [of l] by linarith+
  then have u: "unat (of_nat off :: u64) = off" "unat (of_nat n :: u64) = n"
    by (simp_all add: unsigned_of_nat take_bit_eq_mod)
  then show "unat (base l + of_nat off - base l) = off" "unat (of_nat n :: u64) = n" by simp_all
  have "unat (base l + of_nat off) = unat (base l) + off"
    using layout_valid_page(1) [OF assms(1)] small(1) u(1)
    by (simp add: unat_word_ariths RESERVED_INPUT_BASE_def)
  moreover have "unat (base l) = 0x71010000"
    using layout_valid_page(1) [OF assms(1)] by (simp add: RESERVED_INPUT_BASE_def)
  moreover have "checked_add (base l + of_nat off) (of_nat n) = Some (base l + of_nat off + of_nat n)"
    using calculation u small by (simp add: checked_add_def)
  moreover have "unat (base l + of_nat off + of_nat n) = unat (base l) + off + n"
    using calculation u small by (subst unat_word_ariths) simp
  ultimately show "contains l (base l + of_nat off) (of_nat n)"
    using layout_valid_page(3,4) [OF assms(1)] assms(2)
    by (simp add: contains_def word_le_nat_alt)
qed

section \<open>Properties\<close>



text \<open>
  a read of the future image at the address of a write returns the bytes of the write.
\<close>

theorem image_read_write:
  assumes "image_new layout ws = Ok img" and "w \<in> set ws"
  shows "image_read img (base layout + offset w) (of_nat (length (write_bytes w))) =
    Some (write_bytes w)"
proof -
  obtain occ where p: "painted (unat (page_bytes layout)) ws (image_bytes img) occ"
    using image_new_painted(3) [OF assms(1)] by auto
  then have "unat (offset w) + length (write_bytes w) \<le> unat (page_bytes layout)"
    using assms(2) by (simp add: painted_def)
  from read_address [OF image_new_painted(2) [OF assms(1)] this] show ?thesis
    using painted_slice [OF p assms(2)] image_new_painted(1) [OF assms(1)]
    by (simp add: image_read_def)
qed

theorem image_read_write_witness:
  "\<exists>img. image_new \<lparr>base = 0x71010000, page_bytes = 4096, abi = X86_64\<rparr>
      [\<lparr>offset = 16, write_bytes = [1, 2, 3]\<rparr>] = Ok img
    \<and> image_read img 0x71010010 3 = Some [1, 2, 3]"
proof -
  let ?l = "\<lparr>base = 0x71010000, page_bytes = 4096, abi = X86_64\<rparr>"
  let ?w = "\<lparr>offset = 16, write_bytes = [1, 2, 3]\<rparr> :: InputWrite"
  have "validate ?l = Ok ?l" by (simp add: validate_def RESERVED_INPUT_BASE_def checked_add_def)
  then obtain img where img: "image_new ?l [?w] = Ok img"
    by (simp add: image_new_def Let_def drop_replicate take_replicate list_ex_iff)
  then show ?thesis using image_read_write [OF img, of ?w] by simp
qed



end
