(* ===== verification/Native_Operation.thy ===== *)
theory Native_Operation
  imports Reverie_Prelude
begin

text \<open>
  Native operations of \<^verbatim>\<open>reverie/src/native_syscall.rs\<close>: a caller opens an operation, the
  backend registers every physical attempt made under it and publishes what happened to each, and
  a completion proof says when the closed operation has no unresolved native effect.

  The shared objects (\<^verbatim>\<open>Arc<Mutex<NativeOperationCalls>>\<close>, \<^verbatim>\<open>Arc<AtomicU8>\<close>) are cells of an
  explicit store, a handle is the address of its cell, and \<^verbatim>\<open>Arc::ptr_eq\<close> is equality of
  addresses. The observer and the request proof are opaque values.
\<close>

section \<open>The store\<close>

definition PREPARING :: u8 where "PREPARING = 0"
definition TRANSITION_STARTED :: u8 where "TRANSITION_STARTED = 1"
definition EFFECTS_COMPLETE :: u8 where "EFFECTS_COMPLETE = 2"

record NativeOperationCalls =
  closed :: bool
  attempts :: "nat list"

record op_store =
  next_cell :: nat
  calls_at :: "nat \<Rightarrow> NativeOperationCalls"
  state_at :: "nat \<Rightarrow> u8"

definition empty_store :: op_store where
  "empty_store = \<lparr>next_cell = 0, calls_at = (\<lambda>_. \<lparr>closed = False, attempts = []\<rparr>), state_at = (\<lambda>_. 0)\<rparr>"

datatype NativeSyscallAbi = Linux (audit_arch: u32) | Unverified

record NativeSyscallRequest =
  req_abi :: NativeSyscallAbi
  req_number :: u64
  req_args :: "u64 list"

record ('o, 'p) NativeOperation =
  observer :: 'o
  op_calls :: nat
  request :: "(NativeSyscallRequest \<times> 'p) option"

datatype NativeOperationCompletion = NativeOperationCompletion (completion_cell: nat)
datatype NativeOperationAttempt = NativeOperationAttempt (attempt_cell: nat)

section \<open>Operations\<close>

definition op_new :: "'o \<Rightarrow> op_store \<Rightarrow> ('o, 'p) NativeOperation \<times> op_store" where
  "op_new owner st =
     (\<lparr>observer = owner, op_calls = next_cell st, request = None\<rparr>,
      st\<lparr>next_cell := next_cell st + 1,
         calls_at := (calls_at st)(next_cell st := \<lparr>closed = False, attempts = []\<rparr>)\<rparr>)"

definition same_operation :: "NativeOperationCompletion \<Rightarrow> NativeOperationCompletion \<Rightarrow> bool" where
  "same_operation a b \<longleftrightarrow> completion_cell a = completion_cell b"

definition close_calls :: "nat \<Rightarrow> op_store \<Rightarrow> op_store" where
  "close_calls c st = st\<lparr>calls_at := (calls_at st)(c := (calls_at st c)\<lparr>closed := True\<rparr>)\<rparr>"

definition close_after_native_owner_retired :: "NativeOperationCompletion \<Rightarrow> op_store \<Rightarrow> op_store" where
  "close_after_native_owner_retired p st = close_calls (completion_cell p) st"

definition effects_complete :: "op_store \<Rightarrow> NativeOperationCompletion \<Rightarrow> bool" where
  "effects_complete st p \<longleftrightarrow>
     closed (calls_at st (completion_cell p)) \<and>
     list_all (\<lambda>a. state_at st a = EFFECTS_COMPLETE) (attempts (calls_at st (completion_cell p)))"

definition compare_exchange :: "nat \<Rightarrow> u8 \<Rightarrow> u8 \<Rightarrow> op_store \<Rightarrow> op_store" where
  "compare_exchange a old new st =
     (if state_at st a = old then st\<lparr>state_at := (state_at st)(a := new)\<rparr> else st)"

definition transition_started :: "NativeOperationAttempt \<Rightarrow> op_store \<Rightarrow> op_store" where
  "transition_started a = compare_exchange (attempt_cell a) PREPARING TRANSITION_STARTED"

definition effects_ended :: "NativeOperationAttempt \<Rightarrow> op_store \<Rightarrow> op_store" where
  "effects_ended a st = st\<lparr>state_at := (state_at st)(attempt_cell a := EFFECTS_COMPLETE)\<rparr>"

definition cancelled_before_transition :: "NativeOperationAttempt \<Rightarrow> op_store \<Rightarrow> op_store" where
  "cancelled_before_transition a = compare_exchange (attempt_cell a) PREPARING EFFECTS_COMPLETE"

definition op_close :: "('o, 'p) NativeOperation \<Rightarrow> op_store \<Rightarrow> op_store" where
  "op_close operation st = close_calls (op_calls operation) st"

definition completion :: "('o, 'p) NativeOperation \<Rightarrow> NativeOperationCompletion" where
  "completion operation = NativeOperationCompletion (op_calls operation)"

definition op_effects_complete :: "op_store \<Rightarrow> ('o, 'p) NativeOperation \<Rightarrow> bool" where
  "op_effects_complete st operation = effects_complete st (completion operation)"

definition begin_native_attempt ::
    "('o, 'p) NativeOperation \<Rightarrow> (op_store, string, NativeOperationAttempt) operation" where
  "begin_native_attempt operation st =
     (let calls = calls_at st (op_calls operation) in
      if closed calls then (Err ''native operation is already closed'', st)
      else
        (Ok (NativeOperationAttempt (next_cell st)),
         st\<lparr>next_cell := next_cell st + 1,
            state_at := (state_at st)(next_cell st := PREPARING),
            calls_at := (calls_at st)(op_calls operation :=
              calls\<lparr>attempts := attempts calls @ [next_cell st]\<rparr>)\<rparr>))"

definition bound_request :: "('o, 'p) NativeOperation \<Rightarrow> NativeSyscallRequest option" where
  "bound_request operation = map_option fst (request operation)"

definition bind_request_from_backend ::
    "('o, 'p) NativeOperation \<Rightarrow> NativeSyscallRequest \<Rightarrow> 'p \<Rightarrow>
     (op_store, string, ('o, 'p) NativeOperation) operation" where
  "bind_request_from_backend operation req proof st =
     (if request operation \<noteq> None \<or> closed (calls_at st (op_calls operation)) then
        (Err ''native-request-already-bound-or-closed'', st)
      else (Ok (operation\<lparr>request := Some (req, proof)\<rparr>), st))"

section \<open>Histories\<close>

text \<open>
  The calls that change the store, on handles that earlier calls returned: an operation handle
  names the cell of an operation, an attempt handle the cell of an attempt.
\<close>

datatype op_event =
    NewOperation
  | BeginAttempt nat
  | CloseOperation nat
  | OwnerRetired nat
  | TransitionStarted nat
  | EffectsEnded nat
  | CancelledBeforeTransition nat

definition op_handle :: "nat \<Rightarrow> (unit, unit) NativeOperation" where
  "op_handle c = \<lparr>observer = (), op_calls = c, request = None\<rparr>"

fun op_apply :: "op_event \<Rightarrow> op_store \<Rightarrow> op_store" where
  "op_apply NewOperation st = snd (op_new () st :: (unit, unit) NativeOperation \<times> op_store)"
| "op_apply (BeginAttempt c) st = snd (begin_native_attempt (op_handle c) st)"
| "op_apply (CloseOperation c) st = op_close (op_handle c) st"
| "op_apply (OwnerRetired c) st = close_after_native_owner_retired (NativeOperationCompletion c) st"
| "op_apply (TransitionStarted a) st = transition_started (NativeOperationAttempt a) st"
| "op_apply (EffectsEnded a) st = effects_ended (NativeOperationAttempt a) st"
| "op_apply (CancelledBeforeTransition a) st =
     cancelled_before_transition (NativeOperationAttempt a) st"

fun op_handles_ok :: "op_event \<Rightarrow> op_store \<Rightarrow> bool" where
  "op_handles_ok NewOperation st \<longleftrightarrow> True"
| "op_handles_ok (BeginAttempt c) st \<longleftrightarrow> c < next_cell st"
| "op_handles_ok (CloseOperation c) st \<longleftrightarrow> c < next_cell st"
| "op_handles_ok (OwnerRetired c) st \<longleftrightarrow> c < next_cell st"
| "op_handles_ok (TransitionStarted a) st \<longleftrightarrow> a < next_cell st"
| "op_handles_ok (EffectsEnded a) st \<longleftrightarrow> a < next_cell st"
| "op_handles_ok (CancelledBeforeTransition a) st \<longleftrightarrow> a < next_cell st"

inductive op_step :: "op_store \<Rightarrow> op_store \<Rightarrow> bool" where
  "op_handles_ok e st \<Longrightarrow> op_step st (op_apply e st)"

inductive op_history :: "op_store \<Rightarrow> op_event list \<Rightarrow> op_store \<Rightarrow> bool" where
  op_history_Nil: "op_history st [] st"
| op_history_Cons: "op_handles_ok e st \<Longrightarrow> op_history (op_apply e st) es st' \<Longrightarrow>
    op_history st (e # es) st'"

inductive_cases op_stepE: "op_step st st'"

section \<open>The store's invariant\<close>

text \<open>Every attempt listed is an allocated cell, and its state is one of the three.\<close>

definition store_ok :: "op_store \<Rightarrow> bool" where
  "store_ok st \<longleftrightarrow>
     (\<forall>c. \<forall>a \<in> set (attempts (calls_at st c)). a < next_cell st) \<and>
     (\<forall>a. state_at st a \<in> {PREPARING, TRANSITION_STARTED, EFFECTS_COMPLETE}) \<and>
     (\<forall>c. next_cell st \<le> c \<longrightarrow> attempts (calls_at st c) = [])"

lemmas native_operation_defs = op_new_def close_calls_def close_after_native_owner_retired_def
  compare_exchange_def transition_started_def effects_ended_def cancelled_before_transition_def
  op_close_def begin_native_attempt_def op_handle_def Let_def

lemmas attempt_states = PREPARING_def TRANSITION_STARTED_def EFFECTS_COMPLETE_def

lemma store_ok_apply: "store_ok st \<Longrightarrow> op_handles_ok e st \<Longrightarrow> store_ok (op_apply e st)"
  by (cases e) (auto simp: store_ok_def native_operation_defs less_Suc_eq)

lemma store_ok_empty: "store_ok empty_store"
  by (simp add: store_ok_def empty_store_def attempt_states)

interpretation op_machine: invariant_machine "\<lambda>st. st = empty_store" op_step store_ok
  by unfold_locales (auto simp: store_ok_empty elim!: op_stepE intro: store_ok_apply)

lemma op_history_ok: "op_history st es st' \<Longrightarrow> store_ok st \<Longrightarrow> store_ok st'"
  by (induction rule: op_history.induct) (auto intro: store_ok_apply)

lemma op_history_steps: "op_history st es st' \<Longrightarrow> op_step\<^sup>*\<^sup>* st st'"
  by (induction rule: op_history.induct)
    (auto intro: converse_rtranclp_into_rtranclp op_step.intros)

text \<open>What one call does to an allocated operation and to an allocated attempt.\<close>

lemma apply_attempts_grow:
  "c < next_cell st \<Longrightarrow> set (attempts (calls_at st c)) \<subseteq> set (attempts (calls_at (op_apply e st) c))"
  by (cases e) (auto simp: native_operation_defs)

lemma apply_next_cell_mono: "next_cell st \<le> next_cell (op_apply e st)"
  by (cases e) (auto simp: native_operation_defs)

lemma apply_started:
  assumes "a < next_cell st" and "state_at st a = TRANSITION_STARTED" and "e \<noteq> EffectsEnded a"
  shows "state_at (op_apply e st) a = TRANSITION_STARTED"
  using assms by (cases e) (auto simp: native_operation_defs attempt_states)

lemma apply_complete_attempt:
  "a < next_cell st \<Longrightarrow> state_at st a = EFFECTS_COMPLETE \<Longrightarrow>
   state_at (op_apply e st) a = EFFECTS_COMPLETE"
  by (cases e) (auto simp: native_operation_defs attempt_states)

lemma apply_closed:
  assumes "c < next_cell st" and "closed (calls_at st c)"
  shows "calls_at (op_apply e st) c = calls_at st c"
  using assms by (cases e) (auto simp: native_operation_defs)

lemma apply_effects_complete:
  assumes "store_ok st" and "completion_cell p < next_cell st" and "effects_complete st p"
  shows "effects_complete (op_apply e st) p"
  using assms apply_closed [of "completion_cell p" st e] apply_complete_attempt [of _ st e]
  by (auto simp: effects_complete_def list_all_iff store_ok_def)

section \<open>Properties\<close>

text \<open>
  C19: completion is final. Once a closed operation has affirmative proof for every attempt, no
  later sequence of calls on any handle, of this operation or of another, takes the proof back,
  and no further attempt is admitted.
\<close>

theorem effects_complete_final:
  assumes "op_history empty_store before st" and "completion_cell p < next_cell st"
    and "effects_complete st p" and "op_history st after st'"
  shows "effects_complete st' p
    \<and> attempts (calls_at st' (completion_cell p)) = attempts (calls_at st (completion_cell p))"
proof -
  have "store_ok st" using assms(1) by (rule op_history_ok) (rule store_ok_empty)
  with assms(4,2,3) show ?thesis
  proof (induction rule: op_history.induct)
    case (op_history_Cons e st es st')
    moreover have "closed (calls_at st (completion_cell p))"
      using op_history_Cons.prems(2) by (simp add: effects_complete_def)
    ultimately show ?case
      using apply_effects_complete [of st p e] apply_closed [of "completion_cell p" st e]
        store_ok_apply [of st e] apply_next_cell_mono [of st e] by auto
  qed simp
qed

theorem effects_complete_final_witness:
  "effects_complete
     (op_apply (BeginAttempt 0) (op_apply (CloseOperation 0) (op_apply NewOperation empty_store)))
     (NativeOperationCompletion 0)"
proof -
  let ?st = "op_apply (CloseOperation 0) (op_apply NewOperation empty_store)"
  have "op_history empty_store [NewOperation, CloseOperation 0] ?st"
    by (intro op_history.intros) (simp_all add: native_operation_defs)
  moreover have "op_history ?st [BeginAttempt 0] (op_apply (BeginAttempt 0) ?st)"
    by (intro op_history.intros) (simp add: native_operation_defs)
  moreover have "effects_complete ?st (NativeOperationCompletion 0)"
    by (simp add: effects_complete_def native_operation_defs empty_store_def)
  moreover have "0 < next_cell ?st" by (simp add: native_operation_defs)
  ultimately show ?thesis
    using effects_complete_final [of _ ?st "NativeOperationCompletion 0"] by simp
qed

text \<open>
  C20: an issued attempt stays pending. After a transition was started, neither closing the
  operation, nor the retirement of its owner, nor a later cancellation completes it: the operation
  is not complete until that attempt's own end is published.
\<close>

theorem started_attempt_pending:
  assumes "op_history empty_store before st" and "a \<in> set (attempts (calls_at st c))"
    and "state_at st a = TRANSITION_STARTED"
    and "op_history st after st'" and "EffectsEnded a \<notin> set after"
  shows "\<not> effects_complete st' (NativeOperationCompletion c)"
proof -
  have ok: "store_ok st" using assms(1) by (rule op_history_ok) (rule store_ok_empty)
  with assms(2) have "a < next_cell st" "c < next_cell st"
    by (auto simp: store_ok_def) (metis empty_iff leI list.set(1))
  with assms(4,5,2,3) have "a \<in> set (attempts (calls_at st' c)) \<and> state_at st' a = TRANSITION_STARTED"
  proof (induction rule: op_history.induct)
    case (op_history_Cons e st es st')
    then show ?case
      using apply_started [of a st e] apply_attempts_grow [of c st e] apply_next_cell_mono [of st e]
      by auto
  qed simp
  then show ?thesis by (auto simp: effects_complete_def list_all_iff attempt_states intro: bexI [of _ a])
qed

theorem started_attempt_pending_witness:
  "\<not> effects_complete
     (op_apply (CancelledBeforeTransition 1) (op_apply (CloseOperation 0)
       (op_apply (TransitionStarted 1) (op_apply (BeginAttempt 0) (op_apply NewOperation empty_store)))))
     (NativeOperationCompletion 0)"
proof -
  let ?st = "op_apply (TransitionStarted 1) (op_apply (BeginAttempt 0) (op_apply NewOperation empty_store))"
  have "op_history empty_store [NewOperation, BeginAttempt 0, TransitionStarted 1] ?st"
    by (intro op_history.intros) (simp_all add: native_operation_defs empty_store_def)
  moreover have "op_history ?st [CloseOperation 0, CancelledBeforeTransition 1]
      (op_apply (CancelledBeforeTransition 1) (op_apply (CloseOperation 0) ?st))"
    by (intro op_history.intros) (simp_all add: native_operation_defs empty_store_def attempt_states)
  moreover have "1 \<in> set (attempts (calls_at ?st 0))" "state_at ?st 1 = TRANSITION_STARTED"
    by (simp_all add: native_operation_defs empty_store_def attempt_states)
  ultimately show ?thesis
    using started_attempt_pending [of _ ?st 1 0] by simp
qed

end
