(* ===== verification/Input_Types.thy ===== *)
theory Input_Types
  imports Input_Layout Native_Operation "HOL-Library.Product_Lexorder"
begin

text \<open>
  The data of the reserved-input registry, \<^verbatim>\<open>reverie/src/reserved_input/registry.rs\<close>: native
  identities, Tool declarations, and the state behind the leaf lock. Identities are ordered as the
  derived \<^verbatim>\<open>Ord\<close> orders them, field by field. A diagnostic \<^verbatim>\<open>Arc<str>\<close> is a string, a
  \<^verbatim>\<open>BTreeSet\<close> a set, a field of a structure has the structure's name first where two structures
  share a field name.
\<close>

section \<open>Identities\<close>

datatype InputTaskId = InputTaskId (task_run: u64) (task_generation: u64) (task_tid: i32)
datatype RegionLifetime = RegionLifetime (region_run: u64) (region_generation: u64)
datatype FileTableLifetime = FileTableLifetime (files_run: u64) (files_generation: u64)
datatype ThreadGroupLifetime = ThreadGroupLifetime (group_run: u64) (group_generation: u64)
datatype PhysicalInjectionId = PhysicalInjectionId (physical_run: u64) (physical_id: u64)

definition task_key :: "InputTaskId \<Rightarrow> u64 \<times> u64 \<times> int" where
  "task_key t = (task_run t, task_generation t, task_tid t)"

lemma task_key_inj: "task_key a = task_key b \<Longrightarrow> a = b"
  by (cases a; cases b) (simp add: task_key_def)

instantiation InputTaskId :: linorder
begin

definition less_eq_InputTaskId :: "InputTaskId \<Rightarrow> InputTaskId \<Rightarrow> bool" where
  "less_eq_InputTaskId a b \<longleftrightarrow> task_key a \<le> task_key b"

definition less_InputTaskId :: "InputTaskId \<Rightarrow> InputTaskId \<Rightarrow> bool" where
  "less_InputTaskId a b \<longleftrightarrow> task_key a < task_key b"

instance
  by standard
    (auto simp: less_eq_InputTaskId_def less_InputTaskId_def intro: task_key_inj order_trans
      simp del: less_eq_prod_simp)

end

instantiation RegionLifetime :: linorder
begin

definition less_eq_RegionLifetime :: "RegionLifetime \<Rightarrow> RegionLifetime \<Rightarrow> bool" where
  "less_eq_RegionLifetime a b \<longleftrightarrow>
     (region_run a, region_generation a) \<le> (region_run b, region_generation b)"

definition less_RegionLifetime :: "RegionLifetime \<Rightarrow> RegionLifetime \<Rightarrow> bool" where
  "less_RegionLifetime a b \<longleftrightarrow>
     (region_run a, region_generation a) < (region_run b, region_generation b)"

instance
  by standard (auto simp: less_eq_RegionLifetime_def less_RegionLifetime_def RegionLifetime.expand)

end

instantiation FileTableLifetime :: linorder
begin

definition less_eq_FileTableLifetime :: "FileTableLifetime \<Rightarrow> FileTableLifetime \<Rightarrow> bool" where
  "less_eq_FileTableLifetime a b \<longleftrightarrow>
     (files_run a, files_generation a) \<le> (files_run b, files_generation b)"

definition less_FileTableLifetime :: "FileTableLifetime \<Rightarrow> FileTableLifetime \<Rightarrow> bool" where
  "less_FileTableLifetime a b \<longleftrightarrow>
     (files_run a, files_generation a) < (files_run b, files_generation b)"

instance
  by standard
    (auto simp: less_eq_FileTableLifetime_def less_FileTableLifetime_def FileTableLifetime.expand)

end

instantiation ThreadGroupLifetime :: linorder
begin

definition less_eq_ThreadGroupLifetime :: "ThreadGroupLifetime \<Rightarrow> ThreadGroupLifetime \<Rightarrow> bool" where
  "less_eq_ThreadGroupLifetime a b \<longleftrightarrow>
     (group_run a, group_generation a) \<le> (group_run b, group_generation b)"

definition less_ThreadGroupLifetime :: "ThreadGroupLifetime \<Rightarrow> ThreadGroupLifetime \<Rightarrow> bool" where
  "less_ThreadGroupLifetime a b \<longleftrightarrow>
     (group_run a, group_generation a) < (group_run b, group_generation b)"

instance
  by standard
    (auto simp: less_eq_ThreadGroupLifetime_def less_ThreadGroupLifetime_def
      ThreadGroupLifetime.expand)

end

instantiation PhysicalInjectionId :: linorder
begin

definition less_eq_PhysicalInjectionId :: "PhysicalInjectionId \<Rightarrow> PhysicalInjectionId \<Rightarrow> bool" where
  "less_eq_PhysicalInjectionId a b \<longleftrightarrow>
     (physical_run a, physical_id a) \<le> (physical_run b, physical_id b)"

definition less_PhysicalInjectionId :: "PhysicalInjectionId \<Rightarrow> PhysicalInjectionId \<Rightarrow> bool" where
  "less_PhysicalInjectionId a b \<longleftrightarrow>
     (physical_run a, physical_id a) < (physical_run b, physical_id b)"

instance
  by standard
    (auto simp: less_eq_PhysicalInjectionId_def less_PhysicalInjectionId_def
      PhysicalInjectionId.expand)

end

section \<open>Declarations\<close>

record InputTaskRegistration =
  reg_task :: InputTaskId
  native_tid :: i32
  native_pid :: i32
  tool_tid :: "i32 option"
  tool_pid :: "i32 option"
  reg_group :: ThreadGroupLifetime
  reg_parent :: "InputTaskId option"
  reg_region :: RegionLifetime
  reg_files :: FileTableLifetime

record InputFilesEvent =
  event_source :: InputTaskRegistration
  event_destination :: InputTaskRegistration
  event_shared :: "bool option"
  event_exec :: bool

datatype InputGrantKind = Ordinary | PendingVfork (pending: u64)

record InputOperationScope =
  scope_run :: u64
  scope_task :: InputTaskId
  scope_grant :: u64
  scope_operation :: u64

datatype InputTarget = Region RegionLifetime | UnknownTarget

datatype InputSpan = Range (span_address: u64) (span_length: u64) | UnknownSpan

datatype InputAccessDirection = Read | Write | ReadWrite | ForcedWrite

datatype InputAccessLifetime = Transient | Persistent

record InputAccess =
  target :: InputTarget
  span :: InputSpan
  direction :: InputAccessDirection
  lifetime :: InputAccessLifetime
  cause :: string

record InputAccessLease =
  lease_run :: u64
  lease_id :: u64

record InputExposure =
  exposure_target :: InputTarget
  exposure_cause :: string

record InputExpectedSharing =
  sharing_memory :: "bool option"
  sharing_files :: "bool option"
  may_create :: bool
  sharing_thread_group :: "bool option"

datatype InputCallInput = Registers | Immutable u64 "u8 list" | UnknownInput

record PhysicalInjectionDescription =
  number :: u64
  args :: "u64 list"
  input :: InputCallInput
  expected_sharing :: InputExpectedSharing
  transient :: "InputAccess list"
  prospective :: "InputExposure list"
  unknown_lifecycle :: "InputExposure option"

record PhysicalInjectionReceipt =
  receipt_run :: u64
  receipt_id :: PhysicalInjectionId

datatype PhysicalInjectionState =
  Prepared | Issued | RetainedBirth InputTaskId | ProvedNoChild | OutcomeUnknown

record PhysicalInjectionObservation =
  observed_id :: PhysicalInjectionId
  observed_state :: PhysicalInjectionState
  observed_image :: "ReservedInputImage option"

datatype InputTransactionPhase =
  Preparing | PreparedStopped | Initializing | Normalizing | Ready | Launched

record InputFreezeCohort =
  cohort_run :: u64
  cohort_id :: u64

section \<open>The state\<close>

record Task =
  registration :: InputTaskRegistration
  task_grant :: "(u64 \<times> InputGrantKind \<times> bool) option"
  frozen :: "u64 set"
  native_terminal :: bool
  native_effects_complete :: bool

record Region =
  layout :: "ReservedInputLayout option"
  exposures :: "InputExposure list"
  transaction :: "PhysicalInjectionId option"

record Access =
  access_task :: InputTaskId
  access_declaration :: InputAccess
  physical :: "PhysicalInjectionId option"
  access_operation :: "NativeOperationCompletion option"
  native_complete :: bool

record Injection =
  call_task :: InputTaskId
  call_operation :: u64
  call_grant :: u64
  description :: PhysicalInjectionDescription
  call_state :: PhysicalInjectionState
  phase :: "InputTransactionPhase option"
  call_image :: "ReservedInputImage option"
  verified_image :: "ReservedInputImage option"

record State =
  next_id :: u64
  tasks :: "(InputTaskId, Task) btree"
  by_tid :: "(i32, InputTaskId) btree"
  regions :: "(RegionLifetime, Region) btree"
  accesses :: "(u64, Access) btree"
  injections :: "(PhysicalInjectionId, Injection) btree"
  freezes :: "(u64, InputTaskId set) btree"
  global_exposures :: "InputExposure list"
  files_possibly_shared :: "(FileTableLifetime, bool) btree"
  groups_may_have_other_threads :: "(ThreadGroupLifetime, bool) btree"
  regions_may_have_other_processes :: "RegionLifetime set"
  frozen_groups :: "(ThreadGroupLifetime, u64 set) btree"
  fatal :: "string option"

type_synonym 'a input_op = "(State, InputUnavailable, 'a) operation"

definition default_state :: State where
  "default_state = \<lparr>next_id = 0, tasks = [], by_tid = [], regions = [], accesses = [], injections = [],
     freezes = [], global_exposures = [], files_possibly_shared = [],
     groups_may_have_other_threads = [], regions_may_have_other_processes = {},
     frozen_groups = [], fatal = None\<rparr>"

definition default_region :: Region where
  "default_region = \<lparr>layout = None, exposures = [], transaction = None\<rparr>"

end
