(* ===== verification/Input_Registry.thy ===== *)
theory Input_Registry
  imports Input_Types
begin

text \<open>
  The operations of \<^verbatim>\<open>ReservedInputControl\<close> that a Tool calls, each one a critical section of the
  registry's leaf lock. The control is its run number; a handle that carries a control carries
  that number. An index of a map that is not there is a panic, as in the code.
\<close>

section \<open>Helpers of the state\<close>

definition span_range :: "u64 \<Rightarrow> u64 \<Rightarrow> (InputUnavailable, InputSpan) outcome" where
  "span_range address len =
     (case checked_add address len of
        None \<Rightarrow> Err ''input-access-range'' | Some _ \<Rightarrow> Ok (Range address len))"

text \<open>
  The sum of the layout does not overflow for a layout that was validated, and no other layout is
  stored.
\<close>

fun span_overlaps :: "InputSpan \<Rightarrow> ReservedInputLayout \<Rightarrow> bool" where
  "span_overlaps UnknownSpan l \<longleftrightarrow> True"
| "span_overlaps (Range address len) l \<longleftrightarrow>
     len \<noteq> 0 \<and>
     (case checked_add address len of
        None \<Rightarrow> True
      | Some end \<Rightarrow> address < base l + page_bytes l \<and> end > base l)"

fun targets :: "InputTarget \<Rightarrow> RegionLifetime \<Rightarrow> bool" where
  "targets UnknownTarget r \<longleftrightarrow> True"
| "targets (Region i) r \<longleftrightarrow> i = r"

definition state_next :: "u64 input_op" where
  "state_next s =
     (case checked_add (next_id s) 1 of
        None \<Rightarrow> (Err ''input-generation-exhausted'', s)
      | Some n \<Rightarrow> (Ok n, s\<lparr>next_id := n\<rparr>))"

definition live :: "State \<Rightarrow> InputTaskId \<Rightarrow> (InputUnavailable, Task) outcome" where
  "live s task =
     (if fatal s \<noteq> None then Err ''input-run-terminal''
      else
        (case bt_get (tasks s) task of
           Some owner \<Rightarrow>
             if \<not> native_terminal owner \<and> \<not> native_effects_complete owner then Ok owner
             else Err ''input-task-not-live''
         | None \<Rightarrow> Err ''input-task-not-live''))"

definition region_conflict ::
    "State \<Rightarrow> InputAccess \<Rightarrow> RegionLifetime \<times> Region \<Rightarrow> (InputUnavailable, unit) outcome" where
  "region_conflict s d entry =
     (case entry of (region_id, region) \<Rightarrow>
        (case transaction region of
           None \<Rightarrow> Ok ()
         | Some i \<Rightarrow>
             (case bt_get (injections s) i of
                None \<Rightarrow> Panic
              | Some call \<Rightarrow>
                  if phase call \<noteq> Some Preparing
                     \<and> targets (target d) region_id
                     \<and> (case layout region of None \<Rightarrow> False | Some l \<Rightarrow> span_overlaps (span d) l)
                  then Err ''input-transaction-busy'' else Ok ())))"

definition validate_access :: "State \<Rightarrow> InputAccess \<Rightarrow> (InputUnavailable, unit) outcome" where
  "validate_access s d =
     (case (case span d of Range a n \<Rightarrow> span_range a n | UnknownSpan \<Rightarrow> Ok UnknownSpan) of
        Ok _ \<Rightarrow>
          if (case target d of Region r \<Rightarrow> bt_get (regions s) r = None | UnknownTarget \<Rightarrow> False)
          then Err ''input-target-identity''
          else check_all (region_conflict s d) (regions s)
      | Err e \<Rightarrow> Err e
      | Panic \<Rightarrow> Panic)"

section \<open>The run\<close>

text \<open>The counter of runs before and after; the previous value names the new run.\<close>

definition new_backend :: "u64 \<Rightarrow> (InputUnavailable, u64 \<times> State) outcome \<times> u64" where
  "new_backend next_run =
     (case checked_add next_run 1 of
        None \<Rightarrow> (Err ''input-run-generation-exhausted'', next_run)
      | Some n \<Rightarrow> (Ok (next_run, default_state), n))"

definition task_identity :: "State \<Rightarrow> i32 \<Rightarrow> InputTaskId option" where
  "task_identity s tid = bt_get (by_tid s) tid"

definition files_proven_unshared :: "State \<Rightarrow> InputTaskId \<Rightarrow> bool" where
  "files_proven_unshared s task \<longleftrightarrow>
     (case bt_get (tasks s) task of
        None \<Rightarrow> False
      | Some owner \<Rightarrow> bt_get (files_possibly_shared s) (reg_files (registration owner)) = Some False)"

record NativeSyscallAuthority =
  authority_registration :: InputTaskRegistration
  authority_grant :: "(u64 \<times> InputGrantKind) option"
  authority_files_unshared :: bool

definition native_syscall_authority ::
    "State \<Rightarrow> InputTaskId \<Rightarrow> (InputUnavailable, NativeSyscallAuthority) outcome" where
  "native_syscall_authority s task =
     (case live s task of
        Ok owner \<Rightarrow> Ok \<lparr>authority_registration = registration owner,
          authority_grant = map_option (\<lambda>(generation, kind, _). (generation, kind)) (task_grant owner),
          authority_files_unshared =
            (bt_get (files_possibly_shared s) (reg_files (registration owner)) = Some False)\<rparr>
      | Err e \<Rightarrow> Err e
      | Panic \<Rightarrow> Panic)"

definition control_registration :: "State \<Rightarrow> InputTaskId \<Rightarrow> InputTaskRegistration option" where
  "control_registration s task = map_option registration (bt_get (tasks s) task)"

definition control_native_terminal :: "State \<Rightarrow> InputTaskId \<Rightarrow> bool option" where
  "control_native_terminal s task = map_option native_terminal (bt_get (tasks s) task)"

definition control_layout :: "State \<Rightarrow> InputTaskId \<Rightarrow> ReservedInputLayout option" where
  "control_layout s task =
     (case bt_get (tasks s) task of
        None \<Rightarrow> None
      | Some owner \<Rightarrow>
          (case bt_get (regions s) (reg_region (registration owner)) of
             None \<Rightarrow> None | Some r \<Rightarrow> layout r))"

section \<open>Grants and operations\<close>

definition update_task :: "InputTaskId \<Rightarrow> (Task \<Rightarrow> Task) \<Rightarrow> State \<Rightarrow> State" where
  "update_task task f s = s\<lparr>tasks := bt_update task f (tasks s)\<rparr>"

definition backend_bind_tool_identity :: "InputTaskId \<Rightarrow> i32 \<Rightarrow> i32 \<Rightarrow> InputTaskRegistration input_op" where
  "backend_bind_tool_identity task tid pid s =
     try_ok (live s task) (\<lambda>owner s.
       let reg = registration owner in
       if (tool_tid reg \<noteq> None \<and> tool_tid reg \<noteq> Some tid)
          \<or> (tool_pid reg \<noteq> None \<and> tool_pid reg \<noteq> Some pid)
       then (Err ''input-tool-identity-conflict'', s)
       else
         let reg' = reg\<lparr>tool_tid := Some tid, tool_pid := Some pid\<rparr>
         in (Ok reg', update_task task (\<lambda>k. k\<lparr>registration := reg'\<rparr>) s)) s"

definition grant :: "InputTaskId \<Rightarrow> InputGrantKind \<Rightarrow> u64 input_op" where
  "grant task kind s =
     try_ok (live s task) (\<lambda>owner.
       if frozen owner \<noteq> {} then refuse ''input-task-frozen''
       else
         and_then state_next (\<lambda>generation s.
           (Ok generation,
            update_task task (\<lambda>k. k\<lparr>task_grant := Some (generation, kind, False)\<rparr>) s))) s"

definition invalidate_operation :: "InputTaskId \<Rightarrow> State \<Rightarrow> State" where
  "invalidate_operation task s = update_task task (\<lambda>k. k\<lparr>task_grant := None\<rparr>) s"

definition current_grant :: "State \<Rightarrow> InputTaskId \<Rightarrow> u64 option" where
  "current_grant s task =
     (case bt_get (tasks s) task of None \<Rightarrow> None | Some k \<Rightarrow> map_option fst (task_grant k))"

definition native_request_grant :: "State \<Rightarrow> InputTaskId \<Rightarrow> (InputUnavailable, u64) outcome" where
  "native_request_grant s task =
     (case live s task of
        Ok owner \<Rightarrow>
          if frozen owner \<noteq> {} then Err ''input-task-frozen''
          else ok_or (map_option fst (task_grant owner)) ''input-no-execution-grant''
      | Err e \<Rightarrow> Err e
      | Panic \<Rightarrow> Panic)"

definition begin_operation :: "u64 \<Rightarrow> InputTaskId \<Rightarrow> u64 \<Rightarrow> InputOperationScope input_op" where
  "begin_operation run task logical_operation s =
     try_ok (live s task) (\<lambda>owner.
       try_ok (ok_or (task_grant owner) ''input-no-execution-grant'') (\<lambda>(generation, kind, consumed) s.
         if consumed \<or> frozen owner \<noteq> {} then (Err ''input-grant-unavailable'', s)
         else if (case kind of PendingVfork p \<Rightarrow> p \<noteq> logical_operation | Ordinary \<Rightarrow> False)
         then (Err ''input-barrier-operation-mismatch'', s)
         else
           (Ok \<lparr>scope_run = run, scope_task = task, scope_grant = generation,
                scope_operation = logical_operation\<rparr>,
            update_task task (\<lambda>k. k\<lparr>task_grant := Some (generation, kind, True)\<rparr>) s))) s"

definition validate_scope ::
    "u64 \<Rightarrow> State \<Rightarrow> InputOperationScope \<Rightarrow> (InputUnavailable, unit) outcome" where
  "validate_scope run s scope =
     (if scope_run scope \<noteq> run then Err ''input-run-mismatch''
      else
        (case live s (scope_task scope) of
           Ok owner \<Rightarrow>
             if map_option fst (task_grant owner) \<noteq> Some (scope_grant scope) \<or> frozen owner \<noteq> {}
             then Err ''input-operation-stale'' else Ok ()
         | Err e \<Rightarrow> Err e
         | Panic \<Rightarrow> Panic))"

definition unsettled :: "PhysicalInjectionState \<Rightarrow> bool" where
  "unsettled st \<longleftrightarrow> st = Prepared \<or> st = Issued"

definition finish_operation :: "u64 \<Rightarrow> InputOperationScope \<Rightarrow> unit input_op" where
  "finish_operation run scope s =
     try_ok (validate_scope run s scope) (\<lambda>_ s.
       if list_ex (\<lambda>call. call_task call = scope_task scope
            \<and> call_operation call = scope_operation scope \<and> unsettled (call_state call))
            (bt_values (injections s))
       then (Err ''input-operation-unsettled'', s)
       else
         (case bt_get (tasks s) (scope_task scope) of
            None \<Rightarrow> (Panic, s)
          | Some owner \<Rightarrow>
              (case task_grant owner of
                 None \<Rightarrow> (Panic, s)
               | Some (generation, kind, _) \<Rightarrow>
                   (Ok (), update_task (scope_task scope)
                      (\<lambda>k. k\<lparr>task_grant := Some (generation, kind, False)\<rparr>) s)))) s"

section \<open>Accesses\<close>

definition insert_access :: "Access \<Rightarrow> u64 input_op" where
  "insert_access a = and_then state_next (\<lambda>i s. (Ok i, s\<lparr>accesses := bt_insert i a (accesses s)\<rparr>))"

definition acquire_access :: "u64 \<Rightarrow> InputTaskId \<Rightarrow> InputAccess \<Rightarrow> InputAccessLease input_op" where
  "acquire_access run task d s =
     try_ok (live s task) (\<lambda>_ s.
       try_ok (validate_access s d) (\<lambda>_.
         and_then (insert_access \<lparr>access_task = task, access_declaration = d, physical = None,
             access_operation = None, native_complete = False\<rparr>)
           (\<lambda>i s. (Ok \<lparr>lease_run = run, lease_id = i\<rparr>, s))) s) s"

definition update_access :: "u64 \<Rightarrow> (Access \<Rightarrow> Access) \<Rightarrow> State \<Rightarrow> State" where
  "update_access i f s = s\<lparr>accesses := bt_update i f (accesses s)\<rparr>"

definition attach_access ::
    "u64 \<Rightarrow> InputAccessLease \<Rightarrow> PhysicalInjectionReceipt \<Rightarrow> unit input_op" where
  "attach_access run lease receipt s =
     (if lease_run lease \<noteq> run \<or> physical_run (receipt_id receipt) \<noteq> run then
        (Err ''input-run-mismatch'', s)
      else
        try_ok (ok_or (bt_get (injections s) (receipt_id receipt)) ''input-call-missing'') (\<lambda>call s.
          try_ok (ok_or (bt_get (accesses s) (lease_id lease)) ''input-access-missing'') (\<lambda>access s.
            if access_task access \<noteq> call_task call \<or> physical access \<noteq> None
               \<or> access_operation access \<noteq> None
            then (Err ''input-access-binding'', s)
            else (Ok (), update_access (lease_id lease)
              (\<lambda>a. a\<lparr>physical := Some (receipt_id receipt)\<rparr>) s)) s) s)"

definition complete_access_after_return :: "u64 \<Rightarrow> InputAccessLease \<Rightarrow> InputTaskId \<Rightarrow> unit input_op" where
  "complete_access_after_return run lease task s =
     (if lease_run lease \<noteq> run then (Err ''input-run-mismatch'', s)
      else
        try_ok (ok_or (bt_get (accesses s) (lease_id lease)) ''input-access-missing'') (\<lambda>access s.
          if access_task access \<noteq> task \<or> physical access \<noteq> None \<or> access_operation access \<noteq> None
          then (Err ''input-access-binding'', s)
          else (Ok (), update_access (lease_id lease) (\<lambda>a. a\<lparr>native_complete := True\<rparr>) s)) s)"

definition bind_access_completion ::
    "u64 \<Rightarrow> InputAccessLease \<Rightarrow> InputTaskId \<Rightarrow> NativeOperationCompletion \<Rightarrow> unit input_op" where
  "bind_access_completion run lease task proof s =
     (if lease_run lease \<noteq> run then (Err ''input-run-mismatch'', s)
      else
        try_ok (ok_or (bt_get (accesses s) (lease_id lease)) ''input-access-missing'') (\<lambda>access s.
          if access_task access \<noteq> task \<or> physical access \<noteq> None then (Err ''input-access-binding'', s)
          else if (case access_operation access of
                     None \<Rightarrow> False | Some bound \<Rightarrow> \<not> same_operation bound proof)
          then (Err ''input-operation-binding'', s)
          else (Ok (), update_access (lease_id lease)
            (\<lambda>a. a\<lparr>access_operation := Some proof\<rparr>) s)) s)"

definition bind_access_operation ::
    "u64 \<Rightarrow> InputAccessLease \<Rightarrow> InputTaskId \<Rightarrow> ('o, 'p) NativeOperation \<Rightarrow> unit input_op" where
  "bind_access_operation run lease task operation =
     bind_access_completion run lease task (completion operation)"

definition complete_access_after_completion ::
    "u64 \<Rightarrow> op_store \<Rightarrow> InputAccessLease \<Rightarrow> InputTaskId \<Rightarrow> NativeOperationCompletion \<Rightarrow> unit input_op" where
  "complete_access_after_completion run st lease task proof s =
     (if lease_run lease \<noteq> run then (Err ''input-run-mismatch'', s)
      else if \<not> effects_complete st proof then (Err ''input-native-operation-unsettled'', s)
      else
        try_ok (ok_or (bt_get (accesses s) (lease_id lease)) ''input-access-missing'') (\<lambda>access s.
          if access_task access \<noteq> task \<or> physical access \<noteq> None
             \<or> \<not> (case access_operation access of
                     None \<Rightarrow> False | Some bound \<Rightarrow> same_operation bound proof)
          then (Err ''input-operation-binding'', s)
          else (Ok (), update_access (lease_id lease) (\<lambda>a. a\<lparr>native_complete := True\<rparr>) s)) s)"

definition complete_access_after_operation ::
    "u64 \<Rightarrow> op_store \<Rightarrow> InputAccessLease \<Rightarrow> InputTaskId \<Rightarrow> ('o, 'p) NativeOperation \<Rightarrow> unit input_op" where
  "complete_access_after_operation run st lease task operation =
     complete_access_after_completion run st lease task (completion operation)"

definition readmit_access :: "u64 \<Rightarrow> InputAccessLease \<Rightarrow> InputTaskId \<Rightarrow> u64 \<Rightarrow> unit input_op" where
  "readmit_access run lease task g s =
     (if lease_run lease \<noteq> run then (Err ''input-run-mismatch'', s)
      else
        try_ok (live s task) (\<lambda>owner s.
          if frozen owner \<noteq> {} \<or> map_option fst (task_grant owner) \<noteq> Some g
          then (Err ''input-readmission-mismatch'', s)
          else
            try_ok (ok_or (bt_get (accesses s) (lease_id lease)) ''input-access-missing'') (\<lambda>access s.
              if access_task access \<noteq> task \<or> \<not> native_complete access
              then (Err ''input-native-access-unsettled'', s)
              else if lifetime (access_declaration access) = Transient
              then (Ok (), s\<lparr>accesses := bt_remove (lease_id lease) (accesses s)\<rparr>)
              else (Ok (), s)) s) s)"

section \<open>Exposures\<close>

definition add_exposure_locked :: "InputExposure \<Rightarrow> unit input_op" where
  "add_exposure_locked e s =
     (case exposure_target e of
        UnknownTarget \<Rightarrow> (Ok (), s\<lparr>global_exposures := global_exposures s @ [e]\<rparr>)
      | Region r \<Rightarrow>
          (case bt_get (regions s) r of
             None \<Rightarrow> (Err ''input-target-identity'', s)
           | Some _ \<Rightarrow>
               (Ok (), s\<lparr>regions :=
                  bt_update r (\<lambda>region. region\<lparr>exposures := exposures region @ [e]\<rparr>) (regions s)\<rparr>)))"

definition add_exposure :: "InputExposure \<Rightarrow> unit input_op" where
  "add_exposure e = add_exposure_locked e"

definition backend_expose_before_continuation :: "InputTaskId \<Rightarrow> InputExposure \<Rightarrow> unit input_op" where
  "backend_expose_before_continuation task e s =
     try_ok (live s task) (\<lambda>_ s.
       try_ok (validate_access s \<lparr>target = exposure_target e, span = UnknownSpan,
           direction = ReadWrite, lifetime = Persistent, cause = exposure_cause e\<rparr>)
         (\<lambda>_. add_exposure_locked e) s) s"

section \<open>Physical calls\<close>

definition attach_declared_accesses ::
    "PhysicalInjectionId \<Rightarrow> InputTaskId \<Rightarrow> PhysicalInjectionDescription \<Rightarrow> unit input_op" where
  "attach_declared_accesses phys task d =
     and_then
       (\<lambda>s. if may_create (expected_sharing d) \<and> sharing_files (expected_sharing d) \<noteq> Some False then
              (case bt_get (tasks s) task of
                 None \<Rightarrow> (Panic, s)
               | Some owner \<Rightarrow>
                   (Ok (), s\<lparr>files_possibly_shared :=
                      bt_insert (reg_files (registration owner)) True (files_possibly_shared s)\<rparr>))
            else (Ok (), s))
       (\<lambda>_ s. try_ok
         (check_all
           (\<lambda>access. if lifetime access \<noteq> Transient then Err ''input-call-access-not-transient''
                     else validate_access s access) (transient d))
         (\<lambda>_. for_each
           (\<lambda>access. and_then (insert_access \<lparr>access_task = task, access_declaration = access,
               physical = Some phys, access_operation = None, native_complete = False\<rparr>)
             (\<lambda>_ s. (Ok (), s))) (transient d)) s)"

definition new_injection ::
    "InputTaskId \<Rightarrow> u64 \<Rightarrow> u64 \<Rightarrow> PhysicalInjectionDescription \<Rightarrow> Injection" where
  "new_injection task operation g d = \<lparr>call_task = task, call_operation = operation, call_grant = g,
     description = d, call_state = Prepared, phase = None, call_image = None, verified_image = None\<rparr>"

definition register_injection ::
    "u64 \<Rightarrow> InputTaskId \<Rightarrow> u64 \<Rightarrow> u64 \<Rightarrow> PhysicalInjectionDescription \<Rightarrow>
     PhysicalInjectionReceipt input_op" where
  "register_injection run task operation g d =
     and_then state_next (\<lambda>n.
       let i = PhysicalInjectionId run n in
       and_then (attach_declared_accesses i task d) (\<lambda>_ s.
         (Ok \<lparr>receipt_run = run, receipt_id = i\<rparr>,
          s\<lparr>injections := bt_insert i (new_injection task operation g d) (injections s)\<rparr>)))"

definition prepare_injection ::
    "u64 \<Rightarrow> InputOperationScope \<Rightarrow> PhysicalInjectionDescription \<Rightarrow> PhysicalInjectionReceipt input_op" where
  "prepare_injection run scope d s =
     try_ok (validate_scope run s scope) (\<lambda>_.
       register_injection run (scope_task scope) (scope_operation scope) (scope_grant scope) d) s"

definition prepare_observed_injection ::
    "u64 \<Rightarrow> InputTaskId \<Rightarrow> u64 \<Rightarrow> PhysicalInjectionDescription \<Rightarrow> PhysicalInjectionReceipt input_op" where
  "prepare_observed_injection run task logical_operation d s =
     try_ok (live s task) (\<lambda>owner.
       try_ok (ok_or (task_grant owner) ''input-no-execution-grant'') (\<lambda>(g, _, _).
         if frozen owner \<noteq> {} then refuse ''input-task-frozen''
         else register_injection run task logical_operation g d)) s"

definition readmit_injection :: "PhysicalInjectionId \<Rightarrow> InputTaskId \<Rightarrow> u64 \<Rightarrow> unit input_op" where
  "readmit_injection i task g s =
     try_ok (live s task) (\<lambda>owner s.
       if frozen owner \<noteq> {} \<or> map_option fst (task_grant owner) \<noteq> Some g
       then (Err ''input-readmission-mismatch'', s)
       else
         try_ok (ok_or (bt_get (injections s) i) ''input-call-missing'') (\<lambda>call s.
           if call_task call \<noteq> task \<or> unsettled (call_state call)
              \<or> list_ex (\<lambda>a. physical a = Some i \<and> \<not> native_complete a) (bt_values (accesses s))
           then (Err ''input-native-access-unsettled'', s)
           else
             (Ok (), s\<lparr>accesses := bt_retain (\<lambda>a. physical a \<noteq> Some i
                \<or> lifetime (access_declaration a) = Persistent) (accesses s)\<rparr>)) s) s"

definition injection_observation ::
    "State \<Rightarrow> PhysicalInjectionId \<Rightarrow> PhysicalInjectionObservation option" where
  "injection_observation s i =
     map_option (\<lambda>call. \<lparr>observed_id = i, observed_state = call_state call,
       observed_image = verified_image call\<rparr>) (bt_get (injections s) i)"

section \<open>Freezes\<close>

definition freeze_locked :: "u64 \<Rightarrow> InputTaskId set \<Rightarrow> InputFreezeCohort input_op" where
  "freeze_locked run members s =
     (if (\<exists>t \<in> members. task_run t \<noteq> run \<or> bt_get (tasks s) t = None) then
        (Err ''input-task-not-owned'', s)
      else
        and_then state_next (\<lambda>i s.
          (Ok \<lparr>cohort_run = run, cohort_id = i\<rparr>,
           s\<lparr>tasks := bt_map_on (\<lambda>t. t \<in> members)
                (\<lambda>k. k\<lparr>frozen := insert i (frozen k), task_grant := None\<rparr>) (tasks s),
             freezes := bt_insert i members (freezes s)\<rparr>)) s)"

definition freeze_tasks :: "u64 \<Rightarrow> InputTaskId list \<Rightarrow> InputFreezeCohort input_op" where
  "freeze_tasks run ts = freeze_locked run (set ts)"

definition group_members :: "State \<Rightarrow> ThreadGroupLifetime \<Rightarrow> bool \<Rightarrow> InputTaskId \<Rightarrow> InputTaskId set" where
  "group_members s grp include_caller task =
     fst ` set (filter (\<lambda>(i, owner). reg_group (registration owner) = grp
       \<and> (include_caller \<or> i \<noteq> task)) (tasks s))"

definition freeze_group :: "u64 \<Rightarrow> InputTaskId \<Rightarrow> bool \<Rightarrow> InputFreezeCohort input_op" where
  "freeze_group run task include_caller s =
     try_ok (ok_or (bt_get (tasks s) task) ''input-task-not-owned'') (\<lambda>owner s.
       let grp = reg_group (registration owner) in
       and_then (freeze_locked run (group_members s grp include_caller task)) (\<lambda>cohort s.
         (Ok cohort,
          s\<lparr>frozen_groups := bt_insert grp
             (insert (cohort_id cohort)
               (case bt_get (frozen_groups s) grp of None \<Rightarrow> {} | Some ids \<Rightarrow> ids))
             (frozen_groups s)\<rparr>)) s) s"

definition cohort_members ::
    "u64 \<Rightarrow> State \<Rightarrow> InputFreezeCohort \<Rightarrow> (InputUnavailable, InputTaskId list) outcome" where
  "cohort_members run s cohort =
     (if cohort_run cohort \<noteq> run then Err ''input-run-mismatch''
      else ok_or (map_option sorted_list_of_set (bt_get (freezes s) (cohort_id cohort)))
             ''input-freeze-missing'')"

text \<open>The end of a cohort: its intent goes, its members lose this freeze.\<close>

definition remove_freeze :: "u64 \<Rightarrow> InputTaskId set \<Rightarrow> unit input_op" where
  "remove_freeze i members s =
     (if (\<exists>t \<in> members. bt_get (tasks s) t = None) then (Panic, s)
      else
        (Ok (), s\<lparr>tasks := bt_map_on (\<lambda>t. t \<in> members) (\<lambda>k. k\<lparr>frozen := frozen k - {i}\<rparr>) (tasks s),
           freezes := bt_remove i (freezes s),
           frozen_groups := bt_map (\<lambda>ids. ids - {i}) (frozen_groups s)\<rparr>))"

definition retire_accesses :: "InputTaskId set \<Rightarrow> State \<Rightarrow> State" where
  "retire_accesses members s =
     s\<lparr>accesses := bt_retain (\<lambda>a. access_task a \<notin> members
        \<or> lifetime (access_declaration a) = Persistent) (accesses s)\<rparr>"

definition has_unsettled_access :: "State \<Rightarrow> InputTaskId set \<Rightarrow> bool" where
  "has_unsettled_access s members \<longleftrightarrow>
     list_ex (\<lambda>a. access_task a \<in> members \<and> \<not> native_complete a) (bt_values (accesses s))"

text \<open>Any of the members, in order, whose native effects are not complete.\<close>

definition check_members ::
    "State \<Rightarrow> (Task \<Rightarrow> bool) \<Rightarrow> InputUnavailable \<Rightarrow> InputTaskId set \<Rightarrow> (InputUnavailable, unit) outcome" where
  "check_members s bad e members =
     check_all (\<lambda>t. case bt_get (tasks s) t of None \<Rightarrow> Panic | Some k \<Rightarrow> if bad k then Err e else Ok ())
       (sorted_list_of_set members)"

definition completed_cohorts :: "State \<Rightarrow> InputTaskId set \<Rightarrow> u64 list" where
  "completed_cohorts s fenced =
     map fst (filter (\<lambda>(i, members). members \<noteq> {} \<and> members \<subseteq> fenced
       \<and> (\<forall>t \<in> members. case bt_get (tasks s) t of
            Some k \<Rightarrow> native_effects_complete k | None \<Rightarrow> False)
       \<and> \<not> has_unsettled_access s members) (freezes s))"

definition settle_cohort :: "u64 \<Rightarrow> unit input_op" where
  "settle_cohort i s =
     (case bt_get (freezes s) i of
        None \<Rightarrow> (Panic, s)
      | Some members \<Rightarrow>
          and_then (remove_freeze i members) (\<lambda>_ s. (Ok (), retire_accesses members s)) s)"

definition settle_fenced_tasks :: "u64 \<Rightarrow> InputTaskId list \<Rightarrow> unit input_op" where
  "settle_fenced_tasks run ts s =
     (let fenced = set ts in
      if (\<exists>t \<in> fenced. task_run t \<noteq> run \<or> bt_get (tasks s) t = None) then
        (Err ''input-task-not-owned'', s)
      else
        try_ok (check_members s (\<lambda>k. \<not> native_effects_complete k) ''input-cohort-native-unsettled'' fenced)
          (\<lambda>_ s. if has_unsettled_access s fenced then (Err ''input-cohort-native-unsettled'', s)
             else for_each settle_cohort (completed_cohorts s fenced) s) s)"

definition cancel_freeze_before_effect :: "u64 \<Rightarrow> InputFreezeCohort \<Rightarrow> unit input_op" where
  "cancel_freeze_before_effect run cohort s =
     (if cohort_run cohort \<noteq> run then (Err ''input-run-mismatch'', s)
      else
        try_ok (ok_or (bt_get (freezes s) (cohort_id cohort)) ''input-freeze-missing'') (\<lambda>members s.
          try_ok (check_members s (\<lambda>k. native_effects_complete k \<or> native_terminal k)
              ''input-retirement-has-native-effect'' members)
            (\<lambda>_. remove_freeze (cohort_id cohort) members) s) s)"

definition settle_frozen_cohort :: "u64 \<Rightarrow> InputFreezeCohort \<Rightarrow> unit input_op" where
  "settle_frozen_cohort run cohort s =
     (if cohort_run cohort \<noteq> run then (Err ''input-run-mismatch'', s)
      else
        try_ok (ok_or (bt_get (freezes s) (cohort_id cohort)) ''input-freeze-missing'') (\<lambda>members s.
          try_ok (check_members s (\<lambda>k. \<not> native_effects_complete k)
              ''input-cohort-native-unsettled'' members)
            (\<lambda>_ s. if has_unsettled_access s members then (Err ''input-cohort-native-unsettled'', s)
               else and_then (remove_freeze (cohort_id cohort) members)
                 (\<lambda>_ s. (Ok (), retire_accesses members s)) s) s) s)"

definition failure :: "State \<Rightarrow> string option" where
  "failure s = fatal s"

end
