(* ===== verification/Input_Backend.thy ===== *)
theory Input_Backend
  imports Input_Registry
begin

text \<open>
  The operations of \<^verbatim>\<open>ReservedInputControl\<close> that the backend calls: birth, exec and death of
  native tasks, the page transaction of a physical call, and the settlement of its outcome. The
  two observers are arguments: the exit observer answers a question about a task, the
  descriptor-table observer is an operation that runs after the edge was published.
\<close>

section \<open>Outcomes of physical calls\<close>

definition update_injection :: "PhysicalInjectionId \<Rightarrow> (Injection \<Rightarrow> Injection) \<Rightarrow> State \<Rightarrow> State" where
  "update_injection i f s = s\<lparr>injections := bt_update i f (injections s)\<rparr>"

definition update_region :: "RegionLifetime \<Rightarrow> (Region \<Rightarrow> Region) \<Rightarrow> State \<Rightarrow> State" where
  "update_region r f s = s\<lparr>regions := bt_update r f (regions s)\<rparr>"

definition complete_accesses :: "(Access \<Rightarrow> bool) \<Rightarrow> State \<Rightarrow> State" where
  "complete_accesses P s =
     s\<lparr>accesses := bt_map (\<lambda>a. if P a then a\<lparr>native_complete := True\<rparr> else a) (accesses s)\<rparr>"

definition finish_locked :: "PhysicalInjectionId \<Rightarrow> PhysicalInjectionState \<Rightarrow> unit input_op" where
  "finish_locked i result s =
     try_ok (ok_or (bt_get (injections s) i) ''input-call-missing'') (\<lambda>call.
       try_ok (unwrap (bt_get (tasks s) (call_task call))) (\<lambda>owner s.
         let r = reg_region (registration owner);
             s1 = update_injection i (\<lambda>c. c\<lparr>call_state := result, phase := None\<rparr>) s
         in try_ok (unwrap (bt_get (regions s1) r)) (\<lambda>region s1.
              let s2 = (if transaction region = Some i
                        then update_region r (\<lambda>g. g\<lparr>transaction := None\<rparr>) s1 else s1)
              in (Ok (), complete_accesses (\<lambda>a. physical a = Some i) s2)) s1)) s"

definition page_touched :: "InputTransactionPhase option \<Rightarrow> bool" where
  "page_touched p \<longleftrightarrow> p \<in> {Some Initializing, Some Normalizing, Some Ready, Some Launched}"

definition unfinished_calls :: "State \<Rightarrow> InputTaskId \<Rightarrow> PhysicalInjectionId list" where
  "unfinished_calls s task =
     map fst (filter (\<lambda>(i, call). call_task call = task \<and> unsettled (call_state call)) (injections s))"

definition retain_failure :: "string \<Rightarrow> State \<Rightarrow> State" where
  "retain_failure reason s = (if fatal s = None then s\<lparr>fatal := Some reason\<rparr> else s)"

definition finish_unknown :: "PhysicalInjectionId \<Rightarrow> Injection \<Rightarrow> unit input_op" where
  "finish_unknown i call =
     (case unknown_lifecycle (description call) of
        Some e \<Rightarrow> and_then (add_exposure_locked e) (\<lambda>_. finish_locked i OutcomeUnknown)
      | None \<Rightarrow> finish_locked i OutcomeUnknown)"

definition gate_call :: "PhysicalInjectionId \<Rightarrow> unit input_op" where
  "gate_call i s =
     try_ok (unwrap (bt_get (injections s) i)) (\<lambda>call s.
       if page_touched (phase call) then
         (Err ''input-terminal-before-settlement'',
          retain_failure ''input-terminal-before-settlement'' s)
       else if call_state call = Issued then finish_unknown i call s
       else finish_locked i ProvedNoChild s) s"

definition terminal_gate_locked :: "InputTaskId \<Rightarrow> unit input_op" where
  "terminal_gate_locked task s = for_each gate_call (unfinished_calls s task) s"

definition effects_complete_locked :: "InputTaskId \<Rightarrow> unit input_op" where
  "effects_complete_locked task =
     and_then (terminal_gate_locked task) (\<lambda>_ s.
       try_ok (ok_or (bt_get (tasks s) task) ''input-task-not-owned'') (\<lambda>_ s.
         (Ok (), complete_accesses (\<lambda>a. access_task a = task)
           (update_task task (\<lambda>k. k\<lparr>native_effects_complete := True, task_grant := None\<rparr>) s))) s)"

definition cancel_call :: "PhysicalInjectionId \<Rightarrow> unit input_op" where
  "cancel_call i s =
     try_ok (unwrap (bt_get (injections s) i)) (\<lambda>call s.
       if page_touched (phase call) then
         (Err ''input-terminal-before-settlement'',
          retain_failure ''input-terminal-before-settlement'' s)
       else if call_state call = Issued then finish_unknown i call s
       else (Ok (), s)) s"

definition backend_cancel_injections :: "InputTaskId \<Rightarrow> unit input_op" where
  "backend_cancel_injections task s =
     try_ok (ok_or (bt_get (tasks s) task) ''input-task-not-owned'') (\<lambda>_ s.
       let s1 = update_task task (\<lambda>k. k\<lparr>task_grant := None\<rparr>) s
       in for_each cancel_call (unfinished_calls s1 task) s1) s"

definition forget_tid :: "InputTaskId \<Rightarrow> State \<Rightarrow> State" where
  "forget_tid task s =
     (if bt_get (by_tid s) (task_tid task) = Some task
      then s\<lparr>by_tid := bt_remove (task_tid task) (by_tid s)\<rparr> else s)"

definition backend_terminal :: "InputTaskId \<Rightarrow> unit input_op" where
  "backend_terminal task s =
     try_ok (ok_or (bt_get (tasks s) task) ''input-task-not-owned'') (\<lambda>_ s.
       and_then (effects_complete_locked task)
         (\<lambda>_ s. (Ok (), complete_accesses (\<lambda>a. access_task a = task) s))
         (forget_tid task
           (update_task task (\<lambda>k. k\<lparr>native_terminal := True, task_grant := None\<rparr>) s))) s"

definition backend_fail :: "string \<Rightarrow> State \<Rightarrow> State" where
  "backend_fail reason s = retain_failure reason s"

text \<open>
  The first critical section of \<^verbatim>\<open>observe_exit_effects\<close> and the whole operation; the observer runs
  between the two sections.
\<close>

definition exit_effects_known :: "InputTaskId \<Rightarrow> bool input_op" where
  "exit_effects_known task s =
     try_ok (ok_or (bt_get (tasks s) task) ''input-task-not-owned'') (\<lambda>owner s.
       if native_effects_complete owner then (Ok True, s)
       else if native_terminal owner then
         and_then (effects_complete_locked task) (\<lambda>_ s. (Ok True, s)) s
       else (Ok False, s)) s"

definition observe_exit_effects ::
    "(InputTaskId \<Rightarrow> (InputUnavailable, bool) outcome) option \<Rightarrow> InputTaskId \<Rightarrow> bool input_op" where
  "observe_exit_effects native_exit_observer task =
     and_then (exit_effects_known task) (\<lambda>known.
       if known then (\<lambda>s. (Ok True, s))
       else
         try_ok (ok_or native_exit_observer ''input-exit-observer-unavailable'') (\<lambda>observer.
           try_ok (observer task) (\<lambda>complete.
             if \<not> complete then (\<lambda>s. (Ok False, s))
             else and_then (effects_complete_locked task) (\<lambda>_ s. (Ok True, s)))))"

section \<open>Births\<close>

definition new_task :: "InputTaskRegistration \<Rightarrow> u64 set \<Rightarrow> Task" where
  "new_task reg ids = \<lparr>registration = reg, task_grant = None, frozen = ids,
     native_terminal = False, native_effects_complete = False\<rparr>"

definition or_insert :: "'k::linorder \<Rightarrow> 'v \<Rightarrow> ('k, 'v) btree \<Rightarrow> ('k, 'v) btree" where
  "or_insert k v m = (case bt_get m k of None \<Rightarrow> bt_insert k v m | Some _ \<Rightarrow> m)"

text \<open>A task is published under its number; every freeze it inherits gets it as a member.\<close>

definition publish_task :: "InputTaskRegistration \<Rightarrow> u64 set \<Rightarrow> unit input_op" where
  "publish_task reg ids s =
     (let task = reg_task reg;
          s1 = s\<lparr>by_tid := bt_insert (task_tid task) task (by_tid s)\<rparr>
      in if (\<exists>i \<in> ids. bt_get (freezes s1) i = None) then (Panic, s1)
         else (Ok (), s1\<lparr>freezes := bt_map_on (\<lambda>i. i \<in> ids) (insert task) (freezes s1),
                 tasks := bt_insert task (new_task reg ids) (tasks s1)\<rparr>))"

definition backend_register_root :: "u64 \<Rightarrow> i32 \<Rightarrow> i32 \<Rightarrow> InputTaskRegistration input_op" where
  "backend_register_root run tid pid s =
     (if bt_get (by_tid s) tid \<noteq> None then (Err ''input-task-already-owned'', s)
      else
        and_then state_next (\<lambda>g1.
        and_then state_next (\<lambda>g2.
        and_then state_next (\<lambda>g3.
        and_then state_next (\<lambda>g4.
          let reg = \<lparr>reg_task = InputTaskId run g1 tid, native_tid = tid, native_pid = pid,
                tool_tid = None, tool_pid = None, reg_group = ThreadGroupLifetime run g4,
                reg_parent = None, reg_region = RegionLifetime run g2,
                reg_files = FileTableLifetime run g3\<rparr>
          in
          and_then (\<lambda>s. (Ok (), s\<lparr>regions := bt_insert (reg_region reg) default_region (regions s),
                files_possibly_shared := bt_insert (reg_files reg) False (files_possibly_shared s),
                groups_may_have_other_threads :=
                  or_insert (reg_group reg) False (groups_may_have_other_threads s)\<rparr>)) (\<lambda>_.
          and_then (publish_task reg {}) (\<lambda>_ s. (Ok reg, s))))))) s)"

definition child_region :: "u64 \<Rightarrow> RegionLifetime \<Rightarrow> bool option \<Rightarrow> RegionLifetime input_op" where
  "child_region run parent_region memory_shared =
     (if memory_shared = Some False then
        and_then state_next (\<lambda>g s.
          try_ok (unwrap (bt_get (regions s) parent_region)) (\<lambda>pr s.
            let r = RegionLifetime run g;
                copied = pr\<lparr>transaction := None,
                  exposures := map (\<lambda>e. e\<lparr>exposure_target := Region r\<rparr>) (exposures pr)\<rparr>
            in (Ok r, s\<lparr>regions := bt_insert r copied (regions s)\<rparr>)) s)
      else (\<lambda>s. (Ok parent_region, s)))"

definition child_files :: "u64 \<Rightarrow> FileTableLifetime \<Rightarrow> bool option \<Rightarrow> FileTableLifetime input_op" where
  "child_files run parent_files files_shared =
     and_then
       (if files_shared = Some False
        then and_then state_next (\<lambda>g s. (Ok (FileTableLifetime run g), s))
        else (\<lambda>s. (Ok parent_files, s)))
       (\<lambda>fs s. (Ok fs, s\<lparr>files_possibly_shared :=
          bt_insert fs (files_shared \<noteq> Some False) (files_possibly_shared s)\<rparr>))"

definition child_group ::
    "u64 \<Rightarrow> InputTaskRegistration \<Rightarrow> i32 \<Rightarrow> ThreadGroupLifetime input_op" where
  "child_group run preg pid =
     (if pid = native_pid preg then (\<lambda>s. (Ok (reg_group preg), s))
      else and_then state_next (\<lambda>g s. (Ok (ThreadGroupLifetime run g), s)))"

definition note_child_sharing ::
    "InputTaskRegistration \<Rightarrow> i32 \<Rightarrow> ThreadGroupLifetime \<Rightarrow> RegionLifetime \<Rightarrow> bool option \<Rightarrow> unit input_op" where
  "note_child_sharing preg pid grp r memory_shared s =
     (let s1 = s\<lparr>groups_may_have_other_threads :=
                or_insert grp False (groups_may_have_other_threads s)\<rparr>;
          s2 = (if pid = native_pid preg then
                  s1\<lparr>groups_may_have_other_threads :=
                     bt_insert grp True (groups_may_have_other_threads s1)\<rparr>
                else if memory_shared \<noteq> Some False then
                  s1\<lparr>regions_may_have_other_processes :=
                     insert r (regions_may_have_other_processes s1)\<rparr>
                else s1)
      in if memory_shared = None then
           try_ok (unwrap (bt_get (regions s2) r)) (\<lambda>_ s.
             (Ok (), update_region r (\<lambda>region. region\<lparr>exposures := exposures region @
                [\<lparr>exposure_target = Region r,
                  exposure_cause = ''input-native-memory-identity-unavailable''\<rparr>]\<rparr>) s)) s2
         else (Ok (), s2))"

type_synonym files_observer = "(InputFilesEvent \<Rightarrow> unit input_op) option"

definition observe_files :: "files_observer \<Rightarrow> InputFilesEvent \<Rightarrow> unit input_op" where
  "observe_files obs event s =
     (case obs of None \<Rightarrow> (Ok (), s) | Some f \<Rightarrow> f event s)"

definition group_freezes :: "State \<Rightarrow> ThreadGroupLifetime \<Rightarrow> u64 set" where
  "group_freezes s grp = (case bt_get (frozen_groups s) grp of None \<Rightarrow> {} | Some ids \<Rightarrow> ids)"

definition retain_newborn ::
    "u64 \<Rightarrow> files_observer \<Rightarrow> InputTaskId \<Rightarrow> Task \<Rightarrow> i32 \<Rightarrow> i32 \<Rightarrow> bool option \<Rightarrow> bool option \<Rightarrow>
     InputTaskRegistration input_op" where
  "retain_newborn run obs par parent_state tid pid memory_shared files_shared =
     (let preg = registration parent_state in
      and_then (child_region run (reg_region preg) memory_shared) (\<lambda>r.
      and_then (child_files run (reg_files preg) files_shared) (\<lambda>fs.
      and_then state_next (\<lambda>g.
      and_then (child_group run preg pid) (\<lambda>grp.
        let reg = \<lparr>reg_task = InputTaskId run g tid, native_tid = tid, native_pid = pid,
              tool_tid = None, tool_pid = None, reg_group = grp, reg_parent = Some par,
              reg_region = r, reg_files = fs\<rparr>
        in
        and_then (note_child_sharing preg pid grp r memory_shared) (\<lambda>_.
        and_then (\<lambda>s. publish_task reg (frozen parent_state \<union> group_freezes s grp) s) (\<lambda>_.
        and_then (observe_files obs \<lparr>event_source = preg, event_destination = reg,
            event_shared = files_shared, event_exec = False\<rparr>) (\<lambda>_ s. (Ok reg, s)))))))))"

definition backend_register_child ::
    "u64 \<Rightarrow> files_observer \<Rightarrow> InputTaskId \<Rightarrow> i32 \<Rightarrow> i32 \<Rightarrow> bool option \<Rightarrow> bool option \<Rightarrow>
     InputTaskRegistration input_op" where
  "backend_register_child run obs par tid pid memory_shared files_shared s =
     try_ok (live s par) (\<lambda>parent_state s.
       case bt_get (by_tid s) tid of
         Some existing \<Rightarrow>
           try_ok (unwrap (bt_get (tasks s) existing)) (\<lambda>k s.
             if reg_parent (registration k) = Some par \<and> native_pid (registration k) = pid
             then (Ok (registration k), s)
             else (Err ''input-child-owner-conflict'', s)) s
       | None \<Rightarrow>
           retain_newborn run obs par parent_state tid pid memory_shared files_shared s) s"

definition group_proven_singleton :: "State \<Rightarrow> InputTaskId \<Rightarrow> bool" where
  "group_proven_singleton s task \<longleftrightarrow>
     (case bt_get (tasks s) task of
        None \<Rightarrow> False
      | Some k \<Rightarrow>
          bt_get (groups_may_have_other_threads s) (reg_group (registration k)) = Some False)"

definition region_proven_single_process :: "State \<Rightarrow> InputTaskId \<Rightarrow> bool" where
  "region_proven_single_process s task \<longleftrightarrow>
     (case bt_get (tasks s) task of
        None \<Rightarrow> False
      | Some k \<Rightarrow> reg_region (registration k) \<notin> regions_may_have_other_processes s)"

section \<open>Exec\<close>

definition retain_image ::
    "u64 \<Rightarrow> files_observer \<Rightarrow> InputTaskId \<Rightarrow> InputTaskId \<Rightarrow> InputTaskRegistration \<Rightarrow>
     InputTaskRegistration \<Rightarrow> u64 set \<Rightarrow> InputTaskRegistration input_op" where
  "retain_image run obs displaced former old_leader old_former ids =
     and_then state_next (\<lambda>g1.
     and_then state_next (\<lambda>g2.
     and_then state_next (\<lambda>g3.
       let reg = old_former\<lparr>reg_task := InputTaskId run g1 (native_tid old_leader),
             native_tid := native_tid old_leader, native_pid := native_pid old_leader,
             tool_tid := None, tool_pid := None, reg_region := RegionLifetime run g2,
             reg_files := FileTableLifetime run g3\<rparr>
       in
       and_then (\<lambda>s. (Ok (), forget_tid former (forget_tid displaced
         (s\<lparr>regions := bt_insert (RegionLifetime run g2) default_region (regions s),
            files_possibly_shared := bt_insert (FileTableLifetime run g3) False
              (files_possibly_shared s)\<rparr>)))) (\<lambda>_.
       and_then (publish_task reg ids) (\<lambda>_.
       and_then (observe_files obs \<lparr>event_source = old_former, event_destination = reg,
           event_shared = Some False, event_exec = True\<rparr>) (\<lambda>_ s. (Ok reg, s)))))))"

definition backend_exec_replacement ::
    "u64 \<Rightarrow> files_observer \<Rightarrow> InputTaskId \<Rightarrow> InputTaskId \<Rightarrow> InputTaskRegistration input_op" where
  "backend_exec_replacement run obs displaced former s =
     (if fatal s \<noteq> None then (Err ''input-run-terminal'', s)
      else
        try_ok (ok_or (bt_get (tasks s) displaced) ''input-exec-owner-not-retained'') (\<lambda>leader.
        try_ok (ok_or (bt_get (tasks s) former) ''input-exec-former-not-retained'') (\<lambda>old s.
          let old_leader = registration leader; old_former = registration old in
          if reg_group old_leader \<noteq> reg_group old_former
             \<or> native_tid old_leader \<noteq> native_pid old_leader
          then (Err ''input-exec-owner-mismatch'', s)
          else
            let ids = group_freezes s (reg_group old_former) in
            and_then (effects_complete_locked displaced) (\<lambda>_.
            and_then (if former \<noteq> displaced then effects_complete_locked former
                      else (\<lambda>s. (Ok (), s))) (\<lambda>_.
              retain_image run obs displaced former old_leader old_former ids)) s)) s)"

definition backend_exec :: "u64 \<Rightarrow> files_observer \<Rightarrow> InputTaskId \<Rightarrow> InputTaskRegistration input_op" where
  "backend_exec run obs task = backend_exec_replacement run obs task task"

section \<open>Page transactions\<close>

definition backend_set_layout :: "InputTaskId \<Rightarrow> ReservedInputLayout \<Rightarrow> unit input_op" where
  "backend_set_layout task l =
     try_ok (validate l) (\<lambda>l s.
       try_ok (live s task) (\<lambda>owner s.
         try_ok (unwrap (bt_get (regions s) (reg_region (registration owner)))) (\<lambda>_ s.
           (Ok (), update_region (reg_region (registration owner))
              (\<lambda>region. region\<lparr>layout := Some l\<rparr>) s)) s) s)"

definition backend_bind_injection ::
    "u64 \<Rightarrow> State \<Rightarrow> PhysicalInjectionReceipt \<Rightarrow> InputTaskId \<Rightarrow> u64 \<Rightarrow> u64 list \<Rightarrow>
     (InputUnavailable, unit) outcome" where
  "backend_bind_injection run s receipt task n as =
     (case bt_get (injections s) (receipt_id receipt) of
        None \<Rightarrow> Err ''input-call-missing''
      | Some call \<Rightarrow>
          (case live s task of
             Ok owner \<Rightarrow>
               if physical_run (receipt_id receipt) \<noteq> run
                  \<or> call_task call \<noteq> task
                  \<or> number (description call) \<noteq> n
                  \<or> args (description call) \<noteq> as
                  \<or> call_state call \<noteq> Prepared
                  \<or> map_option fst (task_grant owner) \<noteq> Some (call_grant call)
                  \<or> frozen owner \<noteq> {}
               then Err ''input-physical-call-mismatch'' else Ok ()
           | Err e \<Rightarrow> Err e
           | Panic \<Rightarrow> Panic))"

definition backend_description :: "State \<Rightarrow> PhysicalInjectionId \<Rightarrow> PhysicalInjectionDescription option" where
  "backend_description s i = map_option description (bt_get (injections s) i)"

definition backend_begin_preparation ::
    "u64 \<Rightarrow> PhysicalInjectionReceipt \<Rightarrow> InputOperationScope \<Rightarrow> ReservedInputImage \<Rightarrow> unit input_op" where
  "backend_begin_preparation run receipt scope img s =
     try_ok (validate_scope run s scope) (\<lambda>_.
     try_ok (live s (scope_task scope)) (\<lambda>owner.
     let r = reg_region (registration owner) in
     try_ok (unwrap (bt_get (regions s) r)) (\<lambda>region s.
       if transaction region \<noteq> None then (Err ''input-transaction-busy'', s)
       else if layout region \<noteq> Some (image_layout img) then
         (Err ''input-layout-not-authenticated'', s)
       else
         try_ok (ok_or (bt_get (injections s) (receipt_id receipt)) ''input-call-missing'') (\<lambda>call s.
           if call_task call \<noteq> scope_task scope
              \<or> call_operation call \<noteq> scope_operation scope
              \<or> call_grant call \<noteq> scope_grant scope
              \<or> call_state call \<noteq> Prepared
              \<or> phase call \<noteq> None
           then (Err ''input-transaction-binding'', s)
           else
             (Ok (), update_injection (receipt_id receipt)
                (\<lambda>c. c\<lparr>phase := Some Preparing, call_image := Some img\<rparr>)
                (update_region r (\<lambda>g. g\<lparr>transaction := Some (receipt_id receipt)\<rparr>) s))) s))) s"

definition access_conflict ::
    "RegionLifetime \<Rightarrow> ReservedInputImage \<Rightarrow> Access \<Rightarrow> (InputUnavailable, unit) outcome" where
  "access_conflict r img a =
     (if targets (target (access_declaration a)) r
         \<and> span_overlaps (span (access_declaration a)) (image_layout img)
      then Err (cause (access_declaration a)) else Ok ())"

definition first_exposure :: "InputExposure list \<Rightarrow> (InputUnavailable, unit) outcome" where
  "first_exposure es = (case es of [] \<Rightarrow> Ok () | e # _ \<Rightarrow> Err (exposure_cause e))"

definition backend_prepared_stopped :: "PhysicalInjectionId \<Rightarrow> ReservedInputImage input_op" where
  "backend_prepared_stopped i s =
     try_ok (ok_or (bt_get (injections s) i) ''input-call-missing'') (\<lambda>call.
     try_ok (live s (call_task call)) (\<lambda>owner s.
       if phase call \<noteq> Some Preparing
          \<or> map_option fst (task_grant owner) \<noteq> Some (call_grant call)
          \<or> frozen owner \<noteq> {}
       then (Err ''input-operation-stale'', s)
       else
         let r = reg_region (registration owner) in
         if list_ex (\<lambda>k. reg_region (registration k) = r \<and> frozen k \<noteq> {}) (bt_values (tasks s))
         then (Err ''input-region-frozen'', s)
         else
           try_ok (ok_or (call_image call) ''input-image-missing'') (\<lambda>img.
           try_ok (first_exposure (global_exposures s)) (\<lambda>_.
           try_ok (unwrap (bt_get (regions s) r)) (\<lambda>region.
           try_ok (first_exposure (exposures region)) (\<lambda>_.
           try_ok (check_all (access_conflict r img) (bt_values (accesses s))) (\<lambda>_ s.
             (Ok img, update_injection i (\<lambda>c. c\<lparr>phase := Some PreparedStopped\<rparr>) s)))))) s)) s"

definition transition ::
    "PhysicalInjectionId \<Rightarrow> InputTransactionPhase \<Rightarrow> InputTransactionPhase \<Rightarrow> unit input_op" where
  "transition i from to s =
     try_ok (ok_or (bt_get (injections s) i) ''input-call-missing'') (\<lambda>call s.
       if phase call \<noteq> Some from then (Err ''input-transaction-phase'', s)
       else (Ok (), update_injection i (\<lambda>c. c\<lparr>phase := Some to\<rparr>) s)) s"

definition backend_initializing :: "PhysicalInjectionId \<Rightarrow> unit input_op" where
  "backend_initializing i = transition i PreparedStopped Initializing"

definition backend_normalizing :: "PhysicalInjectionId \<Rightarrow> unit input_op" where
  "backend_normalizing i = transition i Initializing Normalizing"

definition backend_verified_image :: "PhysicalInjectionId \<Rightarrow> u8 list \<Rightarrow> unit input_op" where
  "backend_verified_image i readback s =
     try_ok (ok_or (bt_get (injections s) i) ''input-call-missing'') (\<lambda>call.
       if phase call \<notin> {Some Initializing, Some Normalizing} then refuse ''input-transaction-phase''
       else
         try_ok (ok_or (call_image call) ''input-image-missing'') (\<lambda>img s.
           if image_bytes img \<noteq> readback then (Err ''input-image-readback-mismatch'', s)
           else (Ok (), update_injection i
             (\<lambda>c. c\<lparr>verified_image := Some img, phase := Some Ready\<rparr>) s))) s"

definition note_issue :: "PhysicalInjectionDescription \<Rightarrow> InputTaskRegistration \<Rightarrow> State \<Rightarrow> State" where
  "note_issue d reg s =
     (let sharing = expected_sharing d;
          may_thread = may_create sharing \<and> sharing_thread_group sharing \<noteq> Some False;
          may_process_share = may_create sharing \<and> sharing_memory sharing \<noteq> Some False
            \<and> sharing_thread_group sharing \<noteq> Some True;
          s1 = (if may_thread then s\<lparr>groups_may_have_other_threads :=
                  bt_insert (reg_group reg) True (groups_may_have_other_threads s)\<rparr> else s)
      in if may_process_share then s1\<lparr>regions_may_have_other_processes :=
           insert (reg_region reg) (regions_may_have_other_processes s1)\<rparr> else s1)"

definition backend_issued :: "PhysicalInjectionId \<Rightarrow> unit input_op" where
  "backend_issued i s =
     try_ok (ok_or (bt_get (injections s) i) ''input-call-missing'') (\<lambda>call.
     try_ok (unwrap (bt_get (tasks s) (call_task call))) (\<lambda>owner s.
       let s1 = note_issue (description call) (registration owner) s in
       if list_ex (\<lambda>(j, c). j \<noteq> i \<and> call_task c = call_task call \<and> call_state c = Issued)
            (injections s1)
       then (Err ''input-native-call-already-issued'', s1)
       else if call_state call \<noteq> Prepared \<or> phase call \<notin> {None, Some Ready} then
         (Err ''input-issue-phase'', s1)
       else
         (Ok (), update_injection i (\<lambda>c. c\<lparr>call_state := Issued,
            phase := (if phase c \<noteq> None then Some Launched else None)\<rparr>) s1))) s"

definition backend_issued_call :: "State \<Rightarrow> InputTaskId \<Rightarrow> PhysicalInjectionId option" where
  "backend_issued_call s task =
     map_option fst
       (find (\<lambda>(i, call). call_task call = task \<and> call_state call = Issued) (injections s))"

definition backend_settled_not_run :: "PhysicalInjectionId \<Rightarrow> unit input_op" where
  "backend_settled_not_run i s =
     try_ok (ok_or (bt_get (injections s) i) ''input-call-missing'') (\<lambda>call.
       if call_state call \<noteq> Prepared
          \<or> phase call \<notin> {None, Some Preparing, Some PreparedStopped, Some Ready}
       then refuse ''input-not-run-unproved''
       else finish_locked i ProvedNoChild) s"

definition backend_no_child :: "PhysicalInjectionId \<Rightarrow> unit input_op" where
  "backend_no_child i s =
     (case bt_get (injections s) i of
        Some call \<Rightarrow>
          if call_state call \<noteq> Issued then (Err ''input-no-child-unproved'', s)
          else finish_locked i ProvedNoChild s
      | None \<Rightarrow> (Err ''input-no-child-unproved'', s))"

definition sharing_mismatch :: "bool option \<Rightarrow> bool option \<Rightarrow> bool" where
  "sharing_mismatch expected actual \<longleftrightarrow>
     (case (expected, actual) of (Some a, Some b) \<Rightarrow> a \<noteq> b | _ \<Rightarrow> False)"

definition backend_retained_birth ::
    "PhysicalInjectionId \<Rightarrow> InputTaskId \<Rightarrow> bool option \<Rightarrow> bool option \<Rightarrow> unit input_op" where
  "backend_retained_birth i child memory_shared files_shared s =
     try_ok (ok_or (bt_get (injections s) i) ''input-call-missing'') (\<lambda>call s.
       if call_state call = RetainedBirth child then (Ok (), s)
       else if call_state call \<noteq> Issued \<or> bt_get (tasks s) child = None then
         (Err ''input-birth-binding'', s)
       else
         let expected = expected_sharing (description call) in
         if sharing_mismatch (sharing_memory expected) memory_shared
            \<or> sharing_mismatch (sharing_files expected) files_shared
         then (Err ''input-native-sharing-mismatch'', s)
         else
           and_then (for_each add_exposure_locked (prospective (description call)))
             (\<lambda>_. finish_locked i (RetainedBirth child)) s) s"

definition backend_unknown_outcome :: "PhysicalInjectionId \<Rightarrow> unit input_op" where
  "backend_unknown_outcome i s =
     try_ok (ok_or (bt_get (injections s) i) ''input-call-missing'') (\<lambda>call.
       finish_unknown i call) s"

definition backend_continuation ::
    "State \<Rightarrow> InputTaskId \<Rightarrow> PhysicalInjectionId option \<Rightarrow> (InputUnavailable, unit) outcome" where
  "backend_continuation s task phys =
     (case live s task of
        Ok owner \<Rightarrow>
          (case bt_get (regions s) (reg_region (registration owner)) of
             None \<Rightarrow> Panic
           | Some region \<Rightarrow>
               (case transaction region of
                  None \<Rightarrow> Ok ()
                | Some i \<Rightarrow>
                    (case bt_get (injections s) i of
                       None \<Rightarrow> Panic
                     | Some call \<Rightarrow>
                         if phase call \<in> {Some Preparing, Some PreparedStopped} then Ok ()
                         else if phys \<noteq> Some i \<or> phase call \<notin> {Some Ready, Some Launched} then
                           Err ''input-unsettled-continuation''
                         else Ok ())))
      | Err e \<Rightarrow> Err e
      | Panic \<Rightarrow> Panic)"

end
