(* ===== verification/Input_Invariant.thy ===== *)
theory Input_Invariant
  imports Input_Backend
begin

text \<open>
  The invariant of the registry, one predicate for each relation between its maps, and that every
  operation keeps it and never panics. The predicates speak of what the maps hold, so that a change
  of one map leaves the predicates on the others as they are.
\<close>

section \<open>The invariant\<close>

text \<open>A task is filed under its own identity, its region is retained, and a frozen task has no grant.\<close>

definition wf_tasks :: "(InputTaskId \<rightharpoonup> Task) \<Rightarrow> (RegionLifetime \<rightharpoonup> Region) \<Rightarrow> bool" where
  "wf_tasks T R \<longleftrightarrow> (\<forall>t k. T t = Some k \<longrightarrow>
     reg_task (registration k) = t \<and> R (reg_region (registration k)) \<noteq> None
     \<and> (frozen k \<noteq> {} \<longrightarrow> task_grant k = None))"

text \<open>A thread number names a retained task of that number that has not died.\<close>

definition wf_tids :: "(i32 \<rightharpoonup> InputTaskId) \<Rightarrow> (InputTaskId \<rightharpoonup> Task) \<Rightarrow> bool" where
  "wf_tids B T \<longleftrightarrow> (\<forall>n t. B n = Some t \<longrightarrow>
     task_tid t = n \<and> (\<exists>k. T t = Some k \<and> \<not> native_terminal k))"

text \<open>
  The stage of a call and the phase of its page transaction agree: a phase exists only before the
  outcome, it is \<^verbatim>\<open>Launched\<close> exactly when the call was issued, it comes with an image, and from
  \<^verbatim>\<open>Ready\<close> on the image is the one that was read back.
\<close>

definition call_wf :: "Injection \<Rightarrow> bool" where
  "call_wf c \<longleftrightarrow> (\<forall>p. phase c = Some p \<longrightarrow>
     unsettled (call_state c) \<and> (p = Launched \<longleftrightarrow> call_state c = Issued) \<and> call_image c \<noteq> None
     \<and> (p \<in> {Ready, Launched} \<longrightarrow> verified_image c = call_image c))"

definition wf_calls :: "(PhysicalInjectionId \<rightharpoonup> Injection) \<Rightarrow> (InputTaskId \<rightharpoonup> Task) \<Rightarrow> bool" where
  "wf_calls J T \<longleftrightarrow> (\<forall>i c. J i = Some c \<longrightarrow> T (call_task c) \<noteq> None \<and> call_wf c)"

text \<open>A task has at most one issued call.\<close>

definition wf_issued :: "(PhysicalInjectionId \<rightharpoonup> Injection) \<Rightarrow> bool" where
  "wf_issued J \<longleftrightarrow> (\<forall>i j c d. J i = Some c \<longrightarrow> J j = Some d \<longrightarrow> call_state c = Issued \<longrightarrow>
     call_state d = Issued \<longrightarrow> call_task c = call_task d \<longrightarrow> i = j)"

text \<open>
  The transaction of a region is exactly the one call of its tasks that has a phase.
\<close>

definition call_region :: "(InputTaskId \<rightharpoonup> Task) \<Rightarrow> Injection \<Rightarrow> RegionLifetime option" where
  "call_region T c = map_option (\<lambda>k. reg_region (registration k)) (T (call_task c))"

definition wf_txn ::
    "(PhysicalInjectionId \<rightharpoonup> Injection) \<Rightarrow> (InputTaskId \<rightharpoonup> Task) \<Rightarrow> (RegionLifetime \<rightharpoonup> Region) \<Rightarrow> bool" where
  "wf_txn J T R \<longleftrightarrow>
     (\<forall>r g i. R r = Some g \<longrightarrow> transaction g = Some i \<longrightarrow>
        (\<exists>c. J i = Some c \<and> phase c \<noteq> None \<and> call_region T c = Some r))
     \<and> (\<forall>i c r g. J i = Some c \<longrightarrow> phase c \<noteq> None \<longrightarrow> call_region T c = Some r \<longrightarrow>
        R r = Some g \<longrightarrow> transaction g = Some i)"

text \<open>The members of a cohort are the tasks that carry its freeze, and group intents are cohorts.\<close>

definition wf_freezes ::
    "(InputTaskId \<rightharpoonup> Task) \<Rightarrow> (u64 \<rightharpoonup> InputTaskId set) \<Rightarrow> (ThreadGroupLifetime \<rightharpoonup> u64 set) \<Rightarrow> bool" where
  "wf_freezes T F G \<longleftrightarrow>
     (\<forall>t k i. T t = Some k \<longrightarrow> (i \<in> frozen k \<longleftrightarrow> (\<exists>m. F i = Some m \<and> t \<in> m)))
     \<and> (\<forall>i m t. F i = Some m \<longrightarrow> t \<in> m \<longrightarrow> T t \<noteq> None)
     \<and> (\<forall>i m. F i = Some m \<longrightarrow> finite m)
     \<and> (\<forall>g ids i. G g = Some ids \<longrightarrow> i \<in> ids \<longrightarrow> F i \<noteq> None)"

text \<open>Identities are of this run and not above the counter, so the next one is new.\<close>

definition wf_fresh ::
    "u64 \<Rightarrow> u64 \<Rightarrow> (InputTaskId \<rightharpoonup> Task) \<Rightarrow> (RegionLifetime \<rightharpoonup> Region) \<Rightarrow>
     (PhysicalInjectionId \<rightharpoonup> Injection) \<Rightarrow> (u64 \<rightharpoonup> Access) \<Rightarrow> (u64 \<rightharpoonup> InputTaskId set) \<Rightarrow> bool" where
  "wf_fresh run n T R J A F \<longleftrightarrow>
     (\<forall>t. T t \<noteq> None \<longrightarrow> task_run t = run \<and> task_generation t \<le> n)
     \<and> (\<forall>r. R r \<noteq> None \<longrightarrow> region_run r = run \<and> region_generation r \<le> n)
     \<and> (\<forall>i. J i \<noteq> None \<longrightarrow> physical_run i = run \<and> physical_id i \<le> n)
     \<and> (\<forall>a. A a \<noteq> None \<longrightarrow> a \<le> n)
     \<and> (\<forall>i. F i \<noteq> None \<longrightarrow> i \<le> n)"

definition wf_layouts :: "(RegionLifetime \<rightharpoonup> Region) \<Rightarrow> bool" where
  "wf_layouts R \<longleftrightarrow> (\<forall>r g l. R r = Some g \<longrightarrow> layout g = Some l \<longrightarrow> layout_valid l)"

definition wf_keys :: "State \<Rightarrow> bool" where
  "wf_keys s \<longleftrightarrow> bt_ok (tasks s) \<and> bt_ok (regions s) \<and> bt_ok (accesses s) \<and> bt_ok (injections s)
     \<and> bt_ok (freezes s)"

definition inv :: "u64 \<Rightarrow> State \<Rightarrow> bool" where
  "inv run s \<longleftrightarrow> wf_keys s
     \<and> wf_tasks (bt_get (tasks s)) (bt_get (regions s))
     \<and> wf_tids (bt_get (by_tid s)) (bt_get (tasks s))
     \<and> wf_calls (bt_get (injections s)) (bt_get (tasks s))
     \<and> wf_issued (bt_get (injections s))
     \<and> wf_txn (bt_get (injections s)) (bt_get (tasks s)) (bt_get (regions s))
     \<and> wf_freezes (bt_get (tasks s)) (bt_get (freezes s)) (bt_get (frozen_groups s))
     \<and> wf_fresh run (next_id s) (bt_get (tasks s)) (bt_get (regions s)) (bt_get (injections s))
         (bt_get (accesses s)) (bt_get (freezes s))
     \<and> wf_layouts (bt_get (regions s))"

lemma inv_default: "inv run default_state"
  by (simp add: inv_def default_state_def wf_keys_def wf_tasks_def wf_tids_def wf_calls_def
      wf_issued_def wf_txn_def wf_freezes_def wf_fresh_def wf_layouts_def)

text \<open>Fields the invariant does not speak of.\<close>

lemma inv_other_fields [simp]:
  "inv run (s\<lparr>global_exposures := v1\<rparr>) = inv run s"
  "inv run (s\<lparr>files_possibly_shared := v2\<rparr>) = inv run s"
  "inv run (s\<lparr>groups_may_have_other_threads := v3\<rparr>) = inv run s"
  "inv run (s\<lparr>regions_may_have_other_processes := v4\<rparr>) = inv run s"
  "inv run (s\<lparr>fatal := v5\<rparr>) = inv run s"
  by (simp_all add: inv_def wf_keys_def)

lemma inv_task_region:
  "inv run s \<Longrightarrow> bt_get (tasks s) t = Some k \<Longrightarrow>
   \<exists>g. bt_get (regions s) (reg_region (registration k)) = Some g"
  by (simp add: inv_def wf_tasks_def)

lemma inv_call_task:
  "inv run s \<Longrightarrow> bt_get (injections s) i = Some c \<Longrightarrow> \<exists>k. bt_get (tasks s) (call_task c) = Some k"
  by (simp add: inv_def wf_calls_def)

lemma inv_call_wf: "inv run s \<Longrightarrow> bt_get (injections s) i = Some c \<Longrightarrow> call_wf c"
  by (simp add: inv_def wf_calls_def)

lemma inv_frozen_grant:
  "inv run s \<Longrightarrow> bt_get (tasks s) t = Some k \<Longrightarrow> frozen k \<noteq> {} \<Longrightarrow> task_grant k = None"
  by (simp add: inv_def wf_tasks_def)

lemma inv_member_task:
  "inv run s \<Longrightarrow> bt_get (freezes s) f = Some m \<Longrightarrow> x \<in> m \<Longrightarrow> \<exists>k. bt_get (tasks s) x = Some k"
  unfolding inv_def wf_freezes_def by fastforce

lemma inv_tid_task:
  "inv run s \<Longrightarrow> bt_get (by_tid s) n = Some t \<Longrightarrow> \<exists>k. bt_get (tasks s) t = Some k"
  unfolding inv_def wf_tids_def by fastforce

lemma inv_transaction_call:
  "inv run s \<Longrightarrow> bt_get (regions s) r = Some g \<Longrightarrow> transaction g = Some i \<Longrightarrow>
   \<exists>c. bt_get (injections s) i = Some c \<and> phase c \<noteq> None \<and> call_region (bt_get (tasks s)) c = Some r"
  by (simp add: inv_def wf_txn_def)

lemma inv_keys:
  assumes "inv run s"
  shows "bt_ok (tasks s)" "bt_ok (regions s)" "bt_ok (accesses s)" "bt_ok (injections s)"
    "bt_ok (freezes s)"
  using assms by (simp_all add: inv_def wf_keys_def)

section \<open>Changes that keep the invariant\<close>

lemma update_selectors [simp]:
  "tasks (update_injection i f s) = tasks s" "regions (update_injection i f s) = regions s"
  "accesses (update_injection i f s) = accesses s" "fatal (update_injection i f s) = fatal s"
  "injections (update_injection i f s) = bt_update i f (injections s)"
  "tasks (update_region r g s) = tasks s" "injections (update_region r g s) = injections s"
  "accesses (update_region r g s) = accesses s" "fatal (update_region r g s) = fatal s"
  "regions (update_region r g s) = bt_update r g (regions s)"
  "tasks (update_task t h s) = bt_update t h (tasks s)" "regions (update_task t h s) = regions s"
  "injections (update_task t h s) = injections s" "accesses (update_task t h s) = accesses s"
  "fatal (update_task t h s) = fatal s" "freezes (update_task t h s) = freezes s"
  by (simp_all add: update_injection_def update_region_def update_task_def)

lemma inv_next:
  assumes "inv run s" and "next_id s \<le> n"
  shows "inv run (s\<lparr>next_id := n\<rparr>)"
  using assms unfolding inv_def wf_keys_def
  by (auto simp: wf_fresh_def intro: order_trans)

lemma inv_accesses:
  assumes "inv run s" and "bt_ok m" and "\<And>a. bt_get m a \<noteq> None \<Longrightarrow> a \<le> next_id s"
  shows "inv run (s\<lparr>accesses := m\<rparr>)"
  using assms unfolding inv_def wf_keys_def by (auto simp: wf_fresh_def)

text \<open>A change of one task that leaves its identity, its region and its freezes alone.\<close>

definition task_kept :: "Task \<Rightarrow> Task \<Rightarrow> bool" where
  "task_kept k k' \<longleftrightarrow> reg_task (registration k') = reg_task (registration k)
     \<and> reg_region (registration k') = reg_region (registration k) \<and> frozen k' = frozen k
     \<and> (frozen k \<noteq> {} \<longrightarrow> task_grant k = None \<longrightarrow> task_grant k' = None)"

lemma call_region_upd:
  "(\<And>k. T t = Some k \<Longrightarrow> reg_region (registration (f k)) = reg_region (registration k)) \<Longrightarrow>
   call_region (T(t := map_option f (T t))) c = call_region T c"
  by (cases "T t") (auto simp: call_region_def)

lemma inv_update_task_terminal:
  assumes "inv run s" and "\<And>k. bt_get (tasks s) t = Some k \<Longrightarrow> task_kept k (f k)"
    and "\<And>k n. bt_get (tasks s) t = Some k \<Longrightarrow> bt_get (by_tid s) n = Some t \<Longrightarrow>
      native_terminal (f k) \<Longrightarrow> native_terminal k"
  shows "inv run (update_task t f s)"
proof (cases "bt_get (tasks s) t")
  case None
  then have "bt_get (bt_update t f (tasks s)) = bt_get (tasks s)" by (simp add: fun_eq_iff)
  then show ?thesis using assms(1) unfolding inv_def wf_keys_def update_task_def
    by (simp del: bt_get_update)
next
  case (Some k)
  have region: "call_region ((bt_get (tasks s))(t \<mapsto> f k)) c = call_region (bt_get (tasks s)) c" for c
    using Some assms(2) by (auto simp: call_region_def task_kept_def)
  let ?T = "bt_get (tasks s)"
  have T: "bt_get (bt_update t f (tasks s)) = ?T(t \<mapsto> f k)" using Some by (simp add: fun_eq_iff)
  have kept: "task_kept k (f k)" using assms(2) Some by simp
  have "wf_tasks (?T(t \<mapsto> f k)) (bt_get (regions s))"
    using assms(1) kept Some by (auto simp: inv_def wf_tasks_def task_kept_def)
  moreover have "wf_tids (bt_get (by_tid s)) (?T(t \<mapsto> f k))"
  proof -
    have wf: "wf_tids (bt_get (by_tid s)) ?T" using assms(1) by (simp add: inv_def)
    have "task_tid x = n \<and> (\<exists>k'. (?T(t \<mapsto> f k)) x = Some k' \<and> \<not> native_terminal k')"
      if "bt_get (by_tid s) n = Some x" for n x
      using wf that assms(3) [OF Some, of n] Some unfolding wf_tids_def
      by (cases "x = t") (metis fun_upd_same option.inject, metis fun_upd_other)
    then show ?thesis unfolding wf_tids_def by blast
  qed
  moreover have "wf_calls (bt_get (injections s)) (?T(t \<mapsto> f k))"
    using assms(1) by (auto simp: inv_def wf_calls_def)
  moreover have "wf_txn (bt_get (injections s)) (?T(t \<mapsto> f k)) (bt_get (regions s))"
    using assms(1) by (simp add: inv_def wf_txn_def region)
  moreover have "wf_freezes (?T(t \<mapsto> f k)) (bt_get (freezes s)) (bt_get (frozen_groups s))"
    using assms(1) kept Some by (auto simp: inv_def wf_freezes_def task_kept_def)
  moreover have "wf_fresh run (next_id s) (?T(t \<mapsto> f k)) (bt_get (regions s))
      (bt_get (injections s)) (bt_get (accesses s)) (bt_get (freezes s))"
    using assms(1) Some by (auto simp: inv_def wf_fresh_def)
  ultimately show ?thesis
    using assms(1) T by (simp add: inv_def wf_keys_def update_task_def del: bt_get_update)
qed

lemma inv_update_task:
  "inv run s \<Longrightarrow> (\<And>k. bt_get (tasks s) t = Some k \<Longrightarrow> task_kept k (f k)) \<Longrightarrow>
   (\<And>k. native_terminal (f k) = native_terminal k) \<Longrightarrow> inv run (update_task t f s)"
  by (rule inv_update_task_terminal) simp_all

text \<open>A change of one region that leaves its transaction alone.\<close>

lemma inv_update_region:
  assumes "inv run s"
    and "\<And>g. bt_get (regions s) r = Some g \<Longrightarrow> transaction (f g) = transaction g"
    and "\<And>g l. bt_get (regions s) r = Some g \<Longrightarrow> layout (f g) = Some l \<Longrightarrow> layout g = Some l \<or> layout_valid l"
  shows "inv run (update_region r f s)"
proof (cases "bt_get (regions s) r")
  case None
  then have "bt_get (bt_update r f (regions s)) = bt_get (regions s)" by (simp add: fun_eq_iff)
  then show ?thesis using assms(1) unfolding inv_def wf_keys_def update_region_def
    by (simp del: bt_get_update)
next
  case (Some g)
  show ?thesis
    using assms(1) assms(2,3) [OF Some] Some unfolding inv_def update_region_def
    by (auto simp: wf_keys_def wf_tasks_def wf_txn_def wf_fresh_def wf_layouts_def)
qed

lemma wf_issued_upd:
  assumes "wf_issued J" and "J i = Some c" and "call_task c' = call_task c"
    and "call_state c' = Issued \<Longrightarrow> call_state c = Issued \<or>
      (\<forall>j d. j \<noteq> i \<longrightarrow> J j = Some d \<longrightarrow> call_task d = call_task c \<longrightarrow> call_state d \<noteq> Issued)"
  shows "wf_issued (J(i \<mapsto> c'))"
proof -
  have other: "j = i" if "J j = Some d" "call_state d = Issued" "call_state c' = Issued"
    "call_task d = call_task c" for j d
  proof (rule ccontr)
    assume "j \<noteq> i"
    with assms(4) that have "call_state c = Issued" by auto
    with assms(1,2) that have "j = i" unfolding wf_issued_def by blast
    with \<open>j \<noteq> i\<close> show False by simp
  qed
  show ?thesis
    unfolding wf_issued_def
  proof (intro allI impI)
    fix a b x y
    assume *: "(J(i \<mapsto> c')) a = Some x" "(J(i \<mapsto> c')) b = Some y" "call_state x = Issued"
      "call_state y = Issued" "call_task x = call_task y"
    show "a = b"
    proof (cases "a = i \<or> b = i")
      case True
      with * assms(3) show ?thesis using other [of a x] other [of b y] by (auto split: if_splits)
    next
      case False
      with * have "J a = Some x" "J b = Some y" by auto
      with * assms(1) show ?thesis unfolding wf_issued_def by blast
    qed
  qed
qed

lemma wf_txn_upd:
  assumes "wf_txn J T R" and "J i = Some c" and "call_task c' = call_task c"
    and "phase c' = None \<longleftrightarrow> phase c = None"
  shows "wf_txn (J(i \<mapsto> c')) T R"
proof -
  have region: "call_region T c' = call_region T c" using assms(3) by (simp add: call_region_def)
  have "\<exists>d. (J(i \<mapsto> c')) k = Some d \<and> phase d \<noteq> None \<and> call_region T d = Some r"
    if "R r = Some g" "transaction g = Some k" for r g k
  proof -
    from assms(1) that obtain d where "J k = Some d" "phase d \<noteq> None" "call_region T d = Some r"
      unfolding wf_txn_def by blast
    with assms(2,4) region show ?thesis by (cases "k = i") auto
  qed
  moreover have "transaction g = Some k"
    if "(J(i \<mapsto> c')) k = Some d" "phase d \<noteq> None" "call_region T d = Some r" "R r = Some g" for k d r g
  proof (cases "k = i")
    case True
    with that assms(2,4) region have "J k = Some c" "phase c \<noteq> None" "call_region T c = Some r" by auto
    with assms(1) that(4) show ?thesis unfolding wf_txn_def by blast
  next
    case False
    with that have "J k = Some d" by simp
    with assms(1) that show ?thesis unfolding wf_txn_def by blast
  qed
  ultimately show ?thesis unfolding wf_txn_def by blast
qed

text \<open>
  A change of one call that leaves its owner alone, does not issue it beside another, and keeps a
  phase that is there.
\<close>

lemma inv_update_injection:
  assumes "inv run s" and "bt_get (injections s) i = Some c"
    and "call_task (f c) = call_task c" and "call_wf (f c)"
    and "phase (f c) = None \<longleftrightarrow> phase c = None"
    and "call_state (f c) = Issued \<Longrightarrow> call_state c = Issued \<or>
      (\<forall>j d. j \<noteq> i \<longrightarrow> bt_get (injections s) j = Some d \<longrightarrow> call_task d = call_task c \<longrightarrow>
        call_state d \<noteq> Issued)"
  shows "inv run (update_injection i f s)"
proof -
  let ?J = "bt_get (injections s)"
  have J: "bt_get (bt_update i f (injections s)) = ?J(i \<mapsto> f c)" using assms(2) by simp
  have "wf_calls (?J(i \<mapsto> f c)) (bt_get (tasks s))"
    using assms(1-4) by (auto simp: inv_def wf_calls_def)
  moreover have "wf_issued (?J(i \<mapsto> f c))"
    using assms by (intro wf_issued_upd) (auto simp: inv_def)
  moreover have "wf_txn (?J(i \<mapsto> f c)) (bt_get (tasks s)) (bt_get (regions s))"
    using assms by (intro wf_txn_upd [where c = c]) (auto simp: inv_def)
  moreover have "wf_fresh run (next_id s) (bt_get (tasks s)) (bt_get (regions s)) (?J(i \<mapsto> f c))
      (bt_get (accesses s)) (bt_get (freezes s))"
    using assms(1,2) by (auto simp: inv_def wf_fresh_def)
  ultimately show ?thesis
    using assms(1) J by (simp add: inv_def wf_keys_def update_injection_def del: bt_get_update)
qed

section \<open>The end of a call\<close>

lemma wf_txn_finish:
  assumes "wf_txn J T R" and "J i = Some c" and "call_region T c = Some r" and "R r = Some g"
    and "phase c' = None"
  shows "wf_txn (J(i \<mapsto> c')) T (if transaction g = Some i then R(r \<mapsto> g\<lparr>transaction := None\<rparr>) else R)"
    (is "wf_txn ?J T ?R")
proof -
  have "\<exists>d. ?J k = Some d \<and> phase d \<noteq> None \<and> call_region T d = Some q"
    if "?R q = Some h" "transaction h = Some k" for q h k
  proof -
    have "R q = Some h"
      using that by (auto split: if_splits dest: arg_cong [where f = transaction])
    with assms(1) that(2) obtain d where d: "J k = Some d" "phase d \<noteq> None" "call_region T d = Some q"
      unfolding wf_txn_def by blast
    moreover have "k \<noteq> i"
    proof
      assume "k = i"
      with d assms(2,3) have "q = r" by simp
      with \<open>R q = Some h\<close> assms(4) that(2) \<open>k = i\<close> have "transaction g = Some i" by simp
      with that(1) \<open>q = r\<close> have "h = g\<lparr>transaction := None\<rparr>" by simp
      then have "transaction h = None" by simp
      with that(2) show False by simp
    qed
    ultimately show ?thesis by simp
  qed
  moreover have "transaction h = Some k"
    if "?J k = Some d" "phase d \<noteq> None" "call_region T d = Some q" "?R q = Some h" for k d q h
  proof -
    note found = that
    have k: "k \<noteq> i" "J k = Some d" using found(1,2) assms(5) by (auto split: if_splits)
    obtain h0 where h0: "R q = Some h0" using found(4) assms(4) by (auto split: if_splits)
    with k found(2,3) assms(1) have "transaction h0 = Some k" unfolding wf_txn_def by blast
    with h0 k(1) found(4) assms(4) show ?thesis by (auto split: if_splits)
  qed
  ultimately show ?thesis unfolding wf_txn_def by blast
qed

lemma inv_finish:
  assumes "inv run s" and "bt_get (injections s) i = Some c"
    and "bt_get (tasks s) (call_task c) = Some k"
    and "bt_get (regions s) (reg_region (registration k)) = Some g" and "\<not> unsettled result"
    and f: "f c = c\<lparr>call_state := result, phase := None\<rparr>"
  shows "inv run
    (if transaction g = Some i
     then update_region (reg_region (registration k)) (\<lambda>g. g\<lparr>transaction := None\<rparr>) (update_injection i f s)
     else update_injection i f s)" (is "inv run ?s")
proof -
  let ?J = "bt_get (injections s)" and ?R = "bt_get (regions s)" and ?r = "reg_region (registration k)"
  let ?R' = "if transaction g = Some i then ?R(?r \<mapsto> g\<lparr>transaction := None\<rparr>) else ?R"
  have J: "bt_get (injections ?s) = ?J(i \<mapsto> f c)" and R: "bt_get (regions ?s) = ?R'"
    and same: "tasks ?s = tasks s" "by_tid ?s = by_tid s" "accesses ?s = accesses s"
      "freezes ?s = freezes s" "frozen_groups ?s = frozen_groups s" "next_id ?s = next_id s"
    using assms(2,4) by (simp_all add: update_injection_def update_region_def)
  have keys: "wf_keys ?s" using assms(1) by (simp add: inv_def wf_keys_def update_injection_def update_region_def)
  have "wf_tasks (bt_get (tasks s)) ?R'"
    using assms(1) by (auto simp: inv_def wf_tasks_def)
  moreover have "wf_calls (?J(i \<mapsto> f c)) (bt_get (tasks s))"
    using assms(1,2) f by (auto simp: inv_def wf_calls_def call_wf_def)
  moreover have "wf_issued (?J(i \<mapsto> f c))"
    using assms(1,2,5) f by (intro wf_issued_upd [where c = c]) (auto simp: inv_def unsettled_def)
  moreover have "wf_txn (?J(i \<mapsto> f c)) (bt_get (tasks s)) ?R'"
    using assms by (intro wf_txn_finish [where c = c]) (auto simp: inv_def call_region_def)
  moreover have "wf_fresh run (next_id s) (bt_get (tasks s)) ?R' (?J(i \<mapsto> f c))
      (bt_get (accesses s)) (bt_get (freezes s))"
    using assms(1,2,4) by (auto simp: inv_def wf_fresh_def)
  moreover have "wf_layouts ?R'"
    using assms(1,4) by (auto simp: inv_def wf_layouts_def split: if_splits)
  ultimately show ?thesis
    using assms(1) keys unfolding inv_def J R same by simp
qed

lemma inv_complete_accesses: "inv run s \<Longrightarrow> inv run (complete_accesses P s)"
  unfolding complete_accesses_def
  by (rule inv_accesses) (auto simp: inv_keys, simp add: inv_def wf_fresh_def)

lemma keeps_finish_locked: "\<not> unsettled result \<Longrightarrow> keeps (inv run) (finish_locked i result)"
proof -
  assume *: "\<not> unsettled result"
  have "lands (\<lambda>_. inv run) (inv run) (finish_locked i result s)" if I: "inv run s" for s
  proof (cases "bt_get (injections s) i")
    case None
    then show ?thesis using I by (simp add: finish_locked_def try_ok_def)
  next
    case (Some c)
    obtain k where k: "bt_get (tasks s) (call_task c) = Some k" using inv_call_task [OF I Some] by auto
    obtain g where g: "bt_get (regions s) (reg_region (registration k)) = Some g"
      using inv_task_region [OF I k] by auto
    show ?thesis
      using inv_finish [OF I Some k g *, where f = "\<lambda>c. c\<lparr>call_state := result, phase := None\<rparr>"] Some k g
      by (simp add: finish_locked_def Let_def inv_complete_accesses split: if_splits)
  qed
  then show ?thesis by (simp add: triple_def)
qed

end
