(* ===== verification/Input_Keeps.thy ===== *)
theory Input_Keeps
  imports Input_Invariant
begin

text \<open>
  Every operation of the registry keeps its invariant and does not panic.
\<close>

section \<open>Checks\<close>

lemma live_Ok:
  "live s t = Ok k \<longleftrightarrow> fatal s = None \<and> bt_get (tasks s) t = Some k \<and> \<not> native_terminal k
     \<and> \<not> native_effects_complete k"
  by (auto simp: live_def split: option.splits)

lemma live_not_Panic [simp]: "live s t \<noteq> Panic"
  by (simp add: live_def split: option.split)

lemma validate_scope_Ok:
  "validate_scope run s scope = Ok u \<longleftrightarrow> scope_run scope = run \<and>
     (\<exists>k. live s (scope_task scope) = Ok k \<and> map_option fst (task_grant k) = Some (scope_grant scope)
        \<and> frozen k = {})"
  by (auto simp: validate_scope_def split: outcome.splits)

lemma validate_scope_not_Panic [simp]: "validate_scope run s scope \<noteq> Panic"
  by (simp add: validate_scope_def split: outcome.split)

lemma region_conflict_not_Panic:
  assumes "inv run s" and "e \<in> set (regions s)"
  shows "region_conflict s d e \<noteq> Panic"
proof -
  obtain r g where e: "e = (r, g)" by (cases e)
  with assms inv_keys(2) [OF assms(1)] have "bt_get (regions s) r = Some g"
    by (simp add: bt_in_set_iff [symmetric])
  from inv_transaction_call [OF assms(1) this] e show ?thesis
    by (auto simp: region_conflict_def split: option.split)
qed

lemma validate_access_not_Panic:
  assumes "inv run s"
  shows "validate_access s d \<noteq> Panic"
proof -
  have "check_all (region_conflict s d) (regions s) \<noteq> Panic"
    using region_conflict_not_Panic [OF assms] by (intro check_all_not_Panic) auto
  then show ?thesis
    by (auto simp: validate_access_def span_range_def split: outcome.split InputSpan.split option.split)
qed

lemma check_members_not_Panic:
  assumes "finite m" and "\<And>t. t \<in> m \<Longrightarrow> bt_get (tasks s) t \<noteq> None"
  shows "check_members s bad e m \<noteq> Panic"
  unfolding check_members_def using assms
  by (intro check_all_not_Panic) (auto split: option.split)

section \<open>New identities\<close>

text \<open>A number that no identity of the state carries.\<close>

definition unused :: "u64 \<Rightarrow> u64 \<Rightarrow> State \<Rightarrow> bool" where
  "unused run n s \<longleftrightarrow> n \<le> next_id s
     \<and> (\<forall>tid. bt_get (tasks s) (InputTaskId run n tid) = None)
     \<and> bt_get (regions s) (RegionLifetime run n) = None
     \<and> bt_get (injections s) (PhysicalInjectionId run n) = None
     \<and> bt_get (accesses s) n = None \<and> bt_get (freezes s) n = None"

lemma fresh_unused:
  assumes "inv run s" and "next_id s < n"
  shows "unused run n (s\<lparr>next_id := n\<rparr>)"
proof -
  have wf: "wf_fresh run (next_id s) (bt_get (tasks s)) (bt_get (regions s)) (bt_get (injections s))
      (bt_get (accesses s)) (bt_get (freezes s))" using assms(1) by (simp add: inv_def)
  have n: "\<not> n \<le> next_id s" using assms(2) by simp
  have "bt_get (tasks s) (InputTaskId run n tid) = None" for tid
    using wf n unfolding wf_fresh_def by (metis InputTaskId.sel(2))
  moreover have "bt_get (regions s) (RegionLifetime run n) = None"
    using wf n unfolding wf_fresh_def by (metis RegionLifetime.sel(2))
  moreover have "bt_get (injections s) (PhysicalInjectionId run n) = None"
    using wf n unfolding wf_fresh_def by (metis PhysicalInjectionId.sel(2))
  moreover have "bt_get (accesses s) n = None" "bt_get (freezes s) n = None"
    using wf n unfolding wf_fresh_def by metis+
  ultimately show ?thesis by (simp add: unused_def)
qed

text \<open>What a predicate of the state needs to survive a new number.\<close>

lemma triple_state_next:
  assumes "\<And>s n. P s \<Longrightarrow> next_id s < n \<Longrightarrow> P (s\<lparr>next_id := n\<rparr>)"
  shows "triple (\<lambda>s. inv run s \<and> P s) state_next (\<lambda>n s. inv run s \<and> P s \<and> unused run n s) (inv run)"
  unfolding triple_def state_next_def
  using assms fresh_unused inv_next checked_add_one_less
  by (fastforce split: option.splits intro: less_imp_le)

lemma keeps_state_next: "keeps (inv run) state_next"
  unfolding triple_def state_next_def
  by (auto split: option.splits intro: inv_next less_imp_le dest: checked_add_one_less)

section \<open>Grants and operations\<close>

lemma keeps_backend_bind_tool_identity: "keeps (inv run) (backend_bind_tool_identity task tid pid)"
  by (rule tripleI)
    (auto simp: backend_bind_tool_identity_def try_ok_def Let_def live_Ok task_kept_def
      intro!: inv_update_task split: outcome.split)

lemma keeps_grant: "keeps (inv run) (grant task kind)"
proof (rule tripleI)
  fix s assume I: "inv run s"
  show "lands (\<lambda>_. inv run) (inv run) (grant task kind s)"
  proof (cases "live s task")
    case (Ok k)
    then have k: "bt_get (tasks s) task = Some k" by (simp add: live_Ok)
    have "inv run (update_task task (\<lambda>k. k\<lparr>task_grant := Some (n, kind, False)\<rparr>) (s\<lparr>next_id := n\<rparr>))"
      if "next_id s < n" "frozen k = {}" for n
      using I that k by (intro inv_update_task inv_next) (auto simp: task_kept_def)
    then show ?thesis using Ok I
      by (auto simp: grant_def refuse_def and_then_def state_next_def dest!: checked_add_one_less
          split: option.split)
  qed (use I in \<open>simp_all add: grant_def try_ok_def\<close>)
qed

lemma inv_invalidate_operation: "inv run s \<Longrightarrow> inv run (invalidate_operation task s)"
  unfolding invalidate_operation_def by (rule inv_update_task) (auto simp: task_kept_def)

lemma keeps_begin_operation: "keeps (inv run) (begin_operation run task logical)"
  by (rule tripleI)
    (auto simp: begin_operation_def try_ok_def ok_or_def live_Ok task_kept_def
      intro!: inv_update_task split: outcome.split option.split)

lemma keeps_finish_operation: "keeps (inv run) (finish_operation run scope)"
proof (rule tripleI)
  fix s assume I: "inv run s"
  show "lands (\<lambda>_. inv run) (inv run) (finish_operation run scope s)"
  proof (cases "validate_scope run s scope")
    case (Ok u)
    then obtain k g where k: "bt_get (tasks s) (scope_task scope) = Some k" "task_grant k = Some g"
        "frozen k = {}"
      by (auto simp: validate_scope_Ok live_Ok)
    obtain a b c where "g = (a, b, c)" by (cases g)
    moreover have "inv run (update_task (scope_task scope) (\<lambda>k. k\<lparr>task_grant := v\<rparr>) s)" for v
      using I k by (intro inv_update_task) (auto simp: task_kept_def)
    ultimately show ?thesis using Ok I k by (simp add: finish_operation_def)
  qed (use I in \<open>simp_all add: finish_operation_def try_ok_def\<close>)
qed

section \<open>Accesses\<close>

lemma inv_access_key: "inv run s \<Longrightarrow> bt_get (accesses s) a = Some v \<Longrightarrow> a \<le> next_id s"
  by (simp add: inv_def wf_fresh_def)

lemma inv_insert_access: "inv run s \<Longrightarrow> n \<le> next_id s \<Longrightarrow> inv run (s\<lparr>accesses := bt_insert n a (accesses s)\<rparr>)"
  by (rule inv_accesses) (auto simp: inv_keys intro: inv_access_key split: if_splits)

lemma inv_update_access: "inv run s \<Longrightarrow> inv run (update_access i f s)"
  unfolding update_access_def by (rule inv_accesses) (auto simp: inv_keys intro: inv_access_key split: if_splits)

lemma inv_remove_access: "inv run s \<Longrightarrow> inv run (s\<lparr>accesses := bt_remove i (accesses s)\<rparr>)"
  by (rule inv_accesses) (auto simp: inv_keys intro: inv_access_key split: if_splits)

lemma inv_retain_access: "inv run s \<Longrightarrow> inv run (s\<lparr>accesses := bt_retain P (accesses s)\<rparr>)"
proof (rule inv_accesses)
  assume I: "inv run s"
  then show "bt_ok (bt_retain P (accesses s))" by (simp add: inv_keys)
  fix a assume "bt_get (bt_retain P (accesses s)) a \<noteq> None"
  then have "bt_get (accesses s) a \<noteq> None"
    by (auto simp: bt_get_retain inv_keys [OF I] split: option.splits)
  then show "a \<le> next_id s" using I by (simp add: inv_def wf_fresh_def)
qed

lemma keeps_insert_access: "keeps (inv run) (insert_access a)"
proof -
  have "triple (inv run) state_next (\<lambda>n s. inv run s \<and> unused run n s) (inv run)"
    using triple_state_next [of "\<lambda>_. True" run] by simp
  then show ?thesis
    unfolding insert_access_def
    by (rule triple_and_then) (auto simp: triple_def unused_def intro: inv_insert_access)
qed

lemma keeps_acquire_access: "keeps (inv run) (acquire_access run task d)"
proof (rule tripleI)
  fix s assume I: "inv run s"
  have "keeps (inv run) (and_then (insert_access a) (\<lambda>i s. (Ok \<lparr>lease_run = run, lease_id = i\<rparr>, s)))" for a
    by (rule triple_and_then [OF keeps_insert_access]) (simp add: triple_def)
  then show "lands (\<lambda>_. inv run) (inv run) (acquire_access run task d s)"
    using I validate_access_not_Panic [OF I, of d]
    by (auto simp: acquire_access_def try_ok_def triple_def split: outcome.split)
qed

lemma keeps_attach_access: "keeps (inv run) (attach_access run lease receipt)"
  by (rule tripleI)
    (auto simp: attach_access_def try_ok_def ok_or_def intro!: inv_update_access split: option.split)

lemma keeps_complete_access_after_return: "keeps (inv run) (complete_access_after_return run lease task)"
  by (rule tripleI)
    (auto simp: complete_access_after_return_def try_ok_def ok_or_def intro!: inv_update_access
      split: option.split)

lemma keeps_bind_access_completion: "keeps (inv run) (bind_access_completion run lease task c)"
  by (rule tripleI)
    (auto simp: bind_access_completion_def try_ok_def ok_or_def intro!: inv_update_access
      split: option.split)

lemma keeps_complete_access_after_completion:
  "keeps (inv run) (complete_access_after_completion run st lease task c)"
  by (rule tripleI)
    (auto simp: complete_access_after_completion_def try_ok_def ok_or_def intro!: inv_update_access
      split: option.split)

lemma keeps_readmit_access: "keeps (inv run) (readmit_access run lease task g)"
  by (rule tripleI)
    (auto simp: readmit_access_def try_ok_def ok_or_def intro!: inv_remove_access
      split: option.split outcome.split)

section \<open>Exposures\<close>

lemma keeps_add_exposure_locked: "keeps (inv run) (add_exposure_locked e)"
proof (rule tripleI)
  fix s assume I: "inv run s"
  have "inv run (s\<lparr>regions := bt_update r (\<lambda>region. region\<lparr>exposures := exposures region @ [e]\<rparr>) (regions s)\<rparr>)"
    for r
    using I inv_update_region [OF I, of r "\<lambda>region. region\<lparr>exposures := exposures region @ [e]\<rparr>"]
    by (simp add: update_region_def)
  then show "lands (\<lambda>_. inv run) (inv run) (add_exposure_locked e s)"
    using I by (auto simp: add_exposure_locked_def split: InputTarget.split option.split)
qed

lemma keeps_backend_expose_before_continuation:
  "keeps (inv run) (backend_expose_before_continuation task e)"
proof (rule tripleI)
  fix s assume I: "inv run s"
  then show "lands (\<lambda>_. inv run) (inv run) (backend_expose_before_continuation task e s)"
    using validate_access_not_Panic [OF I] keeps_add_exposure_locked [of run e]
    by (auto simp: backend_expose_before_continuation_def try_ok_def triple_def split: outcome.split)
qed

end
