(* ===== verification/Input_Keeps_Calls.thy ===== *)
theory Input_Keeps_Calls
  imports Input_Keeps
begin

text \<open>
  Preservation for the registration of calls, for the freezes, and for the page transactions.
\<close>

section \<open>Registration of calls\<close>

lemma inv_insert_injection:
  assumes "inv run s" and "n \<le> next_id s" and "bt_get (injections s) (PhysicalInjectionId run n) = None"
    and "bt_get (tasks s) task = Some k"
  shows "inv run (s\<lparr>injections :=
    bt_insert (PhysicalInjectionId run n) (new_injection task operation g d) (injections s)\<rparr>)"
proof -
  let ?J = "bt_get (injections s)" and ?i = "PhysicalInjectionId run n"
  let ?c = "new_injection task operation g d"
  have c: "phase ?c = None" "call_state ?c = Prepared" "call_task ?c = task"
    by (simp_all add: new_injection_def)
  have "wf_calls (?J(?i \<mapsto> ?c)) (bt_get (tasks s))"
    using assms(1,4) c by (auto simp: inv_def wf_calls_def call_wf_def)
  moreover have "wf_issued (?J(?i \<mapsto> ?c))"
    using assms(1) c by (auto simp: inv_def wf_issued_def)
  moreover have "wf_txn (?J(?i \<mapsto> ?c)) (bt_get (tasks s)) (bt_get (regions s))"
  proof -
    have wf: "wf_txn ?J (bt_get (tasks s)) (bt_get (regions s))" using assms(1) by (simp add: inv_def)
    have "\<exists>x. (?J(?i \<mapsto> ?c)) j = Some x \<and> phase x \<noteq> None \<and> call_region (bt_get (tasks s)) x = Some r"
      if "bt_get (regions s) r = Some h" "transaction h = Some j" for r h j
      using wf that assms(3) unfolding wf_txn_def by (metis fun_upd_apply option.distinct(1))
    moreover have "transaction h = Some j"
      if "(?J(?i \<mapsto> ?c)) j = Some x" "phase x \<noteq> None" "call_region (bt_get (tasks s)) x = Some r"
        "bt_get (regions s) r = Some h" for r h j x
      using wf that c(1) unfolding wf_txn_def by (metis fun_upd_apply option.inject)
    ultimately show ?thesis unfolding wf_txn_def by blast
  qed
  moreover have "wf_fresh run (next_id s) (bt_get (tasks s)) (bt_get (regions s)) (?J(?i \<mapsto> ?c))
      (bt_get (accesses s)) (bt_get (freezes s))"
    using assms(1,2) by (auto simp: inv_def wf_fresh_def)
  ultimately show ?thesis using assms(1) by (simp add: inv_def wf_keys_def)
qed

text \<open>What the registration of a call relies on between its steps.\<close>

definition registering :: "u64 \<Rightarrow> u64 \<Rightarrow> InputTaskId \<Rightarrow> State \<Rightarrow> bool" where
  "registering run n task s \<longleftrightarrow> inv run s \<and> n \<le> next_id s
     \<and> bt_get (injections s) (PhysicalInjectionId run n) = None \<and> bt_get (tasks s) task \<noteq> None"

lemma insert_access_registering:
  "triple (registering run n task) (insert_access a) (\<lambda>_. registering run n task) (inv run)"
proof -
  let ?P = "\<lambda>s. n \<le> next_id s \<and> bt_get (injections s) (PhysicalInjectionId run n) = None
    \<and> bt_get (tasks s) task \<noteq> None"
  have "triple (\<lambda>s. inv run s \<and> ?P s) state_next (\<lambda>m s. inv run s \<and> ?P s \<and> unused run m s) (inv run)"
    by (rule triple_state_next) auto
  then have "triple (\<lambda>s. inv run s \<and> ?P s) (insert_access a) (\<lambda>_ s. inv run s \<and> ?P s) (inv run)"
    unfolding insert_access_def
    by (rule triple_and_then) (auto simp: triple_def unused_def intro: inv_insert_access)
  then show ?thesis by (rule triple_weaken) (auto simp: registering_def)
qed

lemma attach_declared_registering:
  "triple (registering run n task) (attach_declared_accesses i task d)
     (\<lambda>_. registering run n task) (inv run)"
  unfolding attach_declared_accesses_def
proof (rule triple_and_then [where Q = "\<lambda>_. registering run n task"])
  show "triple (registering run n task)
     (\<lambda>s. if may_create (expected_sharing d) \<and> sharing_files (expected_sharing d) \<noteq> Some False then
            (case bt_get (tasks s) task of
               None \<Rightarrow> (Panic, s)
             | Some owner \<Rightarrow> (Ok (), s\<lparr>files_possibly_shared :=
                  bt_insert (reg_files (registration owner)) True (files_possibly_shared s)\<rparr>))
          else (Ok (), s)) (\<lambda>_. registering run n task) (inv run)"
    by (auto simp: triple_def registering_def split: option.split)
next
  fix u :: unit
  have loop: "triple (registering run n task)
      (for_each (\<lambda>access. and_then (insert_access (a access)) (\<lambda>_ s. (Ok (), s))) xs)
      (\<lambda>_. registering run n task) (inv run)" for a xs
    by (rule triple_for_each, rule triple_and_then [OF insert_access_registering])
      (simp add: triple_def)
  have no_panic: "check_all (\<lambda>access. if lifetime access \<noteq> Transient
      then Err ''input-call-access-not-transient'' else validate_access s access) xs \<noteq> Panic"
    if "inv run s" for s xs
    using validate_access_not_Panic [OF that] by (intro check_all_not_Panic) auto
  show "triple (registering run n task) (\<lambda>s. try_ok
       (check_all (\<lambda>access. if lifetime access \<noteq> Transient
          then Err ''input-call-access-not-transient'' else validate_access s access) (transient d))
       (\<lambda>_. for_each (\<lambda>access. and_then (insert_access \<lparr>access_task = task,
          access_declaration = access, physical = Some i, access_operation = None,
          native_complete = False\<rparr>) (\<lambda>_ s. (Ok (), s))) (transient d)) s)
     (\<lambda>_. registering run n task) (inv run)"
  proof (intro tripleI lands_try_ok)
    fix s assume "registering run n task s"
    then show "inv run s" by (simp add: registering_def)
    then show "check_all (\<lambda>access. if lifetime access \<noteq> Transient
      then Err ''input-call-access-not-transient'' else validate_access s access) (transient d) \<noteq> Panic"
      by (rule no_panic)
  qed (rule tripleD [OF loop])
qed

lemma register_injection_triple:
  "triple (\<lambda>s. inv run s \<and> bt_get (tasks s) task \<noteq> None) (register_injection run task operation g d)
     (\<lambda>_. inv run) (inv run)"
  unfolding register_injection_def Let_def
proof (rule triple_and_then)
  show "triple (\<lambda>s. inv run s \<and> bt_get (tasks s) task \<noteq> None) state_next
      (\<lambda>n. registering run n task) (inv run)"
    by (rule triple_weaken [OF triple_state_next [where P = "\<lambda>s. bt_get (tasks s) task \<noteq> None"]])
      (auto simp: registering_def unused_def)
  fix n
  show "triple (registering run n task)
     (and_then (attach_declared_accesses (PhysicalInjectionId run n) task d) (\<lambda>_ s.
         (Ok \<lparr>receipt_run = run, receipt_id = PhysicalInjectionId run n\<rparr>,
          s\<lparr>injections := bt_insert (PhysicalInjectionId run n)
             (new_injection task operation g d) (injections s)\<rparr>))) (\<lambda>_. inv run) (inv run)"
    by (rule triple_and_then [OF attach_declared_registering])
      (auto simp: triple_def registering_def intro: inv_insert_injection)
qed

lemma keeps_prepare_injection: "keeps (inv run) (prepare_injection run scope d)"
  unfolding prepare_injection_def
  by (intro tripleI lands_try_ok tripleD [OF register_injection_triple])
    (auto simp: validate_scope_Ok live_Ok)

lemma keeps_prepare_observed_injection:
  "keeps (inv run) (prepare_observed_injection run task operation d)"
proof (rule tripleI)
  fix s assume I: "inv run s"
  then show "lands (\<lambda>_. inv run) (inv run) (prepare_observed_injection run task operation d s)"
    using tripleD [OF register_injection_triple, of run s task]
    unfolding prepare_observed_injection_def
    by (intro lands_try_ok) (auto simp: live_Ok refuse_def)
qed

lemma keeps_readmit_injection: "keeps (inv run) (readmit_injection i task g)"
  by (rule tripleI)
    (auto simp: readmit_injection_def try_ok_def ok_or_def intro!: inv_retain_access
      split: option.split outcome.split)

section \<open>Freezes\<close>

text \<open>The same tasks with the same registrations and deaths; grants and freezes may differ.\<close>

definition tasks_like :: "(InputTaskId \<rightharpoonup> Task) \<Rightarrow> (InputTaskId \<rightharpoonup> Task) \<Rightarrow> bool" where
  "tasks_like T T' \<longleftrightarrow> (\<forall>t. case T t of
     None \<Rightarrow> T' t = None
   | Some k \<Rightarrow> (\<exists>k'. T' t = Some k' \<and> registration k' = registration k
       \<and> native_terminal k' = native_terminal k))"

lemma tasks_like_Some:
  "tasks_like T T' \<Longrightarrow> T t = Some k \<Longrightarrow>
   \<exists>k'. T' t = Some k' \<and> registration k' = registration k \<and> native_terminal k' = native_terminal k"
  unfolding tasks_like_def by (auto dest: spec [of _ t])

lemma tasks_like_iff: "tasks_like T T' \<Longrightarrow> T' t = None \<longleftrightarrow> T t = None"
  unfolding tasks_like_def by (auto dest: spec [of _ t] split: option.splits)

lemma tasks_like_region: "tasks_like T T' \<Longrightarrow> call_region T' c = call_region T c"
  unfolding tasks_like_def call_region_def by (auto dest!: spec [of _ "call_task c"] split: option.splits)

lemma inv_tasks_like:
  assumes "inv run s" and like: "tasks_like (bt_get (tasks s)) (bt_get m)" and "bt_ok m"
    and "wf_tasks (bt_get m) (bt_get (regions s))"
    and "wf_freezes (bt_get m) (bt_get f) (bt_get gs)" and "bt_ok f"
    and "\<And>i. bt_get f i \<noteq> None \<Longrightarrow> i \<le> next_id s"
  shows "inv run (s\<lparr>tasks := m, freezes := f, frozen_groups := gs\<rparr>)"
proof -
  have "wf_tids (bt_get (by_tid s)) (bt_get m)"
    using assms(1) unfolding inv_def wf_tids_def by (metis tasks_like_Some [OF like])
  moreover have "wf_calls (bt_get (injections s)) (bt_get m)"
    using assms(1) tasks_like_iff [OF like] by (simp add: inv_def wf_calls_def)
  moreover have "wf_txn (bt_get (injections s)) (bt_get m) (bt_get (regions s))"
    using assms(1) tasks_like_region [OF like] by (simp add: inv_def wf_txn_def)
  moreover have "wf_fresh run (next_id s) (bt_get m) (bt_get (regions s)) (bt_get (injections s))
      (bt_get (accesses s)) (bt_get f)"
    using assms(1,7) tasks_like_iff [OF like] by (simp add: inv_def wf_fresh_def)
  ultimately show ?thesis using assms by (simp add: inv_def wf_keys_def)
qed

lemma inv_freeze_key: "inv run s \<Longrightarrow> bt_get (freezes s) i = Some m \<Longrightarrow> i \<le> next_id s"
  by (simp add: inv_def wf_fresh_def)

lemma inv_frozen_iff:
  "inv run s \<Longrightarrow> bt_get (tasks s) t = Some k \<Longrightarrow>
   i \<in> frozen k \<longleftrightarrow> (\<exists>m. bt_get (freezes s) i = Some m \<and> t \<in> m)"
  by (simp add: inv_def wf_freezes_def)

lemma inv_group_freeze:
  "inv run s \<Longrightarrow> bt_get (frozen_groups s) g = Some ids \<Longrightarrow> i \<in> ids \<Longrightarrow> \<exists>m. bt_get (freezes s) i = Some m"
  unfolding inv_def wf_freezes_def by fastforce

lemma inv_freeze:
  assumes "inv run s" and "i \<le> next_id s" and "bt_get (freezes s) i = None" and "finite members"
    and "\<And>t. t \<in> members \<Longrightarrow> bt_get (tasks s) t \<noteq> None"
  shows "inv run (s\<lparr>tasks := bt_map_on (\<lambda>t. t \<in> members)
      (\<lambda>k. k\<lparr>frozen := insert i (frozen k), task_grant := None\<rparr>) (tasks s),
    freezes := bt_insert i members (freezes s)\<rparr>)"
proof -
  let ?m = "bt_map_on (\<lambda>t. t \<in> members)
    (\<lambda>k. k\<lparr>frozen := insert i (frozen k), task_grant := None\<rparr>) (tasks s)"
  let ?f = "bt_insert i members (freezes s)"
  have "wf_freezes (bt_get ?m) (bt_get ?f) (bt_get (frozen_groups s))"
    unfolding wf_freezes_def
  proof (intro conjI allI impI)
    fix t k j assume "bt_get ?m t = Some k"
    then obtain k0 where k0: "bt_get (tasks s) t = Some k0"
        and k: "frozen k = (if t \<in> members then insert i (frozen k0) else frozen k0)"
      by (auto split: if_splits)
    show "j \<in> frozen k \<longleftrightarrow> (\<exists>m. bt_get ?f j = Some m \<and> t \<in> m)"
      using inv_frozen_iff [OF assms(1) k0, of j] assms(3) by (auto simp: k)
  next
    fix j m t assume "bt_get ?f j = Some m" "t \<in> m"
    then show "bt_get ?m t \<noteq> None"
      using assms(5) inv_member_task [OF assms(1)] by (force split: if_splits)
  next
    fix j m assume "bt_get ?f j = Some m"
    then show "finite m" using assms(1,4) by (auto simp: inv_def wf_freezes_def split: if_splits)
  next
    fix g ids j assume "bt_get (frozen_groups s) g = Some ids" "j \<in> ids"
    then show "bt_get ?f j \<noteq> None" using inv_group_freeze [OF assms(1)] by auto
  qed
  moreover have "wf_tasks (bt_get ?m) (bt_get (regions s))"
    using assms(1) by (auto simp: inv_def wf_tasks_def split: if_splits)
  moreover have "tasks_like (bt_get (tasks s)) (bt_get ?m)"
    by (auto simp: tasks_like_def split: option.split)
  ultimately have "inv run (s\<lparr>tasks := ?m, freezes := ?f, frozen_groups := frozen_groups s\<rparr>)"
    using assms(1,2) by (intro inv_tasks_like) (auto simp: inv_keys dest: inv_freeze_key split: if_splits)
  then show ?thesis by simp
qed

lemma freeze_locked_triple:
  assumes "finite members"
  shows "triple (inv run) (freeze_locked run members)
    (\<lambda>cohort s. inv run s \<and> bt_get (freezes s) (cohort_id cohort) \<noteq> None) (inv run)"
proof (rule tripleI)
  fix s assume I: "inv run s"
  show "lands (\<lambda>cohort s. inv run s \<and> bt_get (freezes s) (cohort_id cohort) \<noteq> None) (inv run)
      (freeze_locked run members s)"
  proof (cases "\<exists>t \<in> members. task_run t \<noteq> run \<or> bt_get (tasks s) t = None")
    case True
    then show ?thesis using I by (simp add: freeze_locked_def)
  next
    case False
    let ?P = "\<lambda>s. \<forall>t \<in> members. bt_get (tasks s) t \<noteq> None"
    have "triple (\<lambda>s. inv run s \<and> ?P s) state_next (\<lambda>n s. inv run s \<and> ?P s \<and> unused run n s) (inv run)"
      by (rule triple_state_next) auto
    from tripleD [OF this, of s] I False
    have "lands (\<lambda>n s. inv run s \<and> ?P s \<and> unused run n s) (inv run) (state_next s)" by auto
    then show ?thesis
      using False assms unfolding freeze_locked_def
      by (auto intro!: lands_and_then [where Q = "\<lambda>n s. inv run s \<and> ?P s \<and> unused run n s"]
          inv_freeze simp: unused_def)
  qed
qed

lemma keeps_freeze_tasks: "keeps (inv run) (freeze_tasks run ts)"
  unfolding freeze_tasks_def by (rule triple_weaken [OF freeze_locked_triple]) auto

lemma inv_frozen_groups:
  assumes "inv run s" and "\<And>g ids i. bt_get m g = Some ids \<Longrightarrow> i \<in> ids \<Longrightarrow> bt_get (freezes s) i \<noteq> None"
  shows "inv run (s\<lparr>frozen_groups := m\<rparr>)"
  using assms by (auto simp: inv_def wf_keys_def wf_freezes_def)

lemma keeps_freeze_group: "keeps (inv run) (freeze_group run task include_caller)"
proof (rule tripleI)
  fix s assume I: "inv run s"
  have fin: "finite (group_members s grp include_caller task)" for grp
    by (simp add: group_members_def)
  let ?add = "\<lambda>grp cohort t. t\<lparr>frozen_groups := bt_insert grp (insert (cohort_id cohort)
    (case bt_get (frozen_groups t) grp of None \<Rightarrow> {} | Some ids \<Rightarrow> ids)) (frozen_groups t)\<rparr>"
  have add: "inv run (?add grp cohort t)"
    if "inv run t" "bt_get (freezes t) (cohort_id cohort) \<noteq> None" for grp cohort t
    using that inv_group_freeze [OF that(1)]
    by (intro inv_frozen_groups) (auto split: if_splits option.splits)
  have "lands (\<lambda>_. inv run) (inv run)
      (and_then (freeze_locked run (group_members s grp include_caller task))
        (\<lambda>cohort t. (Ok cohort, ?add grp cohort t)) s)" for grp
    by (rule lands_and_then, rule tripleD [OF freeze_locked_triple [OF fin] I]) (simp add: add)
  then show "lands (\<lambda>_. inv run) (inv run) (freeze_group run task include_caller s)"
    unfolding freeze_group_def Let_def using I by (intro lands_try_ok) auto
qed

lemma inv_unfreeze:
  assumes "inv run s" and "bt_get (freezes s) i = Some members"
  shows "inv run (s\<lparr>
    tasks := bt_map_on (\<lambda>t. t \<in> members) (\<lambda>k. k\<lparr>frozen := frozen k - {i}\<rparr>) (tasks s),
    freezes := bt_remove i (freezes s),
    frozen_groups := bt_map (\<lambda>ids. ids - {i}) (frozen_groups s)\<rparr>)"
proof -
  let ?m = "bt_map_on (\<lambda>t. t \<in> members) (\<lambda>k. k\<lparr>frozen := frozen k - {i}\<rparr>) (tasks s)"
  let ?f = "bt_remove i (freezes s)" and ?g = "bt_map (\<lambda>ids. ids - {i}) (frozen_groups s)"
  have "wf_freezes (bt_get ?m) (bt_get ?f) (bt_get ?g)"
    unfolding wf_freezes_def
  proof (intro conjI allI impI)
    fix t k j assume "bt_get ?m t = Some k"
    then obtain k0 where k0: "bt_get (tasks s) t = Some k0"
        and k: "frozen k = (if t \<in> members then frozen k0 - {i} else frozen k0)"
      by (auto split: if_splits)
    show "j \<in> frozen k \<longleftrightarrow> (\<exists>m. bt_get ?f j = Some m \<and> t \<in> m)"
      using inv_frozen_iff [OF assms(1) k0, of j] assms(2) by (auto simp: k)
  next
    fix j m t assume "bt_get ?f j = Some m" "t \<in> m"
    then show "bt_get ?m t \<noteq> None"
      using inv_member_task [OF assms(1)] by (force split: if_splits)
  next
    fix j m assume "bt_get ?f j = Some m"
    then show "finite m" using assms(1) by (auto simp: inv_def wf_freezes_def split: if_splits)
  next
    fix g ids j assume "bt_get ?g g = Some ids" "j \<in> ids"
    then show "bt_get ?f j \<noteq> None" using inv_group_freeze [OF assms(1)] by auto
  qed
  moreover have "wf_tasks (bt_get ?m) (bt_get (regions s))"
    unfolding wf_tasks_def
  proof (intro allI impI)
    fix t k assume "bt_get ?m t = Some k"
    then obtain k0 where k0: "bt_get (tasks s) t = Some k0" "registration k = registration k0"
        "task_grant k = task_grant k0" "frozen k \<subseteq> frozen k0"
      by (auto split: if_splits)
    moreover have "frozen k \<noteq> {} \<Longrightarrow> task_grant k = None"
      using inv_frozen_grant [OF assms(1) k0(1)] k0(3,4) by (metis subset_empty)
    moreover have "wf_tasks (bt_get (tasks s)) (bt_get (regions s))" using assms(1) by (simp add: inv_def)
    ultimately show "reg_task (registration k) = t \<and> bt_get (regions s) (reg_region (registration k)) \<noteq> None
        \<and> (frozen k \<noteq> {} \<longrightarrow> task_grant k = None)"
      unfolding wf_tasks_def by simp
  qed
  moreover have "tasks_like (bt_get (tasks s)) (bt_get ?m)"
    by (auto simp: tasks_like_def split: option.split)
  ultimately have "inv run (s\<lparr>tasks := ?m, freezes := ?f, frozen_groups := ?g\<rparr>)"
    using assms(1) by (intro inv_tasks_like) (auto simp: inv_keys dest: inv_freeze_key split: if_splits)
  then show ?thesis by simp
qed

lemma remove_freeze_lands:
  assumes "inv run s" and "bt_get (freezes s) i = Some members"
  shows "lands (\<lambda>_ t. inv run t \<and> freezes t = bt_remove i (freezes s)) (inv run) (remove_freeze i members s)"
  using inv_unfreeze [OF assms] inv_member_task [OF assms]
  by (auto simp: remove_freeze_def)

lemma freezes_retire_accesses [simp]: "freezes (retire_accesses m s) = freezes s"
  by (simp add: retire_accesses_def)

lemma inv_retire_accesses: "inv run s \<Longrightarrow> inv run (retire_accesses m s)"
  unfolding retire_accesses_def by (rule inv_retain_access)

lemma settle_cohort_lands:
  assumes "inv run s" and "bt_get (freezes s) i = Some members"
  shows "lands (\<lambda>_ t. inv run t \<and> freezes t = bt_remove i (freezes s)) (inv run) (settle_cohort i s)"
proof -
  have "lands (\<lambda>_ t. inv run t \<and> freezes t = bt_remove i (freezes s)) (inv run)
    (and_then (remove_freeze i members) (\<lambda>_ s. (Ok (), retire_accesses members s)) s)"
    by (rule lands_and_then, rule remove_freeze_lands [OF assms])
      (simp add: inv_retire_accesses)
  then show ?thesis using assms(2) by (simp add: settle_cohort_def)
qed

lemma settle_loop:
  "distinct ids \<Longrightarrow> inv run s \<Longrightarrow> (\<And>i. i \<in> set ids \<Longrightarrow> bt_get (freezes s) i \<noteq> None) \<Longrightarrow>
   lands (\<lambda>_. inv run) (inv run) (for_each settle_cohort ids s)"
proof (induction ids arbitrary: s)
  case (Cons i ids)
  then obtain members where "bt_get (freezes s) i = Some members" by fastforce
  from settle_cohort_lands [OF Cons.prems(2) this]
  have "lands (\<lambda>_. inv run) (inv run) (and_then (settle_cohort i) (\<lambda>_. for_each settle_cohort ids) s)"
  proof (rule lands_and_then)
    fix u t assume "inv run t \<and> freezes t = bt_remove i (freezes s)"
    then show "lands (\<lambda>_. inv run) (inv run) (for_each settle_cohort ids t)"
      using Cons.prems by (intro Cons.IH) auto
  qed
  then show ?case by simp
qed simp

lemma finite_freeze: "inv run s \<Longrightarrow> bt_get (freezes s) i = Some m \<Longrightarrow> finite m"
  by (simp add: inv_def wf_freezes_def)

lemma keeps_settle_fenced_tasks: "keeps (inv run) (settle_fenced_tasks run ts)"
proof (rule tripleI)
  fix s assume I: "inv run s"
  have loop: "lands (\<lambda>_. inv run) (inv run) (for_each settle_cohort (completed_cohorts s fenced) s)"
    for fenced
  proof (rule settle_loop [OF _ I])
    show "distinct (completed_cohorts s fenced)"
      using bt_ok_distinct [OF inv_keys(5) [OF I]]
      unfolding completed_cohorts_def by (rule distinct_map_filter)
    show "bt_get (freezes s) i \<noteq> None" if "i \<in> set (completed_cohorts s fenced)" for i
      using that by (auto simp: completed_cohorts_def bt_in_set_iff inv_keys [OF I])
  qed
  show "lands (\<lambda>_. inv run) (inv run) (settle_fenced_tasks run ts s)"
  proof (cases "\<exists>t \<in> set ts. task_run t \<noteq> run \<or> bt_get (tasks s) t = None")
    case True
    then show ?thesis using I by (simp add: settle_fenced_tasks_def)
  next
    case False
    then have "check_members s bad e (set ts) \<noteq> Panic" for bad e
      by (intro check_members_not_Panic) auto
    then show ?thesis
      unfolding settle_fenced_tasks_def Let_def if_not_P [OF False]
      by (rule lands_try_ok) (simp_all add: I loop)
  qed
qed

lemma members_check:
  "inv run s \<Longrightarrow> bt_get (freezes s) i = Some m \<Longrightarrow> check_members s bad e m \<noteq> Panic"
  using inv_member_task by (intro check_members_not_Panic finite_freeze) fastforce+

lemma keeps_cancel_freeze_before_effect: "keeps (inv run) (cancel_freeze_before_effect run cohort)"
proof (rule tripleI)
  fix s assume I: "inv run s"
  have rm: "lands (\<lambda>_. inv run) (inv run) (remove_freeze i m s)"
    if "bt_get (freezes s) i = Some m" for i m
    by (rule lands_weaken [OF remove_freeze_lands [OF I that]]) auto
  show "lands (\<lambda>_. inv run) (inv run) (cancel_freeze_before_effect run cohort s)"
  proof (cases "cohort_run cohort = run")
    case True
    then show ?thesis
      unfolding cancel_freeze_before_effect_def
      by (simp, intro lands_try_ok) (simp_all add: I rm members_check [OF I])
  qed (simp add: cancel_freeze_before_effect_def I)
qed

lemma keeps_settle_frozen_cohort: "keeps (inv run) (settle_frozen_cohort run cohort)"
proof (rule tripleI)
  fix s assume I: "inv run s"
  have rm: "lands (\<lambda>_. inv run) (inv run)
      (and_then (remove_freeze i m) (\<lambda>_ s. (Ok (), retire_accesses m s)) s)"
    if "bt_get (freezes s) i = Some m" for i m
    by (rule lands_and_then, rule remove_freeze_lands [OF I that]) (simp add: inv_retire_accesses)
  show "lands (\<lambda>_. inv run) (inv run) (settle_frozen_cohort run cohort s)"
  proof (cases "cohort_run cohort = run")
    case True
    then show ?thesis
      unfolding settle_frozen_cohort_def
      by (simp, intro lands_try_ok) (simp_all add: I rm members_check [OF I])
  qed (simp add: settle_frozen_cohort_def I)
qed

end
