(* ===== verification/Input_Keeps_Backend.thy ===== *)
theory Input_Keeps_Backend
  imports Input_Keeps_Calls
begin

text \<open>
  Preservation for the operations of the backend: settlement, births, exec and the page
  transaction.
\<close>

section \<open>What a settlement leaves alone\<close>

definition calm :: "State \<Rightarrow> State \<Rightarrow> bool" where
  "calm s t \<longleftrightarrow> freezes t = freezes s \<and> frozen_groups t = frozen_groups s \<and> by_tid t = by_tid s
     \<and> next_id t = next_id s
     \<and> (\<forall>i. bt_get (injections t) i = None \<longleftrightarrow> bt_get (injections s) i = None)
     \<and> (\<forall>x. map_option registration (bt_get (tasks t) x) = map_option registration (bt_get (tasks s) x))"

lemma calm_refl: "reflp calm"
  by (rule reflpI) (simp add: calm_def)

lemma calm_trans: "transp calm"
  by (rule transpI) (simp add: calm_def)

lemma calm_task: "calm s t \<Longrightarrow> bt_get (tasks t) x = None \<longleftrightarrow> bt_get (tasks s) x = None"
  unfolding calm_def by (metis option.map_disc_iff)

lemma calm_finish_locked: "preserves calm (finish_locked i result)"
  by (auto simp: preserves_def calm_def finish_locked_def try_ok_def ok_or_def unwrap_def Let_def
      complete_accesses_def update_injection_def update_region_def
      split: option.split)

lemma calm_add_exposure_locked: "preserves calm (add_exposure_locked e)"
  by (auto simp: preserves_def calm_def add_exposure_locked_def split: InputTarget.split option.split)

lemma calm_finish_unknown: "preserves calm (finish_unknown i call)"
  unfolding finish_unknown_def
  by (auto split: option.split
      intro: preserves_and_then calm_trans calm_add_exposure_locked calm_finish_locked)

lemma calm_gate_call: "preserves calm (gate_call i)"
  using preservesD [OF calm_finish_unknown] preservesD [OF calm_finish_locked]
  by (auto simp: preserves_def gate_call_def try_ok_def unwrap_def retain_failure_def
      calm_def split: option.split)

lemma calm_terminal_gate_locked: "preserves calm (terminal_gate_locked task)"
  using preservesD [OF preserves_for_each [OF calm_refl calm_trans calm_gate_call]]
  by (auto simp: preserves_def terminal_gate_locked_def)

lemma calm_effects_complete_locked: "preserves calm (effects_complete_locked task)"
  unfolding effects_complete_locked_def
proof (rule preserves_and_then [OF calm_trans calm_terminal_gate_locked])
  show "preserves calm (\<lambda>s. try_ok (ok_or (bt_get (tasks s) task) ''input-task-not-owned'') (\<lambda>_ s.
         (Ok (), complete_accesses (\<lambda>a. access_task a = task)
           (update_task task (\<lambda>k. k\<lparr>native_effects_complete := True, task_grant := None\<rparr>) s))) s)"
    by (auto simp: preserves_def calm_def try_ok_def ok_or_def complete_accesses_def update_task_def
        split: option.split)
qed

section \<open>Settlement\<close>

lemma keeps_finish_unknown: "keeps (inv run) (finish_unknown i call)"
  unfolding finish_unknown_def
  by (auto split: option.split simp: unsettled_def
      intro!: triple_and_then [OF keeps_add_exposure_locked] keeps_finish_locked)

lemma inv_retain_failure: "inv run s \<Longrightarrow> inv run (retain_failure reason s)"
  by (simp add: retain_failure_def)

lemma gate_call_lands:
  assumes "inv run s" and "bt_get (injections s) i = Some call"
  shows "lands (\<lambda>_. inv run) (inv run) (gate_call i s)"
  using assms tripleD [OF keeps_finish_unknown, of run s i call]
    tripleD [OF keeps_finish_locked [of ProvedNoChild run i], of s]
  by (simp add: gate_call_def inv_retain_failure unsettled_def)

lemma cancel_call_lands:
  assumes "inv run s" and "bt_get (injections s) i = Some call"
  shows "lands (\<lambda>_. inv run) (inv run) (cancel_call i s)"
  using assms tripleD [OF keeps_finish_unknown, of run s i call]
  by (simp add: cancel_call_def inv_retain_failure)

lemma calm_cancel_call: "preserves calm (cancel_call i)"
  using preservesD [OF calm_finish_unknown]
  by (auto simp: preserves_def cancel_call_def try_ok_def unwrap_def retain_failure_def
      calm_def split: option.split)

text \<open>A loop over calls that are there.\<close>

lemma call_loop:
  assumes "\<And>s i call. inv run s \<Longrightarrow> bt_get (injections s) i = Some call \<Longrightarrow>
      lands (\<lambda>_. inv run) (inv run) (f i s)"
    and "\<And>i. preserves calm (f i)" and "inv run s"
    and "\<And>i. i \<in> set is \<Longrightarrow> bt_get (injections s) i \<noteq> None"
  shows "lands (\<lambda>_. inv run) (inv run) (for_each f is s)"
  using assms(3,4)
proof (induction "is" arbitrary: s)
  case (Cons i "is")
  then obtain call where "bt_get (injections s) i = Some call" by fastforce
  from lands_snd [OF assms(1) [OF Cons.prems(1) this], of "calm s"] preservesD [OF assms(2)]
  have "lands (\<lambda>_ t. inv run t \<and> calm s t) (\<lambda>t. inv run t \<and> calm s t) (f i s)" by blast
  then have "lands (\<lambda>_ t. inv run t \<and> calm s t) (inv run) (f i s)" by (rule lands_weaken) auto
  then have "lands (\<lambda>_. inv run) (inv run) (and_then (f i) (\<lambda>_. for_each f is) s)"
  proof (rule lands_and_then)
    fix u t assume "inv run t \<and> calm s t"
    then show "lands (\<lambda>_. inv run) (inv run) (for_each f is t)"
      using Cons.prems(2) by (intro Cons.IH) (auto simp: calm_def)
  qed
  then show ?case by simp
qed simp

lemma unfinished_calls_there:
  "inv run s \<Longrightarrow> i \<in> set (unfinished_calls s task) \<Longrightarrow> bt_get (injections s) i \<noteq> None"
  by (auto simp: unfinished_calls_def bt_in_set_iff inv_keys)

lemma keeps_terminal_gate_locked: "keeps (inv run) (terminal_gate_locked task)"
  unfolding terminal_gate_locked_def
  by (intro tripleI call_loop gate_call_lands calm_gate_call unfinished_calls_there) auto

lemma keeps_effects_complete_locked: "keeps (inv run) (effects_complete_locked task)"
  unfolding effects_complete_locked_def
  by (rule triple_and_then [OF keeps_terminal_gate_locked])
    (auto intro!: tripleI lands_try_ok inv_complete_accesses inv_update_task simp: task_kept_def)

lemma keeps_backend_cancel_injections: "keeps (inv run) (backend_cancel_injections task)"
proof (rule tripleI)
  fix s assume I: "inv run s"
  let ?s = "update_task task (\<lambda>k. k\<lparr>task_grant := None\<rparr>) s"
  have I': "inv run ?s" by (rule inv_update_task [OF I]) (simp_all add: task_kept_def)
  have "lands (\<lambda>_. inv run) (inv run) (for_each cancel_call (unfinished_calls ?s task) ?s)"
    using I' by (intro call_loop cancel_call_lands calm_cancel_call unfinished_calls_there) auto
  then show "lands (\<lambda>_. inv run) (inv run) (backend_cancel_injections task s)"
    unfolding backend_cancel_injections_def Let_def using I by (intro lands_try_ok) auto
qed

text \<open>A death: the task is marked, and its number no longer names it.\<close>

lemma wf_tids_tid: "wf_tids B T \<Longrightarrow> B n = Some t \<Longrightarrow> task_tid t = n"
  unfolding wf_tids_def by blast

lemma forget_tid_by_tid:
  assumes "wf_tids (bt_get (by_tid s)) T" and "bt_get (by_tid (forget_tid task s)) n = Some t"
  shows "bt_get (by_tid s) n = Some t" and "t \<noteq> task"
proof -
  show *: "bt_get (by_tid s) n = Some t"
    using assms(2) by (auto simp: forget_tid_def split: if_splits)
  show "t \<noteq> task"
    using assms(2) wf_tids_tid [OF assms(1) *] * by (auto simp: forget_tid_def split: if_splits)
qed

lemma forget_tid_selectors [simp]:
  "tasks (forget_tid t s) = tasks s" "regions (forget_tid t s) = regions s"
  "injections (forget_tid t s) = injections s" "accesses (forget_tid t s) = accesses s"
  "freezes (forget_tid t s) = freezes s" "frozen_groups (forget_tid t s) = frozen_groups s"
  "next_id (forget_tid t s) = next_id s" "fatal (forget_tid t s) = fatal s"
  by (simp_all add: forget_tid_def)

lemma inv_forget_tid:
  assumes "inv run s"
  shows "inv run (forget_tid task s)"
proof -
  have "wf_tids (bt_get (by_tid (forget_tid task s))) (bt_get (tasks s))"
    using assms forget_tid_by_tid(1) [of s _ task] unfolding inv_def wf_tids_def by blast
  then show ?thesis using assms by (simp add: inv_def wf_keys_def)
qed

lemma inv_mark_terminal:
  assumes "inv run s"
  shows "inv run (forget_tid task
    (update_task task (\<lambda>k. k\<lparr>native_terminal := True, task_grant := None\<rparr>) s))"
proof -
  have gone: "bt_get (by_tid (forget_tid task s)) n \<noteq> Some task" for n
    using assms forget_tid_by_tid(2) [of s "bt_get (tasks s)" task n task] unfolding inv_def by blast
  have "inv run (update_task task (\<lambda>k. k\<lparr>native_terminal := True, task_grant := None\<rparr>)
      (forget_tid task s))"
    by (rule inv_update_task_terminal [OF inv_forget_tid [OF assms]]) (simp_all add: task_kept_def gone)
  moreover have "forget_tid task (update_task task f s) = update_task task f (forget_tid task s)" for f
    by (cases s) (simp add: forget_tid_def update_task_def)
  ultimately show ?thesis by simp
qed

lemma keeps_backend_terminal: "keeps (inv run) (backend_terminal task)"
proof (rule tripleI)
  fix s assume I: "inv run s"
  have "keeps (inv run) (and_then (effects_complete_locked task)
      (\<lambda>_ s. (Ok (), complete_accesses (\<lambda>a. access_task a = task) s)))"
    by (rule triple_and_then [OF keeps_effects_complete_locked])
      (simp add: triple_def inv_complete_accesses)
  from tripleD [OF this inv_mark_terminal [OF I]]
  show "lands (\<lambda>_. inv run) (inv run) (backend_terminal task s)"
    unfolding backend_terminal_def using I by (intro lands_try_ok) auto
qed

lemma keeps_exit_effects_known: "keeps (inv run) (exit_effects_known task)"
proof (rule tripleI)
  fix s assume I: "inv run s"
  have "keeps (inv run) (and_then (effects_complete_locked task) (\<lambda>_ s. (Ok True, s)))"
    by (rule triple_and_then [OF keeps_effects_complete_locked]) (simp add: triple_def)
  from tripleD [OF this I]
  show "lands (\<lambda>_. inv run) (inv run) (exit_effects_known task s)"
    unfolding exit_effects_known_def using I by (intro lands_try_ok) auto
qed

lemma keeps_observe_exit_effects:
  assumes "\<And>f t. obs = Some f \<Longrightarrow> f t \<noteq> Panic"
  shows "keeps (inv run) (observe_exit_effects obs task)"
  unfolding observe_exit_effects_def
proof (rule triple_and_then [OF keeps_exit_effects_known])
  fix known
  have "keeps (inv run) (and_then (effects_complete_locked task) (\<lambda>_ s. (Ok True, s)))"
    by (rule triple_and_then [OF keeps_effects_complete_locked]) (simp add: triple_def)
  note known = tripleD [OF this]
  show "keeps (inv run) (if known then (\<lambda>s. (Ok True, s))
     else try_ok (ok_or obs ''input-exit-observer-unavailable'') (\<lambda>obs.
       try_ok (obs task) (\<lambda>complete.
         if \<not> complete then (\<lambda>s. (Ok False, s))
         else and_then (effects_complete_locked task) (\<lambda>_ s. (Ok True, s)))))"
    by (cases known; simp, intro tripleI lands_try_ok)
      (simp_all add: triple_def known assms split: if_splits)
qed

end
