(* ===== verification/Input_Keeps_Births.thy ===== *)
theory Input_Keeps_Births
  imports Input_Keeps_Backend
begin

text \<open>
  Preservation for births and exec: a new region and a new task carry numbers that no identity of
  the state has, and the newborn joins every freeze it inherits.
\<close>

section \<open>New regions and tasks\<close>

lemma inv_insert_region:
  assumes "inv run s" and "unused run n s" and "transaction g = None"
    and "\<And>l. layout g = Some l \<Longrightarrow> layout_valid l"
  shows "inv run (s\<lparr>regions := bt_insert (RegionLifetime run n) g (regions s)\<rparr>)"
proof -
  let ?R = "bt_get (regions s)" and ?r = "RegionLifetime run n"
  have fresh: "?R ?r = None" "n \<le> next_id s" using assms(2) by (simp_all add: unused_def)
  have old: "call_region (bt_get (tasks s)) c \<noteq> Some ?r" for c
    using inv_task_region [OF assms(1)] fresh(1) by (force simp: call_region_def)
  have "wf_txn (bt_get (injections s)) (bt_get (tasks s)) (?R(?r \<mapsto> g))"
  proof -
    have wf: "wf_txn (bt_get (injections s)) (bt_get (tasks s)) ?R" using assms(1) by (simp add: inv_def)
    have "\<exists>c. bt_get (injections s) i = Some c \<and> phase c \<noteq> None
        \<and> call_region (bt_get (tasks s)) c = Some q"
      if "(?R(?r \<mapsto> g)) q = Some h" "transaction h = Some i" for q h i
    proof -
      have "?R q = Some h" using that assms(3) by (auto split: if_splits)
      then show ?thesis using wf that(2) unfolding wf_txn_def by blast
    qed
    moreover have "transaction h = Some i"
      if "bt_get (injections s) i = Some c" "phase c \<noteq> None"
        "call_region (bt_get (tasks s)) c = Some q" "(?R(?r \<mapsto> g)) q = Some h" for q h i c
    proof -
      have "?R q = Some h" using that old [of c] by (auto split: if_splits)
      then show ?thesis using wf that(1-3) unfolding wf_txn_def by blast
    qed
    ultimately show ?thesis unfolding wf_txn_def by blast
  qed
  moreover have "wf_tasks (bt_get (tasks s)) (?R(?r \<mapsto> g))"
    using assms(1) by (simp add: inv_def wf_tasks_def)
  moreover have "wf_fresh run (next_id s) (bt_get (tasks s)) (?R(?r \<mapsto> g)) (bt_get (injections s))
      (bt_get (accesses s)) (bt_get (freezes s))"
    using assms(1) fresh(2) by (simp add: inv_def wf_fresh_def)
  moreover have "wf_layouts (?R(?r \<mapsto> g))"
    using assms(1,4) by (simp add: inv_def wf_layouts_def)
  ultimately show ?thesis using assms(1) by (simp add: inv_def wf_keys_def)
qed

lemma wf_txn_tasks:
  assumes "wf_txn J T R" and same: "\<And>i c. J i = Some c \<Longrightarrow> call_region T' c = call_region T c"
  shows "wf_txn J T' R"
proof -
  have "\<exists>c. J i = Some c \<and> phase c \<noteq> None \<and> call_region T' c = Some r"
    if "R r = Some g" "transaction g = Some i" for r g i
  proof -
    have "\<exists>c. J i = Some c \<and> phase c \<noteq> None \<and> call_region T c = Some r"
      using assms(1) that unfolding wf_txn_def by blast
    then show ?thesis using same by auto
  qed
  moreover have "transaction g = Some i"
    if "J i = Some c" "phase c \<noteq> None" "call_region T' c = Some r" "R r = Some g" for i c r g
    using assms(1) that same [OF that(1)] unfolding wf_txn_def by simp
  ultimately show ?thesis unfolding wf_txn_def by blast
qed

lemma publish_task_lands:
  assumes "inv run s" and "reg_task reg = InputTaskId run n tid"
    and "bt_get (tasks s) (InputTaskId run n tid) = None" and "n \<le> next_id s"
    and "bt_get (regions s) (reg_region reg) \<noteq> None"
    and "\<And>i. i \<in> ids \<Longrightarrow> bt_get (freezes s) i \<noteq> None"
  shows "lands (\<lambda>_. inv run) (inv run) (publish_task reg ids s)"
proof -
  let ?t = "InputTaskId run n tid" and ?T = "bt_get (tasks s)" and ?k = "new_task reg ids"
  let ?f = "bt_map_on (\<lambda>i. i \<in> ids) (insert ?t) (freezes s)"
  note fresh = assms(3,4)
  have k: "registration ?k = reg" "frozen ?k = ids" "task_grant ?k = None" "\<not> native_terminal ?k"
    by (simp_all add: new_task_def)
  have old: "call_task c \<noteq> ?t" if "bt_get (injections s) i = Some c" for i c
    using inv_call_task [OF assms(1) that] fresh(1) by auto
  have "wf_tasks (?T(?t \<mapsto> ?k)) (bt_get (regions s))"
    using assms(1,2,5) k by (simp add: inv_def wf_tasks_def)
  moreover have "wf_tids ((bt_get (by_tid s))(tid \<mapsto> ?t)) (?T(?t \<mapsto> ?k))"
  proof -
    have wf: "wf_tids (bt_get (by_tid s)) ?T" using assms(1) by (simp add: inv_def)
    have "task_tid x = m \<and> (\<exists>k'. (?T(?t \<mapsto> ?k)) x = Some k' \<and> \<not> native_terminal k')"
      if "((bt_get (by_tid s))(tid \<mapsto> ?t)) m = Some x" for m x
    proof (cases "m = tid")
      case True then show ?thesis using that k(4) by auto
    next
      case False
      then have x: "bt_get (by_tid s) m = Some x" using that by simp
      then obtain k' where "task_tid x = m" "?T x = Some k'" "\<not> native_terminal k'"
        using wf unfolding wf_tids_def by blast
      then show ?thesis using fresh(1) by auto
    qed
    then show ?thesis unfolding wf_tids_def by blast
  qed
  moreover have "wf_calls (bt_get (injections s)) (?T(?t \<mapsto> ?k))"
    using assms(1) by (simp add: inv_def wf_calls_def)
  moreover have "wf_txn (bt_get (injections s)) (?T(?t \<mapsto> ?k)) (bt_get (regions s))"
  proof (rule wf_txn_tasks)
    show "wf_txn (bt_get (injections s)) ?T (bt_get (regions s))" using assms(1) by (simp add: inv_def)
    show "call_region (?T(?t \<mapsto> ?k)) c = call_region ?T c" if "bt_get (injections s) i = Some c" for i c
      using old [OF that] by (simp add: call_region_def)
  qed
  moreover have "wf_freezes (?T(?t \<mapsto> ?k)) (bt_get ?f) (bt_get (frozen_groups s))"
    unfolding wf_freezes_def
  proof (intro conjI allI impI)
    fix x k' i assume x: "(?T(?t \<mapsto> ?k)) x = Some k'"
    show "i \<in> frozen k' \<longleftrightarrow> (\<exists>m. bt_get ?f i = Some m \<and> x \<in> m)"
    proof (cases "x = ?t")
      case True
      then have ids: "frozen k' = ids" using x k(2) by simp
      have "x \<notin> m" if "bt_get (freezes s) i = Some m" for m
        using inv_member_task [OF assms(1) that, of x] fresh(1) True by auto
      then show ?thesis using True assms(6) [of i] ids by (cases "i \<in> ids") auto
    next
      case False
      then show ?thesis using x inv_frozen_iff [OF assms(1), of x k' i] by auto
    qed
  next
    fix i m x assume "bt_get ?f i = Some m" "x \<in> m"
    then show "(?T(?t \<mapsto> ?k)) x \<noteq> None"
      using inv_member_task [OF assms(1), of i _ x] by (force split: if_splits)
  next
    fix i m assume "bt_get ?f i = Some m"
    then show "finite m" using finite_freeze [OF assms(1), of i] by (auto split: if_splits)
  next
    fix g js i assume "bt_get (frozen_groups s) g = Some js" "i \<in> js"
    then show "bt_get ?f i \<noteq> None" using inv_group_freeze [OF assms(1)] by auto
  qed
  moreover have "wf_fresh run (next_id s) (?T(?t \<mapsto> ?k)) (bt_get (regions s))
      (bt_get (injections s)) (bt_get (accesses s)) (bt_get ?f)"
    using assms(1) fresh(2) by (simp add: inv_def wf_fresh_def)
  ultimately have "inv run (s\<lparr>by_tid := bt_insert tid ?t (by_tid s), freezes := ?f,
      tasks := bt_insert ?t ?k (tasks s)\<rparr>)"
    using assms(1) by (simp add: inv_def wf_keys_def)
  then show ?thesis
    using assms(2,6) by (auto simp: publish_task_def Let_def)
qed

section \<open>Births\<close>

text \<open>A chain that first takes new numbers: each is unused, and stays so while others are taken.\<close>

lemma lands_next:
  assumes "inv run s" and "P s" and "\<And>s n. P s \<Longrightarrow> next_id s < n \<Longrightarrow> P (s\<lparr>next_id := n\<rparr>)"
    and "\<And>n t. inv run t \<Longrightarrow> P t \<Longrightarrow> unused run n t \<Longrightarrow> lands Q (inv run) (f n t)"
  shows "lands Q (inv run) (and_then state_next f s)"
proof (rule lands_and_then)
  show "lands (\<lambda>n t. inv run t \<and> P t \<and> unused run n t) (inv run) (state_next s)"
    using tripleD [OF triple_state_next [of P run], of s] assms by auto
qed (use assms(4) in auto)

lemma lands_effect: "lands Q E (f () (g s)) \<Longrightarrow> lands Q E (and_then (\<lambda>s. (Ok (), g s)) f s)"
  by (simp add: and_then_def)

lemma unused_next: "unused run n s \<Longrightarrow> next_id s < m \<Longrightarrow> unused run n (s\<lparr>next_id := m\<rparr>)"
  by (auto simp: unused_def)

lemma inv_new_region:
  "inv run s \<Longrightarrow> unused run n s \<Longrightarrow>
   inv run (s\<lparr>regions := bt_insert (RegionLifetime run n) default_region (regions s)\<rparr>)"
  by (rule inv_insert_region) (simp_all add: default_region_def)

lemma keeps_backend_register_root: "keeps (inv run) (backend_register_root run tid pid)"
proof (rule tripleI)
  fix s assume I: "inv run s"
  have publish: "lands (\<lambda>_. inv run) (inv run)
      (publish_task reg {} (t\<lparr>regions := bt_insert (reg_region reg) default_region (regions t),
         files_possibly_shared := v, groups_may_have_other_threads := w\<rparr>))"
    if "inv run t" "unused run n t" "unused run m t" "reg_task reg = InputTaskId run n tid"
      "reg_region reg = RegionLifetime run m" for t n m reg v w
    using that inv_new_region [of run t m]
    by (intro publish_task_lands) (auto simp: unused_def)
  show "lands (\<lambda>_. inv run) (inv run) (backend_register_root run tid pid s)"
  proof (cases "bt_get (by_tid s) tid")
    case (Some t)
    then show ?thesis using I by (simp add: backend_register_root_def)
  next
    case None
    then show ?thesis
      unfolding backend_register_root_def Let_def
      apply (simp only: simp_thms if_False)
      apply (rule lands_next [where P = "\<lambda>_. True", OF I], simp, simp)
      subgoal for g1 t1
        apply (rule lands_next [where P = "unused run g1"], assumption, assumption, erule (1) unused_next)
        subgoal for g2 t2
          apply (rule lands_next [where P = "\<lambda>s. unused run g1 s \<and> unused run g2 s"], assumption,
              simp, simp add: unused_next)
          apply (rule lands_next [where P = "\<lambda>s. unused run g1 s \<and> unused run g2 s"], assumption,
              simp, simp add: unused_next)
          apply (intro lands_effect lands_and_then [where Q = "\<lambda>_. inv run"])
           apply (rule publish [where n = g1 and m = g2]; simp)
          apply simp
          done
        done
      done
  qed
qed

text \<open>What a birth relies on between its steps: the parent and the newborn's region are there.\<close>

definition has_parent :: "InputTaskId \<Rightarrow> Task \<Rightarrow> RegionLifetime \<Rightarrow> State \<Rightarrow> bool" where
  "has_parent par k r s \<longleftrightarrow> bt_get (tasks s) par = Some k \<and> bt_get (regions s) r \<noteq> None"

lemma has_parent_kept [simp]:
  "has_parent par k r (s\<lparr>next_id := n\<rparr>) = has_parent par k r s"
  "has_parent par k r (s\<lparr>files_possibly_shared := v\<rparr>) = has_parent par k r s"
  "has_parent par k r (s\<lparr>groups_may_have_other_threads := w\<rparr>) = has_parent par k r s"
  "has_parent par k r (s\<lparr>regions_may_have_other_processes := x\<rparr>) = has_parent par k r s"
  "has_parent par k r (update_region q f s) = has_parent par k r s"
  by (auto simp: has_parent_def)

lemma inv_region_layout:
  "inv run s \<Longrightarrow> bt_get (regions s) r = Some g \<Longrightarrow> layout g = Some l \<Longrightarrow> layout_valid l"
  by (simp add: inv_def wf_layouts_def)

lemma child_region_lands:
  assumes "inv run s" and "bt_get (tasks s) par = Some k"
  shows "lands (\<lambda>r t. inv run t \<and> has_parent par k r t) (inv run)
    (child_region run (reg_region (registration k)) memory_shared s)"
proof (cases "memory_shared = Some False")
  case False
  then show ?thesis
    using assms inv_task_region [OF assms] by (auto simp: child_region_def has_parent_def)
next
  case True
  let ?pr = "reg_region (registration k)"
  let ?P = "\<lambda>s. bt_get (tasks s) par = Some k \<and> bt_get (regions s) ?pr \<noteq> None"
  show ?thesis
    unfolding child_region_def if_P [OF True]
  proof (rule lands_next [where P = ?P, OF assms(1)])
    show "?P s" using assms(2) inv_task_region [OF assms] by auto
    fix n t assume t: "inv run t" "?P t" "unused run n t"
    then obtain pr where pr: "bt_get (regions t) ?pr = Some pr" by auto
    let ?c = "pr\<lparr>transaction := None,
      exposures := map (\<lambda>e. e\<lparr>exposure_target := Region (RegionLifetime run n)\<rparr>) (exposures pr)\<rparr>"
    have "inv run (t\<lparr>regions := bt_insert (RegionLifetime run n) ?c (regions t)\<rparr>)"
      using t inv_region_layout [OF t(1) pr] by (intro inv_insert_region) auto
    then show "lands (\<lambda>r t. inv run t \<and> has_parent par k r t) (inv run)
       (try_ok (unwrap (bt_get (regions t) ?pr)) (\<lambda>pr s.
            let r = RegionLifetime run n;
                copied = pr\<lparr>transaction := None,
                  exposures := map (\<lambda>e. e\<lparr>exposure_target := Region r\<rparr>) (exposures pr)\<rparr>
            in (Ok r, s\<lparr>regions := bt_insert r copied (regions s)\<rparr>)) t)"
      using pr t(2) by (simp add: Let_def has_parent_def)
  qed auto
qed

lemma child_files_lands:
  assumes "inv run s" and "has_parent par k r s"
  shows "lands (\<lambda>_ t. inv run t \<and> has_parent par k r t) (inv run) (child_files run fs files_shared s)"
proof -
  have "lands (\<lambda>_ t. inv run t \<and> has_parent par k r t) (inv run)
    ((if files_shared = Some False then and_then state_next (\<lambda>g s. (Ok (FileTableLifetime run g), s))
      else (\<lambda>s. (Ok fs, s))) s)"
    using assms lands_next [OF assms(1), where P = "has_parent par k r"
        and f = "\<lambda>g s. (Ok (FileTableLifetime run g), s)"]
    by auto
  then show ?thesis unfolding child_files_def by (rule lands_and_then) auto
qed

lemma child_group_lands:
  assumes "inv run s" and "has_parent par k r s" and "unused run n s"
  shows "lands (\<lambda>_ t. inv run t \<and> has_parent par k r t \<and> unused run n t) (inv run)
    (child_group run preg pid s)"
  using assms lands_next [OF assms(1), where P = "\<lambda>s. has_parent par k r s \<and> unused run n s"
      and f = "\<lambda>g s. (Ok (ThreadGroupLifetime run g), s)"]
  by (auto simp: child_group_def unused_next)

lemma note_child_sharing_lands:
  assumes "inv run s" and "has_parent par k r s" and "unused run n s"
  shows "lands (\<lambda>_ t. inv run t \<and> has_parent par k r t \<and> unused run n t) (inv run)
    (note_child_sharing preg pid grp r memory_shared s)"
proof -
  obtain g where g: "bt_get (regions s) r = Some g" using assms(2) by (auto simp: has_parent_def)
  have region: "inv run (update_region r (\<lambda>region. region\<lparr>exposures := exposures region @ es\<rparr>) t)"
    if "inv run t" for t es
    by (rule inv_update_region [OF that]) auto
  have unused: "unused run n (update_region r f t)" if "unused run n t" for f t
    using that by (auto simp: unused_def update_region_def)
  have others: "unused run n (t\<lparr>groups_may_have_other_threads := v\<rparr>) = unused run n t"
    "unused run n (t\<lparr>regions_may_have_other_processes := w\<rparr>) = unused run n t" for t v w
    by (simp_all add: unused_def)
  show ?thesis
    using assms g by (auto simp: note_child_sharing_def Let_def region unused others)
qed

lemma inherited_freezes:
  assumes "inv run s" and "has_parent par k r s" and "i \<in> frozen k \<union> group_freezes s grp"
  shows "bt_get (freezes s) i \<noteq> None"
  using assms inv_frozen_iff [of run s par k i] inv_group_freeze [of run s grp]
  by (auto simp: has_parent_def group_freezes_def split: option.splits)

text \<open>The descriptor-table observer only uses operations of the registry.\<close>

definition observer_ok :: "u64 \<Rightarrow> files_observer \<Rightarrow> bool" where
  "observer_ok run obs \<longleftrightarrow> (case obs of None \<Rightarrow> True | Some f \<Rightarrow> \<forall>e. keeps (inv run) (f e))"

lemma observe_files_lands:
  assumes "inv run s" and "observer_ok run obs"
  shows "lands (\<lambda>_. inv run) (inv run) (observe_files obs event s)"
  using assms by (auto simp: observe_files_def observer_ok_def triple_def split: option.split)

lemma retain_newborn_lands:
  assumes "inv run s" and "bt_get (tasks s) par = Some k"
    and obs: "observer_ok run obs"
  shows "lands (\<lambda>_. inv run) (inv run)
    (retain_newborn run obs par k tid pid memory_shared files_shared s)"
  unfolding retain_newborn_def Let_def
proof (rule lands_and_then, rule child_region_lands [OF assms(1,2)])
  fix r t assume t: "inv run t \<and> has_parent par k r t"
  let ?preg = "registration k"
  let ?reg = "\<lambda>g grp fs. \<lparr>reg_task = InputTaskId run g tid, native_tid = tid, native_pid = pid,
     tool_tid = None, tool_pid = None, reg_group = grp, reg_parent = Some par,
     reg_region = r, reg_files = fs\<rparr>"
  have publish: "lands (\<lambda>_. inv run) (inv run)
      (publish_task (?reg g grp fs) (frozen k \<union> group_freezes u grp) u)"
    if "inv run u \<and> has_parent par k r u \<and> unused run g u" for g grp fs u
    using that inherited_freezes [of run u par k r _ grp]
    by (intro publish_task_lands) (auto simp: has_parent_def unused_def)
  have rest: "lands (\<lambda>_. inv run) (inv run)
     (and_then (note_child_sharing ?preg pid grp r memory_shared) (\<lambda>_.
      and_then (\<lambda>s. publish_task (?reg g grp fs) (frozen k \<union> group_freezes s grp) s) (\<lambda>_.
      and_then (observe_files obs (event g grp fs)) (\<lambda>_ s. (Ok (?reg g grp fs), s)))) u)"
    if "inv run u \<and> has_parent par k r u \<and> unused run g u" for g grp fs event u
  proof (rule lands_and_then [where Q = "\<lambda>_ t. inv run t \<and> has_parent par k r t \<and> unused run g t"])
    show "lands (\<lambda>_ t. inv run t \<and> has_parent par k r t \<and> unused run g t) (inv run)
        (note_child_sharing ?preg pid grp r memory_shared u)"
      using that by (intro note_child_sharing_lands) auto
    fix a :: unit and v assume "inv run v \<and> has_parent par k r v \<and> unused run g v"
    then have "lands (\<lambda>_. inv run) (inv run)
        (publish_task (?reg g grp fs) (frozen k \<union> group_freezes v grp) v)"
      by (rule publish)
    then show "lands (\<lambda>_. inv run) (inv run)
       (and_then (\<lambda>s. publish_task (?reg g grp fs) (frozen k \<union> group_freezes s grp) s) (\<lambda>_.
        and_then (observe_files obs (event g grp fs)) (\<lambda>_ s. (Ok (?reg g grp fs), s))) v)"
    proof (rule lands_and_then)
      fix b :: unit and w assume "inv run w"
      from observe_files_lands [OF this obs, of "event g grp fs"]
      show "lands (\<lambda>_. inv run) (inv run)
        (and_then (observe_files obs (event g grp fs)) (\<lambda>_ s. (Ok (?reg g grp fs), s)) w)"
        by (rule lands_and_then) simp
    qed
  qed
  show "lands (\<lambda>_. inv run) (inv run)
     (and_then (child_files run (reg_files ?preg) files_shared) (\<lambda>fs.
      and_then state_next (\<lambda>g.
      and_then (child_group run ?preg pid) (\<lambda>grp.
      and_then (note_child_sharing ?preg pid grp r memory_shared) (\<lambda>_.
      and_then (\<lambda>s. publish_task (?reg g grp fs) (frozen k \<union> group_freezes s grp) s) (\<lambda>_.
      and_then (observe_files obs \<lparr>event_source = ?preg, event_destination = ?reg g grp fs,
          event_shared = files_shared, event_exec = False\<rparr>) (\<lambda>_ s. (Ok (?reg g grp fs), s))))))) t)"
  proof (rule lands_and_then, rule child_files_lands)
    fix fs u assume u: "inv run u \<and> has_parent par k r u"
    show "lands (\<lambda>_. inv run) (inv run) (and_then state_next (\<lambda>g.
      and_then (child_group run ?preg pid) (\<lambda>grp.
      and_then (note_child_sharing ?preg pid grp r memory_shared) (\<lambda>_.
      and_then (\<lambda>s. publish_task (?reg g grp fs) (frozen k \<union> group_freezes s grp) s) (\<lambda>_.
      and_then (observe_files obs \<lparr>event_source = ?preg, event_destination = ?reg g grp fs,
          event_shared = files_shared, event_exec = False\<rparr>) (\<lambda>_ s. (Ok (?reg g grp fs), s)))))) u)"
    proof (rule lands_next [where P = "has_parent par k r"])
      fix g v assume "inv run v" "has_parent par k r v" "unused run g v"
      from child_group_lands [OF this, of ?preg pid]
      show "lands (\<lambda>_. inv run) (inv run) (and_then (child_group run ?preg pid) (\<lambda>grp.
        and_then (note_child_sharing ?preg pid grp r memory_shared) (\<lambda>_.
        and_then (\<lambda>s. publish_task (?reg g grp fs) (frozen k \<union> group_freezes s grp) s) (\<lambda>_.
        and_then (observe_files obs \<lparr>event_source = ?preg, event_destination = ?reg g grp fs,
          event_shared = files_shared, event_exec = False\<rparr>) (\<lambda>_ s. (Ok (?reg g grp fs), s))))) v)"
        by (rule lands_and_then) (rule rest [where event = "\<lambda>g grp fs. \<lparr>event_source = ?preg,
          event_destination = ?reg g grp fs, event_shared = files_shared, event_exec = False\<rparr>"])
    qed (use u in auto)
  qed (use t in auto)
qed

lemma keeps_backend_register_child:
  assumes "observer_ok run obs"
  shows "keeps (inv run) (backend_register_child run obs par tid pid memory_shared files_shared)"
proof (rule tripleI)
  fix s assume I: "inv run s"
  show "lands (\<lambda>_. inv run) (inv run)
      (backend_register_child run obs par tid pid memory_shared files_shared s)"
    unfolding backend_register_child_def
  proof (rule lands_try_ok)
    fix k assume "live s par = Ok k"
    then have "bt_get (tasks s) par = Some k" by (simp add: live_Ok)
    note newborn = retain_newborn_lands [OF I this assms]
    show "lands (\<lambda>_. inv run) (inv run) (case bt_get (by_tid s) tid of
         Some existing \<Rightarrow>
           try_ok (unwrap (bt_get (tasks s) existing)) (\<lambda>k s.
             if reg_parent (registration k) = Some par \<and> native_pid (registration k) = pid
             then (Ok (registration k), s)
             else (Err ''input-child-owner-conflict'', s)) s
       | None \<Rightarrow> retain_newborn run obs par k tid pid memory_shared files_shared s)"
      using newborn I inv_tid_task [OF I, of tid]
      by (auto split: option.split intro!: lands_try_ok)
  qed (use I in auto)
qed

section \<open>Exec\<close>

definition frozen_in :: "u64 set \<Rightarrow> State \<Rightarrow> bool" where
  "frozen_in ids s \<longleftrightarrow> (\<forall>i \<in> ids. bt_get (freezes s) i \<noteq> None)"

lemma frozen_in_next [simp]: "frozen_in ids (s\<lparr>next_id := n\<rparr>) = frozen_in ids s"
  by (simp add: frozen_in_def)

lemma frozen_in_calm: "frozen_in ids s \<Longrightarrow> calm s t \<Longrightarrow> frozen_in ids t"
  by (simp add: frozen_in_def calm_def)

text \<open>The last part of an exec: numbers, the empty region, the two old numbers, the new image.\<close>

lemma retain_image_lands:
  assumes "inv run s" and "frozen_in ids s" and obs: "observer_ok run obs"
  shows "lands (\<lambda>_. inv run) (inv run)
    (retain_image run obs displaced former old_leader old_former ids s)"
proof -
  let ?reg = "\<lambda>g1 g2 g3. old_former\<lparr>reg_task := InputTaskId run g1 (native_tid old_leader),
     native_tid := native_tid old_leader, native_pid := native_pid old_leader, tool_tid := None,
     tool_pid := None, reg_region := RegionLifetime run g2, reg_files := FileTableLifetime run g3\<rparr>"
  let ?prep = "\<lambda>g2 g3 s. forget_tid former (forget_tid displaced
     (s\<lparr>regions := bt_insert (RegionLifetime run g2) default_region (regions s),
        files_possibly_shared := bt_insert (FileTableLifetime run g3) False (files_possibly_shared s)\<rparr>))"
  have publish: "lands (\<lambda>_. inv run) (inv run) (publish_task (?reg g1 g2 g3) ids (?prep g2 g3 t))"
    if "inv run t" "unused run g1 t" "unused run g2 t" "frozen_in ids t" for g1 g2 g3 t
  proof (rule publish_task_lands)
    have "inv run (t\<lparr>regions := bt_insert (RegionLifetime run g2) default_region (regions t)\<rparr>)"
      using that by (intro inv_new_region)
    then show "inv run (?prep g2 g3 t)" by (intro inv_forget_tid) simp
  qed (use that in \<open>auto simp: unused_def frozen_in_def\<close>)
  have rest: "lands (\<lambda>_. inv run) (inv run)
     (and_then (\<lambda>s. (Ok (), ?prep g2 g3 s)) (\<lambda>_.
      and_then (publish_task (?reg g1 g2 g3) ids) (\<lambda>_.
      and_then (observe_files obs event) (\<lambda>_ s. (Ok (?reg g1 g2 g3), s)))) t)"
    if "inv run t" "unused run g1 t" "unused run g2 t" "frozen_in ids t" for g1 g2 g3 t event
  proof (rule lands_effect, rule lands_and_then, rule publish [OF that])
    fix u :: unit and v assume "inv run v"
    from observe_files_lands [OF this obs, of event]
    show "lands (\<lambda>_. inv run) (inv run)
        (and_then (observe_files obs event) (\<lambda>_ s. (Ok (?reg g1 g2 g3), s)) v)"
      by (rule lands_and_then) simp
  qed
  show ?thesis
    unfolding retain_image_def Let_def
    apply (rule lands_next [where P = "frozen_in ids", OF assms(1,2)], simp)
    subgoal for g1 t1
      apply (rule lands_next [where P = "\<lambda>s. frozen_in ids s \<and> unused run g1 s"], assumption,
          simp, simp add: unused_next)
      subgoal for g2 t2
        apply (rule lands_next [where P = "\<lambda>s. frozen_in ids s \<and> unused run g1 s \<and> unused run g2 s"],
            assumption, simp, simp add: unused_next)
        apply (rule rest; simp)
        done
      done
    done
qed

lemma effects_complete_calm:
  assumes "inv run s"
  shows "lands (\<lambda>_ t. inv run t \<and> calm s t) (inv run) (effects_complete_locked task s)"
  by (rule lands_weaken [OF lands_snd [OF tripleD [OF keeps_effects_complete_locked assms],
        of "calm s"]]) (auto intro: preservesD [OF calm_effects_complete_locked])

lemma group_freezes_in: "inv run s \<Longrightarrow> frozen_in (group_freezes s grp) s"
  using inv_group_freeze [of run s grp] by (auto simp: frozen_in_def group_freezes_def split: option.splits)

lemma keeps_backend_exec_replacement:
  assumes "observer_ok run obs"
  shows "keeps (inv run) (backend_exec_replacement run obs displaced former)"
proof (rule tripleI)
  fix s assume I: "inv run s"
  have second: "lands (\<lambda>_ u. inv run u \<and> calm t u) (inv run)
      ((if former \<noteq> displaced then effects_complete_locked former else (\<lambda>s. (Ok (), s))) t)"
    if "inv run t" for t
    using effects_complete_calm [OF that] that by (auto simp: calm_def)
  have body: "lands (\<lambda>_. inv run) (inv run)
      (and_then (effects_complete_locked displaced) (\<lambda>_.
       and_then (if former \<noteq> displaced then effects_complete_locked former else (\<lambda>s. (Ok (), s))) (\<lambda>_.
         retain_image run obs displaced former old_leader old_former (group_freezes s grp))) s)"
    for old_leader old_former grp
  proof (rule lands_and_then, rule effects_complete_calm [OF I])
    fix u :: unit and t assume t: "inv run t \<and> calm s t"
    show "lands (\<lambda>_. inv run) (inv run)
       (and_then (if former \<noteq> displaced then effects_complete_locked former else (\<lambda>s. (Ok (), s))) (\<lambda>_.
         retain_image run obs displaced former old_leader old_former (group_freezes s grp)) t)"
    proof (rule lands_and_then, rule second)
      fix u :: unit and v assume "inv run v \<and> calm t v"
      moreover have "frozen_in (group_freezes s grp) v"
        using group_freezes_in [OF I] t calculation by (blast intro: frozen_in_calm)
      ultimately show "lands (\<lambda>_. inv run) (inv run)
          (retain_image run obs displaced former old_leader old_former (group_freezes s grp) v)"
        using assms by (intro retain_image_lands) auto
    qed (use t in simp)
  qed
  show "lands (\<lambda>_. inv run) (inv run) (backend_exec_replacement run obs displaced former s)"
    unfolding backend_exec_replacement_def Let_def
    by (cases "fatal s = None", simp_all only: simp_thms if_True if_False lands.simps I)
      (intro lands_try_ok; simp only: if_split lands.simps I body ok_or_simps simp_thms)
qed

end
