(* ===== verification/Input_Keeps_Txn.thy ===== *)
theory Input_Keeps_Txn
  imports Input_Keeps_Births
begin

text \<open>
  Preservation for the page transaction of a physical call and for the outcomes of calls.
\<close>

section \<open>Preparation\<close>

lemma wf_txn_begin:
  assumes "wf_txn J T R" and "J i = Some c" and "phase c = None" and "call_task c' = call_task c"
    and "phase c' \<noteq> None" and "call_region T c = Some r" and "R r = Some g" and "transaction g = None"
  shows "wf_txn (J(i \<mapsto> c')) T (R(r \<mapsto> g\<lparr>transaction := Some i\<rparr>))" (is "wf_txn ?J T ?R")
proof -
  have region: "call_region T c' = Some r" using assms(4,6) by (simp add: call_region_def)
  have "\<exists>d. ?J k = Some d \<and> phase d \<noteq> None \<and> call_region T d = Some q"
    if "?R q = Some h" "transaction h = Some k" for q h k
  proof (cases "q = r")
    case True
    then have "k = i" using that by auto
    then show ?thesis using True region assms(5) by simp
  next
    case False
    then have "\<exists>d. J k = Some d \<and> phase d \<noteq> None \<and> call_region T d = Some q"
      using assms(1) that unfolding wf_txn_def by simp
    then show ?thesis using assms(2,3) by auto
  qed
  moreover have "transaction h = Some k"
    if "?J k = Some d" "phase d \<noteq> None" "call_region T d = Some q" "?R q = Some h" for k d q h
  proof (cases "k = i")
    case True
    then have "q = r" using that region by auto
    then show ?thesis using that(4) True by auto
  next
    case False
    then have k: "J k = Some d" using that(1) by simp
    have "q \<noteq> r"
    proof
      assume "q = r"
      then have "transaction g = Some k" using assms(1,7) k that(2,3) unfolding wf_txn_def by blast
      then show False using assms(8) by simp
    qed
    then show ?thesis using assms(1) k that unfolding wf_txn_def by simp
  qed
  ultimately show ?thesis unfolding wf_txn_def by blast
qed

lemma inv_begin_preparation:
  assumes "inv run s" and "bt_get (injections s) i = Some c" and "phase c = None"
    and "call_state c = Prepared" and "bt_get (tasks s) (call_task c) = Some k"
    and "bt_get (regions s) (reg_region (registration k)) = Some g" and "transaction g = None"
  shows "inv run (update_injection i (\<lambda>c. c\<lparr>phase := Some Preparing, call_image := Some img\<rparr>)
    (update_region (reg_region (registration k)) (\<lambda>g. g\<lparr>transaction := Some i\<rparr>) s))" (is "inv run ?s")
proof -
  let ?J = "bt_get (injections s)" and ?R = "bt_get (regions s)" and ?r = "reg_region (registration k)"
  let ?c = "c\<lparr>phase := Some Preparing, call_image := Some img\<rparr>"
  let ?g = "g\<lparr>transaction := Some i\<rparr>"
  have J: "bt_get (injections ?s) = ?J(i \<mapsto> ?c)" and R: "bt_get (regions ?s) = ?R(?r \<mapsto> ?g)"
    and same: "tasks ?s = tasks s" "by_tid ?s = by_tid s" "accesses ?s = accesses s"
      "freezes ?s = freezes s" "frozen_groups ?s = frozen_groups s" "next_id ?s = next_id s"
    using assms(2,6) by (simp_all add: update_injection_def update_region_def)
  have keys: "wf_keys ?s"
    using assms(1) by (simp add: inv_def wf_keys_def update_injection_def update_region_def)
  have "wf_tasks (bt_get (tasks s)) (?R(?r \<mapsto> ?g))"
    using assms(1) by (simp add: inv_def wf_tasks_def)
  moreover have "wf_calls (?J(i \<mapsto> ?c)) (bt_get (tasks s))"
    using assms(1,4,5) by (simp add: inv_def wf_calls_def call_wf_def unsettled_def)
  moreover have "wf_issued (?J(i \<mapsto> ?c))"
    using assms(1,2,4) by (intro wf_issued_upd [where c = c]) (auto simp: inv_def)
  moreover have "wf_txn (?J(i \<mapsto> ?c)) (bt_get (tasks s)) (?R(?r \<mapsto> ?g))"
    using assms by (intro wf_txn_begin [where c = c]) (auto simp: inv_def call_region_def)
  moreover have "wf_fresh run (next_id s) (bt_get (tasks s)) (?R(?r \<mapsto> ?g)) (?J(i \<mapsto> ?c))
      (bt_get (accesses s)) (bt_get (freezes s))"
    using assms(1,2,6) by (simp add: inv_def wf_fresh_def)
  moreover have "wf_layouts (?R(?r \<mapsto> ?g))"
    using assms(1,6) by (simp add: inv_def wf_layouts_def)
  ultimately show ?thesis using assms(1) keys unfolding inv_def J R same by simp
qed

lemma keeps_backend_set_layout: "keeps (inv run) (backend_set_layout task l)"
proof (rule tripleI)
  fix s assume I: "inv run s"
  have "inv run (update_region r (\<lambda>region. region\<lparr>layout := Some l\<rparr>) s)" if "layout_valid l" for r
    using that by (intro inv_update_region [OF I]) auto
  then show "lands (\<lambda>_. inv run) (inv run) (backend_set_layout task l s)"
    unfolding backend_set_layout_def using I inv_task_region [OF I]
    by (intro lands_try_ok) (auto simp: validate_Ok live_Ok)
qed

lemma keeps_backend_begin_preparation:
  "keeps (inv run) (backend_begin_preparation run receipt scope img)"
proof (rule tripleI)
  fix s assume I: "inv run s"
  show "lands (\<lambda>_. inv run) (inv run) (backend_begin_preparation run receipt scope img s)"
    unfolding backend_begin_preparation_def Let_def
  proof (intro lands_try_ok)
    fix u k g assume k: "live s (scope_task scope) = Ok k"
      and g: "unwrap (bt_get (regions s) (reg_region (registration k))) = Ok g"
    show "lands (\<lambda>_. inv run) (inv run)
       (if transaction g \<noteq> None then (Err ''input-transaction-busy'', s)
        else if layout g \<noteq> Some (image_layout img) then (Err ''input-layout-not-authenticated'', s)
        else try_ok (ok_or (bt_get (injections s) (receipt_id receipt)) ''input-call-missing'') (\<lambda>call s.
           if call_task call \<noteq> scope_task scope \<or> call_operation call \<noteq> scope_operation scope
              \<or> call_grant call \<noteq> scope_grant scope \<or> call_state call \<noteq> Prepared \<or> phase call \<noteq> None
           then (Err ''input-transaction-binding'', s)
           else (Ok (), update_injection (receipt_id receipt)
                (\<lambda>c. c\<lparr>phase := Some Preparing, call_image := Some img\<rparr>)
                (update_region (reg_region (registration k))
                  (\<lambda>g. g\<lparr>transaction := Some (receipt_id receipt)\<rparr>) s))) s)"
      using I k g inv_begin_preparation [OF I, of "receipt_id receipt" _ k g img]
      by (auto simp: live_Ok intro!: lands_try_ok)
  qed (use I in \<open>auto simp: live_Ok dest: inv_task_region\<close>)
qed

section \<open>Phases\<close>

text \<open>A step of the phase that is not the first and not the last.\<close>

lemma inv_advance:
  assumes "inv run s" and "bt_get (injections s) i = Some c" and "phase c \<noteq> None"
    and "phase (f c) \<noteq> None" and "call_task (f c) = call_task c" and "call_state (f c) = call_state c"
    and "call_wf (f c)"
  shows "inv run (update_injection i f s)"
  using assms by (intro inv_update_injection [OF assms(1,2)]) auto

lemma keeps_backend_prepared_stopped: "keeps (inv run) (backend_prepared_stopped i)"
proof (rule tripleI)
  fix s assume I: "inv run s"
  have step: "inv run (update_injection i (\<lambda>c. c\<lparr>phase := Some PreparedStopped\<rparr>) s)"
    if "bt_get (injections s) i = Some c" "phase c = Some Preparing" for c
    using that inv_call_wf [OF I that(1)] by (intro inv_advance [OF I]) (auto simp: call_wf_def)
  have "first_exposure es \<noteq> Panic" for es by (simp add: first_exposure_def split: list.split)
  moreover have "check_all (access_conflict r img) as \<noteq> Panic" for r img as
    by (rule check_all_not_Panic) (simp add: access_conflict_def)
  moreover have "bt_get (regions s) (reg_region (registration k)) \<noteq> None"
    if "bt_get (tasks s) t = Some k" for t k
    using inv_task_region [OF I that] by simp
  ultimately show "lands (\<lambda>_. inv run) (inv run) (backend_prepared_stopped i s)"
    unfolding backend_prepared_stopped_def Let_def using I step
    by (auto intro!: lands_try_ok simp: live_Ok simp del: not_None_eq)
qed

lemma keeps_transition:
  assumes "p \<notin> {Ready, Launched}" and "q \<notin> {Ready, Launched}"
  shows "keeps (inv run) (transition i p q)"
proof (rule tripleI)
  fix s assume I: "inv run s"
  have step: "inv run (update_injection i (\<lambda>c. c\<lparr>phase := Some q\<rparr>) s)"
    if "bt_get (injections s) i = Some c" "phase c = Some p" for c
    using that assms inv_call_wf [OF I that(1)] by (intro inv_advance [OF I]) (auto simp: call_wf_def)
  then show "lands (\<lambda>_. inv run) (inv run) (transition i p q s)"
    unfolding transition_def using I by (auto intro!: lands_try_ok)
qed

lemma keeps_backend_initializing: "keeps (inv run) (backend_initializing i)"
  unfolding backend_initializing_def by (rule keeps_transition) auto

lemma keeps_backend_normalizing: "keeps (inv run) (backend_normalizing i)"
  unfolding backend_normalizing_def by (rule keeps_transition) auto

lemma keeps_backend_verified_image: "keeps (inv run) (backend_verified_image i readback)"
proof (rule tripleI)
  fix s assume I: "inv run s"
  have step: "inv run (update_injection i
      (\<lambda>c. c\<lparr>verified_image := Some img, phase := Some Ready\<rparr>) s)"
    if "bt_get (injections s) i = Some c" "phase c \<in> {Some Initializing, Some Normalizing}"
      "call_image c = Some img" for c img
    using that inv_call_wf [OF I that(1)] by (intro inv_advance [OF I]) (auto simp: call_wf_def)
  then show "lands (\<lambda>_. inv run) (inv run) (backend_verified_image i readback s)"
    unfolding backend_verified_image_def using I by (auto intro!: lands_try_ok simp: refuse_def)
qed

section \<open>Issue and outcomes\<close>

lemma note_issue_selectors [simp]:
  "injections (note_issue d reg s) = injections s" "tasks (note_issue d reg s) = tasks s"
  by (simp_all add: note_issue_def Let_def)

lemma inv_note_issue: "inv run s \<Longrightarrow> inv run (note_issue d reg s)"
  by (simp add: note_issue_def Let_def)

lemma keeps_backend_issued: "keeps (inv run) (backend_issued i)"
proof (rule tripleI)
  fix s assume I: "inv run s"
  have step: "inv run (update_injection i (\<lambda>c. c\<lparr>call_state := Issued,
      phase := (if phase c \<noteq> None then Some Launched else None)\<rparr>) (note_issue d reg s))"
    if c: "bt_get (injections s) i = Some c" and "call_state c = Prepared"
      and "phase c \<in> {None, Some Ready}"
      and none: "\<not> list_ex (\<lambda>(j, e). j \<noteq> i \<and> call_task e = call_task c \<and> call_state e = Issued) (injections s)"
    for c d reg
  proof (rule inv_update_injection [OF inv_note_issue [OF I]])
    show "bt_get (injections (note_issue d reg s)) i = Some c" using c by simp
    let ?c = "c\<lparr>call_state := Issued, phase := (if phase c \<noteq> None then Some Launched else None)\<rparr>"
    show "call_wf ?c"
      using that inv_call_wf [OF I c] by (auto simp: call_wf_def unsettled_def)
    show "call_state c = Issued \<or> (\<forall>j d'. j \<noteq> i \<longrightarrow>
        bt_get (injections (note_issue d reg s)) j = Some d' \<longrightarrow> call_task d' = call_task c \<longrightarrow>
        call_state d' \<noteq> Issued)"
      using none by (auto simp: list_ex_iff dest: map_of_SomeD)
  qed (use that in auto)
  have "bt_get (tasks s) (call_task c) \<noteq> None" if "bt_get (injections s) i = Some c" for c
    using inv_call_task [OF I that] by simp
  then show "lands (\<lambda>_. inv run) (inv run) (backend_issued i s)"
    unfolding backend_issued_def Let_def using I inv_note_issue [OF I] step
    by (auto intro!: lands_try_ok simp del: not_None_eq)
qed

lemma keeps_backend_settled_not_run: "keeps (inv run) (backend_settled_not_run i)"
  unfolding backend_settled_not_run_def using tripleD [OF keeps_finish_locked [of ProvedNoChild]]
  by (auto intro!: tripleI lands_try_ok simp: refuse_def unsettled_def)

lemma keeps_backend_no_child: "keeps (inv run) (backend_no_child i)"
  unfolding backend_no_child_def using tripleD [OF keeps_finish_locked [of ProvedNoChild]]
  by (auto intro!: tripleI simp: unsettled_def split: option.split)

lemma keeps_backend_unknown_outcome: "keeps (inv run) (backend_unknown_outcome i)"
  unfolding backend_unknown_outcome_def using tripleD [OF keeps_finish_unknown]
  by (auto intro!: tripleI lands_try_ok)

lemma keeps_backend_retained_birth:
  "keeps (inv run) (backend_retained_birth i child memory_shared files_shared)"
proof (rule tripleI)
  fix s assume I: "inv run s"
  have "keeps (inv run) (and_then (for_each add_exposure_locked es)
      (\<lambda>_. finish_locked i (RetainedBirth child)))" for es
    by (rule triple_and_then [OF triple_for_each [OF keeps_add_exposure_locked]])
      (simp add: keeps_finish_locked unsettled_def)
  from tripleD [OF this I]
  show "lands (\<lambda>_. inv run) (inv run) (backend_retained_birth i child memory_shared files_shared s)"
    unfolding backend_retained_birth_def Let_def using I by (auto intro!: lands_try_ok)
qed

end
