(* ===== verification/Input_History.thy ===== *)
theory Input_History
  imports Input_Keeps_Txn "HOL-Library.Sublist"
begin

text \<open>
  What an operation of the registry cannot take back. One relation between the states before and
  after says what only grows; a second one says that nothing was added to the contest for a page.
  Both speak of the identities handed out before a point \<open>n\<close> of the counter, so that an identity
  made inside an operation does not stand in the way, and both compose.
\<close>

section \<open>The relations\<close>

definition keeps_entries ::
    "('k \<Rightarrow> 'v \<Rightarrow> bool) \<Rightarrow> ('v \<Rightarrow> 'v \<Rightarrow> bool) \<Rightarrow> ('k \<rightharpoonup> 'v) \<Rightarrow> ('k \<rightharpoonup> 'v) \<Rightarrow> bool" where
  "keeps_entries D A m m' \<longleftrightarrow> (\<forall>x v. D x v \<longrightarrow> m x = Some v \<longrightarrow> (\<exists>v'. m' x = Some v' \<and> A v v'))"

definition task_after :: "Task \<Rightarrow> Task \<Rightarrow> bool" where
  "task_after k k' \<longleftrightarrow>
     (registration k')\<lparr>tool_tid := None, tool_pid := None\<rparr>
       = (registration k)\<lparr>tool_tid := None, tool_pid := None\<rparr>
     \<and> (tool_tid (registration k) \<noteq> None \<longrightarrow> tool_tid (registration k') = tool_tid (registration k))
     \<and> (tool_pid (registration k) \<noteq> None \<longrightarrow> tool_pid (registration k') = tool_pid (registration k))
     \<and> (native_terminal k \<longrightarrow> native_terminal k')
     \<and> (native_effects_complete k \<longrightarrow> native_effects_complete k')"

definition call_after :: "Injection \<Rightarrow> Injection \<Rightarrow> bool" where
  "call_after c c' \<longleftrightarrow>
     call_task c' = call_task c \<and> call_operation c' = call_operation c \<and> call_grant c' = call_grant c
     \<and> description c' = description c
     \<and> (call_state c \<noteq> Prepared \<longrightarrow> call_state c' \<noteq> Prepared)
     \<and> (\<not> unsettled (call_state c) \<longrightarrow> \<not> unsettled (call_state c'))"

definition region_after :: "Region \<Rightarrow> Region \<Rightarrow> bool" where
  "region_after g g' \<longleftrightarrow> prefix (exposures g) (exposures g')"

definition access_after :: "Access \<Rightarrow> Access \<Rightarrow> bool" where
  "access_after a a' \<longleftrightarrow>
     access_task a' = access_task a \<and> access_declaration a' = access_declaration a
     \<and> (physical a \<noteq> None \<longrightarrow> physical a' = physical a)
     \<and> (access_operation a \<noteq> None \<longrightarrow> access_operation a' = access_operation a)
     \<and> (native_complete a \<longrightarrow> native_complete a')"

definition grows :: "u64 \<Rightarrow> State \<Rightarrow> State \<Rightarrow> bool" where
  "grows n s t \<longleftrightarrow> (n \<le> next_id s \<and> bt_ok (accesses s) \<longrightarrow>
     next_id s \<le> next_id t \<and> bt_ok (accesses t)
     \<and> (fatal s \<noteq> None \<longrightarrow> fatal t = fatal s)
     \<and> keeps_entries (\<lambda>x _. task_generation x \<le> n) task_after (bt_get (tasks s)) (bt_get (tasks t))
     \<and> keeps_entries (\<lambda>r _. region_generation r \<le> n) region_after (bt_get (regions s)) (bt_get (regions t))
     \<and> keeps_entries (\<lambda>i _. physical_id i \<le> n) call_after (bt_get (injections s)) (bt_get (injections t))
     \<and> keeps_entries (\<lambda>i a. i \<le> n \<and> lifetime (access_declaration a) = Persistent) access_after
         (bt_get (accesses s)) (bt_get (accesses t))
     \<and> prefix (global_exposures s) (global_exposures t)
     \<and> regions_may_have_other_processes s \<subseteq> regions_may_have_other_processes t
     \<and> keeps_entries (\<lambda>_ b. b) (\<longrightarrow>) (bt_get (groups_may_have_other_threads s))
         (bt_get (groups_may_have_other_threads t)))"

text \<open>
  Nothing new in the contest: a call with a phase had one before, for the same image, and did not
  leave preparation; a layout stays; every access was there with the same declaration.
\<close>

definition staged_before :: "Injection \<Rightarrow> Injection \<Rightarrow> bool" where
  "staged_before c' c \<longleftrightarrow> phase c \<noteq> None \<and> call_task c = call_task c' \<and> call_image c = call_image c'
     \<and> (phase c' \<noteq> Some Preparing \<longrightarrow> phase c \<noteq> Some Preparing)"

definition keeps_phases :: "State \<Rightarrow> State \<Rightarrow> bool" where
  "keeps_phases s t \<longleftrightarrow> keeps_entries (\<lambda>_ c'. phase c' \<noteq> None) staged_before
     (bt_get (injections t)) (bt_get (injections s))"

definition keeps_layouts :: "u64 \<Rightarrow> State \<Rightarrow> State \<Rightarrow> bool" where
  "keeps_layouts n s t \<longleftrightarrow> (n \<le> next_id s \<longrightarrow> n \<le> next_id t \<and>
     keeps_entries (\<lambda>r _. region_generation r \<le> n) (\<lambda>g g'. layout g' = layout g)
       (bt_get (regions s)) (bt_get (regions t)))"

definition keeps_declared :: "State \<Rightarrow> State \<Rightarrow> bool" where
  "keeps_declared s t \<longleftrightarrow> (bt_ok (accesses s) \<longrightarrow> bt_ok (accesses t) \<and>
     keeps_entries (\<lambda>_ _. True) (\<lambda>a' a. access_declaration a' = access_declaration a)
       (bt_get (accesses t)) (bt_get (accesses s)))"

definition quiet :: "u64 \<Rightarrow> State \<Rightarrow> State \<Rightarrow> bool" where
  "quiet n s t \<longleftrightarrow> grows n s t
     \<and> (n \<le> next_id s \<longrightarrow> keeps_phases s t \<and> keeps_layouts n s t \<and> keeps_declared s t)"

section \<open>Composition\<close>

lemma keeps_entries_refl: "(\<And>v. A v v) \<Longrightarrow> keeps_entries D A m m"
  by (auto simp: keeps_entries_def)

lemma keeps_entries_trans:
  assumes "keeps_entries D A m1 m2" and "keeps_entries D A m2 m3"
    and "\<And>x v v'. A v v' \<Longrightarrow> D x v \<Longrightarrow> D x v'" and "\<And>u v w. A u v \<Longrightarrow> A v w \<Longrightarrow> A u w"
  shows "keeps_entries D A m1 m3"
  using assms unfolding keeps_entries_def by meson

lemma after_refl [simp]:
  "task_after k k" "call_after c c" "region_after g g" "access_after a a"
  by (simp_all add: task_after_def call_after_def region_after_def access_after_def)

lemma after_trans:
  "task_after k k' \<Longrightarrow> task_after k' k'' \<Longrightarrow> task_after k k''"
  "call_after c c' \<Longrightarrow> call_after c' c'' \<Longrightarrow> call_after c c''"
  "region_after g g' \<Longrightarrow> region_after g' g'' \<Longrightarrow> region_after g g''"
  "access_after a a' \<Longrightarrow> access_after a' a'' \<Longrightarrow> access_after a a''"
  by (auto simp: task_after_def call_after_def region_after_def access_after_def)

lemma grows_refl: "reflp (grows n)"
  by (rule reflpI) (auto simp: grows_def intro!: keeps_entries_refl)

lemma grows_trans: "transp (grows n)"
proof (rule transpI)
  fix s t u assume *: "grows n s t" "grows n t u"
  show "grows n s u"
    unfolding grows_def
  proof (intro impI conjI)
    assume s: "n \<le> next_id s \<and> bt_ok (accesses s)"
    then have t: "n \<le> next_id t \<and> bt_ok (accesses t)" using *(1) by (auto simp: grows_def)
    note st = *(1) [unfolded grows_def, rule_format, OF s]
    note tu = *(2) [unfolded grows_def, rule_format, OF t]
    show "next_id s \<le> next_id u" "bt_ok (accesses u)" "prefix (global_exposures s) (global_exposures u)"
      "regions_may_have_other_processes s \<subseteq> regions_may_have_other_processes u"
      using st tu by auto
    show "fatal u = fatal s" if "fatal s \<noteq> None" using st tu that by auto
    show "keeps_entries (\<lambda>x _. task_generation x \<le> n) task_after (bt_get (tasks s)) (bt_get (tasks u))"
      "keeps_entries (\<lambda>r _. region_generation r \<le> n) region_after (bt_get (regions s)) (bt_get (regions u))"
      "keeps_entries (\<lambda>i _. physical_id i \<le> n) call_after (bt_get (injections s)) (bt_get (injections u))"
      using st tu by (auto elim!: keeps_entries_trans intro: after_trans)
    show "keeps_entries (\<lambda>i a. i \<le> n \<and> lifetime (access_declaration a) = Persistent) access_after
        (bt_get (accesses s)) (bt_get (accesses u))"
      by (rule keeps_entries_trans [where ?m2.0 = "bt_get (accesses t)"])
        (use st tu in \<open>auto simp: access_after_def\<close>)
    show "keeps_entries (\<lambda>_ b. b) (\<longrightarrow>) (bt_get (groups_may_have_other_threads s))
        (bt_get (groups_may_have_other_threads u))"
      using st tu by (auto elim!: keeps_entries_trans)
  qed
qed

lemma quiet_refl: "reflp (quiet n)"
  by (auto intro!: reflpI keeps_entries_refl reflpD [OF grows_refl]
      simp: quiet_def keeps_layouts_def keeps_declared_def keeps_phases_def keeps_entries_def staged_before_def)

lemma keeps_phases_trans: "keeps_phases s t \<Longrightarrow> keeps_phases t u \<Longrightarrow> keeps_phases s u"
  unfolding keeps_phases_def
  by (rule keeps_entries_trans, assumption, assumption) (auto simp: staged_before_def)

lemma keeps_layouts_trans: "keeps_layouts n s t \<Longrightarrow> keeps_layouts n t u \<Longrightarrow> keeps_layouts n s u"
  unfolding keeps_layouts_def by (auto elim!: keeps_entries_trans)

lemma keeps_declared_trans: "keeps_declared s t \<Longrightarrow> keeps_declared t u \<Longrightarrow> keeps_declared s u"
  unfolding keeps_declared_def by (auto elim!: keeps_entries_trans)

lemma quiet_trans: "transp (quiet n)"
proof (rule transpI)
  fix s t u assume *: "quiet n s t" "quiet n t u"
  then have "n \<le> next_id t" if "n \<le> next_id s" using that by (simp add: quiet_def keeps_layouts_def)
  then show "quiet n s u"
    using * transpD [OF grows_trans, of n s t u]
    by (auto simp: quiet_def intro: keeps_phases_trans keeps_layouts_trans keeps_declared_trans)
qed

lemma quiet_same [simp]: "quiet n s s" using quiet_refl by (rule reflpD)

lemma quiet_grows: "preserves (quiet n) m \<Longrightarrow> preserves (grows n) m"
  by (simp add: preserves_def quiet_def)

text \<open>The operations are built from tests, sequences and changes of one field.\<close>

lemma quiet_try_ok:
  "(\<And>a. r = Ok a \<Longrightarrow> quiet n s (snd (f a s))) \<Longrightarrow> quiet n s (snd (try_ok r f s))"
  by (cases r) (auto simp: try_ok_def)

lemma quiet_and_then:
  assumes "quiet n s (snd (m s))" and "\<And>a t. m s = (Ok a, t) \<Longrightarrow> quiet n t (snd (f a t))"
  shows "quiet n s (snd (and_then m f s))"
proof (cases "m s")
  case (Pair r t)
  then have "quiet n s t" using assms(1) by simp
  then show ?thesis using assms(2) Pair transpD [OF quiet_trans]
    by (auto simp: and_then_def split: outcome.split)
qed

lemma state_next_Ok: "state_next s = (Ok g, t) \<Longrightarrow> next_id s < g \<and> t = s\<lparr>next_id := g\<rparr>"
  by (auto simp: state_next_def dest: checked_add_one_less split: option.splits)

lemmas history_defs = quiet_def grows_def keeps_phases_def keeps_layouts_def keeps_declared_def

lemma keeps_same [simp]:
  "keeps_entries D1 task_after T T" "keeps_entries D2 region_after R R" "keeps_entries D3 call_after J J"
  "keeps_entries D4 access_after A A" "keeps_entries D5 (\<longrightarrow>) G G"
  "keeps_entries D2 (\<lambda>g g'. layout g' = layout g) R R"
  "keeps_entries D4 (\<lambda>a' a. access_declaration a' = access_declaration a) A A"
  by (auto simp: keeps_entries_def)

lemma staged_before_refl [simp]: "phase c = Some p \<Longrightarrow> staged_before c c"
  by (simp add: staged_before_def)

lemma keeps_same_staged [simp]: "keeps_entries (\<lambda>_ c. \<exists>p. phase c = Some p) staged_before J J"
  by (auto simp: keeps_entries_def)

lemma quiet_state_next: "quiet n s (snd (state_next s))"
proof (cases "checked_add (next_id s) 1")
  case (Some g)
  then have "next_id s < g" by (rule checked_add_one_less)
  with Some show ?thesis by (auto simp: state_next_def history_defs)
qed (simp add: state_next_def)

lemma quiet_next:
  assumes "\<And>g t. n < g \<Longrightarrow> state_next s = (Ok g, t) \<Longrightarrow> quiet n t (snd (f g t))"
  shows "quiet n s (snd (and_then state_next f s))"
proof (cases "n \<le> next_id s")
  case True
  show ?thesis
  proof (rule quiet_and_then [OF quiet_state_next])
    fix g t assume *: "state_next s = (Ok g, t)"
    with True have "n < g" using state_next_Ok by fastforce
    with * show "quiet n t (snd (f g t))" by (rule assms [rotated])
  qed
next
  case False
  then show ?thesis by (simp add: quiet_def grows_def)
qed

lemma quiet_via: "quiet n s t \<Longrightarrow> quiet n t u \<Longrightarrow> quiet n s u"
  using transpD [OF quiet_trans] .

section \<open>Changes of one field\<close>

lemma quiet_update_task:
  "(\<And>k. bt_get (tasks s) x = Some k \<Longrightarrow> task_after k (f k)) \<Longrightarrow> quiet n s (update_task x f s)"
  by (simp add: history_defs update_task_def) (auto simp: keeps_entries_def)

lemma quiet_map_tasks:
  "(\<And>k. task_after k (f k)) \<Longrightarrow> quiet n s (s\<lparr>tasks := bt_map_on P f (tasks s)\<rparr>)"
  by (simp add: history_defs) (auto simp: keeps_entries_def)

lemma quiet_insert_task:
  "n < task_generation x \<Longrightarrow> quiet n s (s\<lparr>tasks := bt_insert x k (tasks s)\<rparr>)"
  by (simp add: history_defs) (auto simp: keeps_entries_def)

lemma quiet_update_injection:
  "(\<And>c. bt_get (injections s) i = Some c \<Longrightarrow>
      call_after c (f c) \<and> (phase (f c) \<noteq> None \<longrightarrow> staged_before (f c) c)) \<Longrightarrow>
   quiet n s (update_injection i f s)"
  by (simp add: history_defs update_injection_def) (auto simp: keeps_entries_def)

lemma quiet_insert_injection:
  "n < physical_id i \<Longrightarrow> phase c = None \<Longrightarrow> quiet n s (s\<lparr>injections := bt_insert i c (injections s)\<rparr>)"
  by (simp add: history_defs) (auto simp: keeps_entries_def)

lemma quiet_update_region:
  "(\<And>g. bt_get (regions s) r = Some g \<Longrightarrow> region_after g (f g) \<and> layout (f g) = layout g) \<Longrightarrow>
   quiet n s (update_region r f s)"
  by (simp add: history_defs update_region_def) (auto simp: keeps_entries_def)

lemma quiet_insert_region:
  "n < region_generation r \<Longrightarrow> quiet n s (s\<lparr>regions := bt_insert r g (regions s)\<rparr>)"
  by (simp add: history_defs) (auto simp: keeps_entries_def)

lemma quiet_update_access:
  "(\<And>a. bt_get (accesses s) i = Some a \<Longrightarrow> access_after a (f a)) \<Longrightarrow> quiet n s (update_access i f s)"
  by (simp add: history_defs update_access_def) (auto simp: keeps_entries_def access_after_def)

lemma quiet_complete_accesses: "quiet n s (complete_accesses P s)"
  by (simp add: history_defs complete_accesses_def) (auto simp: keeps_entries_def access_after_def)

lemma quiet_remove_access:
  "(\<And>a. bt_get (accesses s) i = Some a \<Longrightarrow> lifetime (access_declaration a) \<noteq> Persistent) \<Longrightarrow>
   quiet n s (s\<lparr>accesses := bt_remove i (accesses s)\<rparr>)"
  by (simp add: history_defs) (auto simp: keeps_entries_def)

lemma quiet_retain_accesses:
  "(\<And>a. lifetime (access_declaration a) = Persistent \<Longrightarrow> P a) \<Longrightarrow>
   quiet n s (s\<lparr>accesses := bt_retain P (accesses s)\<rparr>)"
  by (simp add: history_defs) (auto simp: keeps_entries_def bt_get_retain split: option.splits if_splits)

lemma quiet_fields:
  "quiet n s (s\<lparr>by_tid := v1\<rparr>)" "quiet n s (s\<lparr>freezes := v2\<rparr>)" "quiet n s (s\<lparr>frozen_groups := v3\<rparr>)"
  "quiet n s (s\<lparr>files_possibly_shared := v4\<rparr>)"
  "quiet n s (s\<lparr>global_exposures := global_exposures s @ es\<rparr>)"
  "quiet n s (s\<lparr>regions_may_have_other_processes := insert r (regions_may_have_other_processes s)\<rparr>)"
  "quiet n s (s\<lparr>groups_may_have_other_threads := bt_insert g True (groups_may_have_other_threads s)\<rparr>)"
  "quiet n s (s\<lparr>groups_may_have_other_threads := or_insert g b (groups_may_have_other_threads s)\<rparr>)"
  "quiet n s (retain_failure reason s)"
  by (simp_all add: history_defs or_insert_def retain_failure_def split: option.split)
    (auto simp: keeps_entries_def)

text \<open>Several fields at once.\<close>

lemma quiet_sharing_fields:
  "quiet n s (s\<lparr>groups_may_have_other_threads := bt_insert g True (groups_may_have_other_threads s),
     regions_may_have_other_processes := insert r (regions_may_have_other_processes s)\<rparr>)"
  "quiet n s (s\<lparr>groups_may_have_other_threads :=
     bt_insert g True (or_insert g b (groups_may_have_other_threads s))\<rparr>)"
  "quiet n s (s\<lparr>groups_may_have_other_threads := or_insert g b (groups_may_have_other_threads s),
     regions_may_have_other_processes := insert r (regions_may_have_other_processes s)\<rparr>)"
  by (simp_all add: history_defs or_insert_def split: option.split) (auto simp: keeps_entries_def)

lemma quiet_insert_task_fields:
  "n < task_generation x \<Longrightarrow>
   quiet n s (s\<lparr>by_tid := b, freezes := f, tasks := bt_insert x k (tasks s)\<rparr>)"
  by (simp add: history_defs) (auto simp: keeps_entries_def)

lemma quiet_insert_region_fields:
  "n < region_generation r \<Longrightarrow>
   quiet n s (s\<lparr>regions := bt_insert r v (regions s), files_possibly_shared := f\<rparr>)"
  "n < region_generation r \<Longrightarrow>
   quiet n s (s\<lparr>regions := bt_insert r v (regions s), files_possibly_shared := f,
     groups_may_have_other_threads := or_insert g b (groups_may_have_other_threads s)\<rparr>)"
  by (simp_all add: history_defs or_insert_def split: option.split) (auto simp: keeps_entries_def)

section \<open>Quiet operations\<close>

lemmas quiet_each = preserves_for_each [OF quiet_refl quiet_trans]

lemma quiet_bind_tool_identity: "preserves (quiet n) (backend_bind_tool_identity task tid pid)"
  by (auto simp: preserves_def backend_bind_tool_identity_def Let_def live_Ok task_after_def
      intro!: quiet_try_ok quiet_update_task)

lemma quiet_grant: "preserves (quiet n) (grant task kind)"
  by (auto simp: preserves_def grant_def refuse_def task_after_def
      intro!: quiet_try_ok quiet_next quiet_update_task)

lemma quiet_invalidate_operation: "quiet n s (invalidate_operation task s)"
  unfolding invalidate_operation_def by (rule quiet_update_task) (simp add: task_after_def)

lemma quiet_begin_operation: "preserves (quiet n) (begin_operation run task logical_operation)"
  by (auto simp: preserves_def begin_operation_def task_after_def intro!: quiet_try_ok quiet_update_task)

lemma quiet_finish_operation: "preserves (quiet n) (finish_operation run scope)"
  by (auto simp: preserves_def finish_operation_def task_after_def split: option.split
      intro!: quiet_try_ok quiet_update_task)

lemma quiet_attach_access: "preserves (quiet n) (attach_access run lease receipt)"
  by (auto simp: preserves_def attach_access_def access_after_def intro!: quiet_try_ok quiet_update_access)

lemma quiet_complete_access_after_return:
  "preserves (quiet n) (complete_access_after_return run lease task)"
  by (auto simp: preserves_def complete_access_after_return_def access_after_def
      intro!: quiet_try_ok quiet_update_access)

lemma quiet_bind_access_completion:
  "preserves (quiet n) (bind_access_completion run lease task completed)"
  by (auto simp: preserves_def bind_access_completion_def access_after_def same_operation_def
      NativeOperationCompletion.expand split: option.split intro!: quiet_try_ok quiet_update_access)

lemma quiet_complete_access_after_completion:
  "preserves (quiet n) (complete_access_after_completion run st lease task completed)"
  by (auto simp: preserves_def complete_access_after_completion_def access_after_def
      intro!: quiet_try_ok quiet_update_access)

lemma quiet_readmit_access: "preserves (quiet n) (readmit_access run lease task g)"
  by (auto simp: preserves_def readmit_access_def intro!: quiet_try_ok quiet_remove_access)

lemma quiet_add_exposure_locked: "preserves (quiet n) (add_exposure_locked e)"
  using quiet_update_region [of _ _ "\<lambda>region. region\<lparr>exposures := exposures region @ [e]\<rparr>"]
  by (auto simp: preserves_def add_exposure_locked_def region_after_def quiet_fields update_region_def
      split: InputTarget.split option.split)

lemma quiet_expose_before_continuation:
  "preserves (quiet n) (backend_expose_before_continuation task e)"
  by (auto simp: preserves_def backend_expose_before_continuation_def
      intro!: quiet_try_ok preservesD [OF quiet_add_exposure_locked])

lemma quiet_readmit_injection: "preserves (quiet n) (readmit_injection i task g)"
  by (auto simp: preserves_def readmit_injection_def intro!: quiet_try_ok quiet_retain_accesses)

subsection \<open>Freezes\<close>

lemma quiet_freeze_locked: "preserves (quiet n) (freeze_locked run members)"
proof -
  have "quiet n s (s\<lparr>tasks := bt_map_on P (\<lambda>k. k\<lparr>frozen := insert i (frozen k), task_grant := None\<rparr>) (tasks s),
      freezes := fs\<rparr>)" for s P i fs
    by (rule quiet_via [OF quiet_map_tasks quiet_fields(2)]) (simp add: task_after_def)
  then show ?thesis
    by (auto simp: preserves_def freeze_locked_def intro!: quiet_next)
qed

lemma quiet_freeze_group: "preserves (quiet n) (freeze_group run task include_caller)"
  by (auto simp: preserves_def freeze_group_def Let_def
      intro!: quiet_try_ok quiet_and_then preservesD [OF quiet_freeze_locked] quiet_fields)

lemma quiet_remove_freeze: "preserves (quiet n) (remove_freeze i members)"
proof -
  have "quiet n s (s\<lparr>tasks := bt_map_on P (\<lambda>k. k\<lparr>frozen := frozen k - {i}\<rparr>) (tasks s),
      freezes := fs, frozen_groups := gs\<rparr>)" for s P fs gs
    by (rule quiet_via [OF quiet_via [OF quiet_map_tasks quiet_fields(2)] quiet_fields(3)])
      (simp add: task_after_def)
  then show ?thesis by (simp add: preserves_def remove_freeze_def)
qed

lemma quiet_retire: "quiet n s (retire_accesses members s)"
  unfolding retire_accesses_def by (rule quiet_retain_accesses) simp

lemma quiet_settle_cohort: "preserves (quiet n) (settle_cohort i)"
  by (auto simp: preserves_def settle_cohort_def split: option.split
      intro!: quiet_and_then preservesD [OF quiet_remove_freeze] quiet_retire)

lemma quiet_settle_fenced_tasks: "preserves (quiet n) (settle_fenced_tasks run ts)"
  by (auto simp: preserves_def settle_fenced_tasks_def Let_def
      intro!: quiet_try_ok preservesD [OF quiet_each [OF quiet_settle_cohort]])

lemma quiet_cancel_freeze_before_effect: "preserves (quiet n) (cancel_freeze_before_effect run cohort)"
  by (auto simp: preserves_def cancel_freeze_before_effect_def
      intro!: quiet_try_ok preservesD [OF quiet_remove_freeze])

lemma quiet_settle_frozen_cohort: "preserves (quiet n) (settle_frozen_cohort run cohort)"
  by (auto simp: preserves_def settle_frozen_cohort_def
      intro!: quiet_try_ok quiet_and_then preservesD [OF quiet_remove_freeze] quiet_retire)

subsection \<open>Outcomes\<close>

lemma quiet_finish_locked:
  assumes "\<not> unsettled result" shows "preserves (quiet n) (finish_locked i result)"
proof -
  have call: "quiet n s (update_injection i (\<lambda>c. c\<lparr>call_state := result, phase := None\<rparr>) s)" for s
    using assms by (intro quiet_update_injection) (auto simp: call_after_def unsettled_def)
  have region: "quiet n s (update_region r (\<lambda>g. g\<lparr>transaction := None\<rparr>) s)" for s r
    by (rule quiet_update_region) (simp add: region_after_def)
  have "quiet n s (snd (finish_locked i result s))" for s
    unfolding finish_locked_def Let_def
  proof (intro quiet_try_ok)
    fix c k assume "ok_or (bt_get (injections s) i) ''input-call-missing'' = Ok c"
    show "quiet n s (snd (try_ok (unwrap (bt_get (regions (update_injection i
        (\<lambda>c. c\<lparr>call_state := result, phase := None\<rparr>) s)) (reg_region (registration k))))
        (\<lambda>region s1. (Ok (), complete_accesses (\<lambda>a. physical a = Some i)
          (if transaction region = Some i
           then update_region (reg_region (registration k)) (\<lambda>g. g\<lparr>transaction := None\<rparr>) s1 else s1)))
        (update_injection i (\<lambda>c. c\<lparr>call_state := result, phase := None\<rparr>) s)))"
      by (rule quiet_via [OF call], rule quiet_try_ok)
        (auto intro: quiet_complete_accesses quiet_via [OF region quiet_complete_accesses])
  qed
  then show ?thesis by (simp add: preserves_def)
qed

lemma quiet_finish_unknown: "preserves (quiet n) (finish_unknown i call)"
  by (auto simp: preserves_def finish_unknown_def unsettled_def split: option.split
      intro!: quiet_and_then preservesD [OF quiet_add_exposure_locked] preservesD [OF quiet_finish_locked])

lemma quiet_gate_call: "preserves (quiet n) (gate_call i)"
  by (auto simp: preserves_def gate_call_def unsettled_def
      intro!: quiet_try_ok quiet_fields preservesD [OF quiet_finish_unknown] preservesD [OF quiet_finish_locked])

lemma quiet_cancel_call: "preserves (quiet n) (cancel_call i)"
  by (auto simp: preserves_def cancel_call_def
      intro!: quiet_try_ok quiet_fields preservesD [OF quiet_finish_unknown])

lemma quiet_effects_complete_locked: "preserves (quiet n) (effects_complete_locked task)"
proof -
  have "quiet n s (complete_accesses P (update_task task
      (\<lambda>k. k\<lparr>native_effects_complete := True, task_grant := None\<rparr>) s))" for s P
    by (rule quiet_via [OF quiet_update_task quiet_complete_accesses]) (simp add: task_after_def)
  then show ?thesis
    by (auto simp: preserves_def effects_complete_locked_def terminal_gate_locked_def
        intro!: quiet_and_then quiet_try_ok preservesD [OF quiet_each [OF quiet_gate_call]])
qed

lemma quiet_cancel_injections: "preserves (quiet n) (backend_cancel_injections task)"
  unfolding preserves_def backend_cancel_injections_def Let_def
proof (intro allI quiet_try_ok)
  fix s k
  show "quiet n s (snd (for_each cancel_call
      (unfinished_calls (update_task task (\<lambda>k. k\<lparr>task_grant := None\<rparr>) s) task)
      (update_task task (\<lambda>k. k\<lparr>task_grant := None\<rparr>) s)))"
    by (rule quiet_via [OF quiet_update_task preservesD [OF quiet_each [OF quiet_cancel_call]]])
      (simp add: task_after_def)
qed

lemma quiet_forget_tid: "quiet n s (forget_tid task s)"
  by (simp add: forget_tid_def quiet_fields)

lemma quiet_backend_terminal: "preserves (quiet n) (backend_terminal task)"
  unfolding preserves_def backend_terminal_def
proof (intro allI quiet_try_ok)
  fix s k
  let ?dead = "update_task task (\<lambda>k. k\<lparr>native_terminal := True, task_grant := None\<rparr>) s"
  have "quiet n s (forget_tid task ?dead)"
    by (rule quiet_via [OF quiet_update_task quiet_forget_tid]) (simp add: task_after_def)
  then show "quiet n s (snd (and_then (effects_complete_locked task)
      (\<lambda>_ s. (Ok (), complete_accesses (\<lambda>a. access_task a = task) s)) (forget_tid task ?dead)))"
    by (rule quiet_via)
      (auto intro!: quiet_and_then quiet_complete_accesses preservesD [OF quiet_effects_complete_locked])
qed

lemma quiet_observe_exit_effects: "preserves (quiet n) (observe_exit_effects obs task)"
  by (auto simp: preserves_def observe_exit_effects_def exit_effects_known_def
      intro!: quiet_and_then quiet_try_ok preservesD [OF quiet_effects_complete_locked])

lemma quiet_transition:
  "p \<noteq> Preparing \<Longrightarrow> preserves (quiet n) (transition i p q)"
  by (auto simp: preserves_def transition_def call_after_def staged_before_def
      intro!: quiet_try_ok quiet_update_injection)

lemma quiet_verified_image: "preserves (quiet n) (backend_verified_image i readback)"
  by (auto simp: preserves_def backend_verified_image_def call_after_def staged_before_def refuse_def
      intro!: quiet_try_ok quiet_update_injection)

lemma quiet_note_issue: "quiet n s (note_issue d reg s)"
  unfolding note_issue_def Let_def
  by (auto intro: quiet_fields quiet_sharing_fields)

lemma quiet_issued: "preserves (quiet n) (backend_issued i)"
  unfolding preserves_def backend_issued_def Let_def
proof (intro allI quiet_try_ok)
  fix s :: State and c k assume c: "ok_or (bt_get (injections s) i) ''input-call-missing'' = Ok c"
  let ?s = "note_issue (description c) (registration k) s"
  have "quiet n ?s (update_injection i (\<lambda>c. c\<lparr>call_state := Issued,
      phase := (if phase c \<noteq> None then Some Launched else None)\<rparr>) ?s)"
    if "call_state c = Prepared" "phase c \<in> {None, Some Ready}"
    using that c by (intro quiet_update_injection) (auto simp: call_after_def staged_before_def unsettled_def)
  then show "quiet n s (snd (if list_ex (\<lambda>(j, d). j \<noteq> i \<and> call_task d = call_task c \<and> call_state d = Issued)
        (injections ?s) then (Err ''input-native-call-already-issued'', ?s)
      else if call_state c \<noteq> Prepared \<or> phase c \<notin> {None, Some Ready} then (Err ''input-issue-phase'', ?s)
      else (Ok (), update_injection i (\<lambda>c. c\<lparr>call_state := Issued,
        phase := (if phase c \<noteq> None then Some Launched else None)\<rparr>) ?s)))"
    using quiet_note_issue by (auto intro: quiet_via [OF quiet_note_issue] simp del: not_None_eq)
qed

lemma quiet_settled_not_run: "preserves (quiet n) (backend_settled_not_run i)"
  by (auto simp: preserves_def backend_settled_not_run_def refuse_def unsettled_def
      intro!: quiet_try_ok preservesD [OF quiet_finish_locked])

lemma quiet_no_child: "preserves (quiet n) (backend_no_child i)"
  by (auto simp: preserves_def backend_no_child_def unsettled_def split: option.split
      intro!: preservesD [OF quiet_finish_locked])

lemma quiet_retained_birth:
  "preserves (quiet n) (backend_retained_birth i child memory_shared files_shared)"
  by (auto simp: preserves_def backend_retained_birth_def Let_def unsettled_def
      intro!: quiet_try_ok quiet_and_then preservesD [OF quiet_each [OF quiet_add_exposure_locked]]
        preservesD [OF quiet_finish_locked])

lemma quiet_unknown_outcome: "preserves (quiet n) (backend_unknown_outcome i)"
  by (auto simp: preserves_def backend_unknown_outcome_def
      intro!: quiet_try_ok preservesD [OF quiet_finish_unknown])

subsection \<open>Births and exec without an observer\<close>

lemma quiet_publish_task:
  assumes "n < task_generation (reg_task reg)" shows "quiet n s (snd (publish_task reg ids s))"
  using assms by (simp add: publish_task_def Let_def quiet_fields quiet_insert_task_fields)

lemma quiet_register_root: "preserves (quiet n) (backend_register_root run tid pid)"
  by (auto simp: preserves_def backend_register_root_def Let_def
      intro!: quiet_next quiet_and_then quiet_publish_task quiet_insert_region_fields)

lemma quiet_child_region: "preserves (quiet n) (child_region run r memory_shared)"
  by (auto simp: preserves_def child_region_def Let_def
      intro!: quiet_next quiet_try_ok quiet_insert_region)

lemma quiet_child_files: "preserves (quiet n) (child_files run fs files_shared)"
  by (auto simp: preserves_def child_files_def intro!: quiet_and_then quiet_state_next quiet_fields)

lemma quiet_child_group: "preserves (quiet n) (child_group run preg pid)"
  by (auto simp: preserves_def child_group_def intro!: quiet_and_then quiet_state_next)

lemma quiet_note_child_sharing: "preserves (quiet n) (note_child_sharing preg pid grp r memory_shared)"
proof -
  let ?flag = "\<lambda>s. if pid = native_pid preg then
      s\<lparr>groups_may_have_other_threads :=
        bt_insert grp True (or_insert grp False (groups_may_have_other_threads s))\<rparr>
    else if memory_shared \<noteq> Some False then
      s\<lparr>groups_may_have_other_threads := or_insert grp False (groups_may_have_other_threads s),
        regions_may_have_other_processes := insert r (regions_may_have_other_processes s)\<rparr>
    else s\<lparr>groups_may_have_other_threads := or_insert grp False (groups_may_have_other_threads s)\<rparr>"
  let ?expose = "\<lambda>_ s. (Ok (), update_region r (\<lambda>region. region\<lparr>exposures := exposures region @
      [\<lparr>exposure_target = Region r,
        exposure_cause = ''input-native-memory-identity-unavailable''\<rparr>]\<rparr>) s)"
  have split: "note_child_sharing preg pid grp r memory_shared s =
      (if memory_shared = None then try_ok (unwrap (bt_get (regions (?flag s)) r)) ?expose (?flag s)
       else (Ok (), ?flag s))" for s
    by (simp add: note_child_sharing_def Let_def)
  have flag: "quiet n s (?flag s)" for s
    by (simp add: quiet_fields quiet_sharing_fields)
  have "quiet n s (snd (?expose x s))" for s :: State and x :: Region
    by (simp, rule quiet_update_region) (simp add: region_after_def)
  then have exposed: "quiet n s (snd (try_ok q ?expose s))" for s :: State and q :: "(InputUnavailable, Region) outcome"
    by (rule quiet_try_ok)
  have "quiet n s (snd (note_child_sharing preg pid grp r memory_shared s))" for s
  proof (cases "memory_shared = None")
    case True
    show ?thesis unfolding split if_P [OF True] by (rule quiet_via [OF flag exposed])
  next
    case False
    show ?thesis unfolding split if_not_P [OF False] snd_conv by (rule flag)
  qed
  then show ?thesis by (simp add: preserves_def)
qed

lemma quiet_register_child:
  "preserves (quiet n) (backend_register_child run None par tid pid memory_shared files_shared)"
  unfolding preserves_def backend_register_child_def retain_newborn_def Let_def
  by (auto simp: observe_files_def split: option.split
      intro!: quiet_try_ok quiet_and_then quiet_next quiet_publish_task
        preservesD [OF quiet_child_region] preservesD [OF quiet_child_files]
        preservesD [OF quiet_child_group] preservesD [OF quiet_note_child_sharing])

lemma quiet_retain_image:
  "preserves (quiet n) (retain_image run None displaced former old_leader old_former ids)"
  unfolding preserves_def retain_image_def Let_def
  by (auto simp: observe_files_def
      intro!: quiet_next quiet_and_then quiet_publish_task
        quiet_via [OF quiet_via [OF quiet_insert_region_fields(1) quiet_forget_tid] quiet_forget_tid])

lemma quiet_exec_replacement: "preserves (quiet n) (backend_exec_replacement run None displaced former)"
  unfolding preserves_def backend_exec_replacement_def Let_def
  by (auto intro!: quiet_try_ok quiet_and_then preservesD [OF quiet_effects_complete_locked]
      preservesD [OF quiet_retain_image])

end
