(* ===== verification/Input_Machine.thy ===== *)
theory Input_Machine
  imports Input_History
begin

text \<open>
  The registry as a machine: the calls a Tool makes, the calls the backend makes, and the states
  that any sequence of them reaches from the empty registry. Every call is a value, so a history is
  a list that can be run. The observers are code outside the registry. Its state is private, so
  what a descriptor observer does to it is a sequence of calls of the Tool's side.
\<close>

section \<open>Calls\<close>

datatype tool_op =
  BindToolIdentity InputTaskId i32 i32
| Grant InputTaskId InputGrantKind
| InvalidateOperation InputTaskId
| BeginOperation InputTaskId u64
| FinishOperation InputOperationScope
| AcquireAccess InputTaskId InputAccess
| AttachAccess InputAccessLease PhysicalInjectionReceipt
| CompleteAfterReturn InputAccessLease InputTaskId
| BindCompletion InputAccessLease InputTaskId NativeOperationCompletion
| CompleteAfterCompletion op_store InputAccessLease InputTaskId NativeOperationCompletion
| ReadmitAccess InputAccessLease InputTaskId u64
| AddExposure InputExposure
| ExposeBeforeContinuation InputTaskId InputExposure
| PrepareInjection InputOperationScope PhysicalInjectionDescription
| PrepareObserved InputTaskId u64 PhysicalInjectionDescription
| ReadmitInjection PhysicalInjectionId InputTaskId u64
| FreezeTasks "InputTaskId list"
| FreezeGroup InputTaskId bool
| SettleFenced "InputTaskId list"
| CancelFreeze InputFreezeCohort
| SettleFrozen InputFreezeCohort

datatype backend_op =
  RegisterRoot i32 i32
| RegisterChild InputTaskId i32 i32 "bool option" "bool option"
| ExecReplacement InputTaskId InputTaskId
| SetLayout InputTaskId ReservedInputLayout
| BeginPreparation PhysicalInjectionReceipt InputOperationScope ReservedInputImage
| StopPrepared PhysicalInjectionId
| Initialize PhysicalInjectionId
| Normalize PhysicalInjectionId
| VerifyImage PhysicalInjectionId "u8 list"
| Issue PhysicalInjectionId
| SettleNotRun PhysicalInjectionId
| NoChild PhysicalInjectionId
| RetainBirth PhysicalInjectionId InputTaskId "bool option" "bool option"
| UnknownOutcome PhysicalInjectionId
| CancelInjections InputTaskId
| ObserveExit InputTaskId
| Terminal InputTaskId
| Fail string

text \<open>The effect of a call and whether it returned, erred or panicked; its value is dropped.\<close>

definition void :: "('s, 'e, 'a) operation \<Rightarrow> ('s, 'e, unit) operation" where
  "void m = and_then m (\<lambda>_ s. (Ok (), s))"

fun tool_call :: "u64 \<Rightarrow> tool_op \<Rightarrow> unit input_op" where
  "tool_call run (BindToolIdentity task tid pid) = void (backend_bind_tool_identity task tid pid)"
| "tool_call run (Grant task kind) = void (grant task kind)"
| "tool_call run (InvalidateOperation task) = (\<lambda>s. (Ok (), invalidate_operation task s))"
| "tool_call run (BeginOperation task operation) = void (begin_operation run task operation)"
| "tool_call run (FinishOperation scope) = finish_operation run scope"
| "tool_call run (AcquireAccess task d) = void (acquire_access run task d)"
| "tool_call run (AttachAccess lease receipt) = attach_access run lease receipt"
| "tool_call run (CompleteAfterReturn lease task) = complete_access_after_return run lease task"
| "tool_call run (BindCompletion lease task c) = bind_access_completion run lease task c"
| "tool_call run (CompleteAfterCompletion st lease task c) = complete_access_after_completion run st lease task c"
| "tool_call run (ReadmitAccess lease task g) = readmit_access run lease task g"
| "tool_call run (AddExposure e) = add_exposure e"
| "tool_call run (ExposeBeforeContinuation task e) = backend_expose_before_continuation task e"
| "tool_call run (PrepareInjection scope d) = void (prepare_injection run scope d)"
| "tool_call run (PrepareObserved task operation d) = void (prepare_observed_injection run task operation d)"
| "tool_call run (ReadmitInjection i task g) = readmit_injection i task g"
| "tool_call run (FreezeTasks ts) = void (freeze_tasks run ts)"
| "tool_call run (FreezeGroup task include_caller) = void (freeze_group run task include_caller)"
| "tool_call run (SettleFenced ts) = settle_fenced_tasks run ts"
| "tool_call run (CancelFreeze cohort) = cancel_freeze_before_effect run cohort"
| "tool_call run (SettleFrozen cohort) = settle_frozen_cohort run cohort"

record observers =
  on_files :: files_observer
  on_exit :: "(InputTaskId \<Rightarrow> (InputUnavailable, bool) outcome) option"

fun backend_call :: "u64 \<Rightarrow> observers \<Rightarrow> backend_op \<Rightarrow> unit input_op" where
  "backend_call run obs (RegisterRoot tid pid) = void (backend_register_root run tid pid)"
| "backend_call run obs (RegisterChild task tid pid memory_shared files_shared) =
     void (backend_register_child run (on_files obs) task tid pid memory_shared files_shared)"
| "backend_call run obs (ExecReplacement displaced former) =
     void (backend_exec_replacement run (on_files obs) displaced former)"
| "backend_call run obs (SetLayout task l) = backend_set_layout task l"
| "backend_call run obs (BeginPreparation receipt scope img) = backend_begin_preparation run receipt scope img"
| "backend_call run obs (StopPrepared i) = void (backend_prepared_stopped i)"
| "backend_call run obs (Initialize i) = backend_initializing i"
| "backend_call run obs (Normalize i) = backend_normalizing i"
| "backend_call run obs (VerifyImage i readback) = backend_verified_image i readback"
| "backend_call run obs (Issue i) = backend_issued i"
| "backend_call run obs (SettleNotRun i) = backend_settled_not_run i"
| "backend_call run obs (NoChild i) = backend_no_child i"
| "backend_call run obs (RetainBirth i child memory_shared files_shared) =
     backend_retained_birth i child memory_shared files_shared"
| "backend_call run obs (UnknownOutcome i) = backend_unknown_outcome i"
| "backend_call run obs (CancelInjections task) = backend_cancel_injections task"
| "backend_call run obs (ObserveExit task) = void (observe_exit_effects (on_exit obs) task)"
| "backend_call run obs (Terminal task) = backend_terminal task"
| "backend_call run obs (Fail reason) = (\<lambda>s. (Ok (), backend_fail reason s))"

definition tool_calls :: "u64 \<Rightarrow> tool_op list \<Rightarrow> State \<Rightarrow> State" where
  "tool_calls run ops s = fold (\<lambda>op s. snd (tool_call run op s)) ops s"

text \<open>
  What is relied on of the observers: they return, and a descriptor observer changes the registry
  by calls of the Tool's side only.
\<close>

definition observers_ok :: "u64 \<Rightarrow> observers \<Rightarrow> bool" where
  "observers_ok run obs \<longleftrightarrow>
     (\<forall>f. on_files obs = Some f \<longrightarrow>
        (\<forall>e s. fst (f e s) \<noteq> Panic \<and> (\<exists>ops. snd (f e s) = tool_calls run ops s)))
     \<and> (\<forall>f task. on_exit obs = Some f \<longrightarrow> f task \<noteq> Panic)"

inductive registry_step :: "u64 \<Rightarrow> State \<Rightarrow> State \<Rightarrow> bool" for run where
  tool_step: "tool_call run op s = (r, t) \<Longrightarrow> registry_step run s t"
| backend_step: "observers_ok run obs \<Longrightarrow> backend_call run obs op s = (r, t) \<Longrightarrow> registry_step run s t"

abbreviation registry_state :: "u64 \<Rightarrow> State \<Rightarrow> bool" where
  "registry_state run \<equiv> reach (\<lambda>s. s = default_state) (registry_step run)"

section \<open>The invariant\<close>

lemma void_snd [simp]: "snd (void m s) = snd (m s)"
  by (auto simp: void_def and_then_def split: prod.split outcome.split)

lemma keeps_void: "keeps I m \<Longrightarrow> keeps I (void m)"
  unfolding void_def by (rule triple_and_then) (auto intro: tripleI)

lemma preserves_void: "preserves R (void m) = preserves R m"
  by (simp add: preserves_def)

lemmas keeps_tool = keeps_backend_bind_tool_identity keeps_grant keeps_begin_operation
  keeps_finish_operation keeps_acquire_access keeps_attach_access keeps_complete_access_after_return
  keeps_bind_access_completion keeps_complete_access_after_completion keeps_readmit_access
  keeps_add_exposure_locked keeps_backend_expose_before_continuation keeps_prepare_injection
  keeps_prepare_observed_injection keeps_readmit_injection keeps_freeze_tasks keeps_freeze_group
  keeps_settle_fenced_tasks keeps_cancel_freeze_before_effect keeps_settle_frozen_cohort

lemma keeps_tool_call: "keeps (inv run) (tool_call run op)"
  by (cases op) (simp_all add: keeps_void keeps_tool add_exposure_def tripleI inv_invalidate_operation)

lemma inv_tool_calls: "inv run s \<Longrightarrow> inv run (tool_calls run ops s)"
  unfolding tool_calls_def by (induction ops arbitrary: s) (auto intro: keepsD(2) [OF keeps_tool_call])

lemma observers_ok_files: "observers_ok run obs \<Longrightarrow> observer_ok run (on_files obs)"
proof (cases "on_files obs")
  case (Some f)
  assume *: "observers_ok run obs"
  have "lands (\<lambda>_. inv run) (inv run) (f e s)" if "inv run s" for e s
  proof -
    have "fst (f e s) \<noteq> Panic" "inv run (snd (f e s))"
      using * Some inv_tool_calls [OF that] unfolding observers_ok_def by metis+
    then show ?thesis by (cases "f e s"; cases "fst (f e s)") auto
  qed
  then show ?thesis using Some by (simp add: observer_ok_def tripleI)
qed (simp add: observer_ok_def)

lemmas keeps_backend = keeps_backend_register_root keeps_backend_set_layout
  keeps_backend_begin_preparation keeps_backend_prepared_stopped keeps_backend_initializing
  keeps_backend_normalizing keeps_backend_verified_image keeps_backend_issued
  keeps_backend_settled_not_run keeps_backend_no_child keeps_backend_retained_birth
  keeps_backend_unknown_outcome keeps_backend_cancel_injections keeps_backend_terminal

lemma keeps_backend_call:
  assumes "observers_ok run obs" shows "keeps (inv run) (backend_call run obs op)"
proof (cases op)
  case (ObserveExit task)
  then show ?thesis using assms
    by (auto simp: observers_ok_def intro!: keeps_void keeps_observe_exit_effects)
next
  case (Fail reason)
  then show ?thesis by (auto simp: backend_fail_def retain_failure_def intro!: tripleI)
qed (use observers_ok_files [OF assms] in \<open>simp_all add: keeps_backend keeps_void
    keeps_backend_register_child keeps_backend_exec_replacement\<close>)

lemma inv_registry_step:
  assumes "registry_step run s t" and "inv run s" shows "inv run t"
  using assms(1)
proof cases
  case (tool_step op r)
  then show ?thesis using keepsD(2) [OF keeps_tool_call assms(2), of op] by simp
next
  case (backend_step obs op r)
  then show ?thesis using keepsD(2) [OF keeps_backend_call assms(2), of obs op] by simp
qed

interpretation registry: invariant_machine "\<lambda>s. s = default_state" "registry_step run" "inv run" for run
  by unfold_locales (auto simp: inv_default intro: inv_registry_step)

section \<open>What the exceptional operations add\<close>

text \<open>Five operations are not quiet. They still take nothing back.\<close>

lemma grows_try_ok:
  "(\<And>a. r = Ok a \<Longrightarrow> grows n s (snd (f a s))) \<Longrightarrow> grows n s (snd (try_ok r f s))"
  using reflpD [OF grows_refl] by (cases r) (auto simp: try_ok_def)

lemma grows_and_then:
  assumes "grows n s (snd (m s))" and "\<And>a t. m s = (Ok a, t) \<Longrightarrow> grows n t (snd (f a t))"
  shows "grows n s (snd (and_then m f s))"
proof (cases "m s")
  case (Pair r t)
  then have "grows n s t" using assms(1) by simp
  then show ?thesis using assms(2) Pair transpD [OF grows_trans]
    by (auto simp: and_then_def split: outcome.split)
qed

lemma grows_next:
  assumes "\<And>g t. n < g \<Longrightarrow> state_next s = (Ok g, t) \<Longrightarrow> grows n t (snd (f g t))"
  shows "grows n s (snd (and_then state_next f s))"
proof (cases "n \<le> next_id s")
  case True
  show ?thesis
  proof (rule grows_and_then)
    show "grows n s (snd (state_next s))" using quiet_state_next by (simp add: quiet_def)
    fix g t assume *: "state_next s = (Ok g, t)"
    with True have "n < g" using state_next_Ok by fastforce
    with * show "grows n t (snd (f g t))" by (rule assms [rotated])
  qed
qed (simp add: grows_def)

lemma grows_insert_access: "preserves (grows n) (insert_access a)"
  by (auto simp: preserves_def insert_access_def intro!: grows_next)
    (auto simp: grows_def keeps_entries_def)

lemma grows_acquire_access: "preserves (grows n) (acquire_access run task d)"
  using reflpD [OF grows_refl]
  by (auto simp: preserves_def acquire_access_def
      intro!: grows_try_ok grows_and_then preservesD [OF grows_insert_access])

lemma grows_attach_declared_accesses: "preserves (grows n) (attach_declared_accesses i task d)"
proof -
  have "preserves (grows n) (for_each (\<lambda>access. and_then (insert_access \<lparr>access_task = task,
      access_declaration = access, physical = Some i, access_operation = None, native_complete = False\<rparr>)
      (\<lambda>_ s. (Ok (), s))) as)" for as
    using reflpD [OF grows_refl]
    by (intro preserves_for_each grows_refl grows_trans)
      (auto simp: preserves_def intro!: grows_and_then preservesD [OF grows_insert_access])
  moreover have "grows n s (s\<lparr>files_possibly_shared := f\<rparr>)" for s f
    using quiet_fields(4) by (simp add: quiet_def)
  ultimately show ?thesis
    using reflpD [OF grows_refl]
    by (auto simp: preserves_def attach_declared_accesses_def split: option.split
        intro!: grows_and_then grows_try_ok)
qed

lemma grows_register_injection: "preserves (grows n) (register_injection run task operation g d)"
proof -
  have "grows n s (s\<lparr>injections := bt_insert i (new_injection task operation g d) (injections s)\<rparr>)"
    if "n < physical_id i" for s i
    using quiet_insert_injection [OF that] by (simp add: quiet_def new_injection_def)
  then show ?thesis
    by (auto simp: preserves_def register_injection_def Let_def
        intro!: grows_next grows_and_then preservesD [OF grows_attach_declared_accesses])
qed

lemma grows_prepare_injection: "preserves (grows n) (prepare_injection run scope d)"
  by (auto simp: preserves_def prepare_injection_def
      intro!: grows_try_ok preservesD [OF grows_register_injection])

lemma grows_prepare_observed_injection: "preserves (grows n) (prepare_observed_injection run task operation d)"
  using reflpD [OF grows_refl]
  by (auto simp: preserves_def prepare_observed_injection_def refuse_def
      intro!: grows_try_ok preservesD [OF grows_register_injection])

lemma grows_set_layout: "preserves (grows n) (backend_set_layout task l)"
  by (auto simp: preserves_def backend_set_layout_def intro!: grows_try_ok)
    (auto simp: grows_def update_region_def keeps_entries_def region_after_def)

lemma grows_begin_preparation: "preserves (grows n) (backend_begin_preparation run receipt scope img)"
  using reflpD [OF grows_refl]
  by (auto simp: preserves_def backend_begin_preparation_def Let_def intro!: grows_try_ok)
    (auto simp: grows_def update_region_def update_injection_def keeps_entries_def region_after_def
      call_after_def)

lemma grows_prepared_stopped: "preserves (grows n) (backend_prepared_stopped i)"
  using reflpD [OF grows_refl]
  by (auto simp: preserves_def backend_prepared_stopped_def Let_def intro!: grows_try_ok)
    (auto simp: grows_def update_injection_def keeps_entries_def call_after_def)

section \<open>Observers run last\<close>

text \<open>
  A birth or an exec with a descriptor observer is the operation without it, followed at most by
  the observer.
\<close>

definition observed :: "files_observer \<Rightarrow> 'r \<times> State \<Rightarrow> 'r \<times> State \<Rightarrow> bool" where
  "observed obs r r' \<longleftrightarrow> snd r = snd r' \<or> (\<exists>f e. obs = Some f \<and> snd r = snd (f e (snd r')))"

lemma observed_refl [simp]: "observed obs r r" by (simp add: observed_def)

lemma observed_and_then:
  "(\<And>a s. observed obs (f a s) (f' a s)) \<Longrightarrow> observed obs (and_then m f s) (and_then m f' s)"
  by (auto simp: and_then_def split: prod.split outcome.split)

lemma observed_try_ok:
  "(\<And>a. observed obs (f a s) (f' a s)) \<Longrightarrow> observed obs (try_ok r f s) (try_ok r f' s)"
  by (cases r) (auto simp: try_ok_def)

lemma observed_observe:
  "observed obs (and_then (observe_files obs e) (\<lambda>_ s. (Ok reg, s)) s)
     (and_then (observe_files None e) (\<lambda>_ s. (Ok reg, s)) s)"
proof (cases obs)
  case (Some f)
  have "snd (and_then (f e) (\<lambda>_ s. (Ok reg, s)) s) = snd (f e s)" for s
    by (auto simp: and_then_def split: prod.split outcome.split)
  then show ?thesis using Some by (auto simp: observed_def observe_files_def and_then_def)
qed simp

lemma observed_retain_newborn:
  "observed obs (retain_newborn run obs par k tid pid memory_shared files_shared s)
     (retain_newborn run None par k tid pid memory_shared files_shared s)"
  unfolding retain_newborn_def Let_def by (intro observed_and_then observed_observe)

lemma observed_register_child:
  "observed obs (backend_register_child run obs par tid pid memory_shared files_shared s)
     (backend_register_child run None par tid pid memory_shared files_shared s)"
  unfolding backend_register_child_def
  by (auto split: option.split intro!: observed_try_ok observed_retain_newborn)

lemma observed_exec_replacement:
  "observed obs (backend_exec_replacement run obs displaced former s)
     (backend_exec_replacement run None displaced former s)"
  unfolding backend_exec_replacement_def retain_image_def Let_def
  by (auto intro!: observed_try_ok observed_and_then observed_observe)

section \<open>Steps\<close>

lemmas quiet_tool = quiet_bind_tool_identity quiet_grant quiet_begin_operation quiet_finish_operation
  quiet_attach_access quiet_complete_access_after_return quiet_bind_access_completion
  quiet_complete_access_after_completion quiet_readmit_access quiet_add_exposure_locked
  quiet_expose_before_continuation quiet_readmit_injection quiet_freeze_locked quiet_freeze_group
  quiet_settle_fenced_tasks quiet_cancel_freeze_before_effect quiet_settle_frozen_cohort

lemmas loud_tool = grows_acquire_access grows_prepare_injection grows_prepare_observed_injection

fun loud :: "tool_op \<Rightarrow> bool" where
  "loud (AcquireAccess _ _) = True"
| "loud (PrepareInjection _ _) = True"
| "loud (PrepareObserved _ _ _) = True"
| "loud _ = False"

lemma quiet_tool_call: "\<not> loud op \<Longrightarrow> preserves (quiet n) (tool_call run op)"
  by (cases op) (simp_all add: preserves_void quiet_tool add_exposure_def freeze_tasks_def
      preserves_def [of _ "\<lambda>s. (Ok (), _ s)"] quiet_invalidate_operation)

lemma grows_tool_call: "preserves (grows n) (tool_call run op)"
proof (cases "loud op")
  case True
  then show ?thesis by (cases op) (simp_all add: preserves_void loud_tool)
next
  case False
  then show ?thesis by (rule quiet_grows [OF quiet_tool_call])
qed

lemma grows_tool_calls: "grows n s (tool_calls run ops s)"
  unfolding tool_calls_def
proof (induction ops arbitrary: s)
  case (Cons op ops)
  then show ?case using preservesD [OF grows_tool_call, of n s run op] transpD [OF grows_trans] by fastforce
qed (simp add: reflpD [OF grows_refl])

fun exceptional :: "backend_op \<Rightarrow> bool" where
  "exceptional (SetLayout _ _) = True"
| "exceptional (BeginPreparation _ _ _) = True"
| "exceptional (StopPrepared _) = True"
| "exceptional _ = False"

lemmas quiet_backend = quiet_register_root quiet_verified_image quiet_issued quiet_settled_not_run
  quiet_no_child quiet_retained_birth quiet_unknown_outcome quiet_cancel_injections
  quiet_observe_exit_effects quiet_backend_terminal quiet_transition

text \<open>A call of the backend is quiet up to what an observer did after it.\<close>

lemma quiet_backend_call:
  assumes "observers_ok run obs" and "\<not> exceptional op"
  shows "\<exists>t ops. quiet n s t \<and> snd (backend_call run obs op s) = tool_calls run ops t
    \<and> t = snd (backend_call run (obs\<lparr>on_files := None\<rparr>) op s)"
proof -
  have none: "tool_calls run [] t = t" for t by (simp add: tool_calls_def)
  have later: "\<exists>ops. snd r = tool_calls run ops (snd r')"
    if "observed (on_files obs) r r'" for r r' :: "(InputUnavailable, InputTaskRegistration) outcome \<times> State"
    using that assms(1) none unfolding observed_def observers_ok_def by metis
  show ?thesis
  proof (cases op)
    case (RegisterChild task tid pid memory_shared files_shared)
    then show ?thesis using later [OF observed_register_child] preservesD [OF quiet_register_child]
      by auto
  next
    case (ExecReplacement displaced former)
    then show ?thesis using later [OF observed_exec_replacement] preservesD [OF quiet_exec_replacement]
      by auto
  next
    case (Fail reason)
    then show ?thesis using quiet_fields(9) none by (auto simp: backend_fail_def intro!: exI [of _ "[]"])
  qed (use assms(2) none in \<open>auto intro!: exI [of _ "[]"] preservesD [OF quiet_backend(1)]
      preservesD [OF quiet_backend(2)] preservesD [OF quiet_backend(3)] preservesD [OF quiet_backend(4)]
      preservesD [OF quiet_backend(5)] preservesD [OF quiet_backend(6)] preservesD [OF quiet_backend(7)]
      preservesD [OF quiet_backend(8)] preservesD [OF quiet_backend(9)] preservesD [OF quiet_backend(10)]
      preservesD [OF quiet_backend(11)] simp: backend_initializing_def backend_normalizing_def\<close>)
qed

lemma grows_backend_call:
  assumes "observers_ok run obs" shows "grows n s (snd (backend_call run obs op s))"
proof (cases "exceptional op")
  case True
  then show ?thesis
    by (cases op) (simp_all add: preservesD [OF grows_set_layout] preservesD [OF grows_begin_preparation]
        preservesD [OF grows_prepared_stopped])
next
  case False
  from quiet_backend_call [OF assms this, of n s] obtain t ops
    where "quiet n s t" "snd (backend_call run obs op s) = tool_calls run ops t" by blast
  then show ?thesis using transpD [OF grows_trans _ grows_tool_calls] by (simp add: quiet_def)
qed

lemma grows_step: "registry_step run s t \<Longrightarrow> grows n s t"
  by (auto elim!: registry_step.cases dest: sym [of "(_, _)"])
    (metis grows_backend_call preservesD [OF grows_tool_call] snd_conv)+

lemma grows_steps: "(registry_step run)\<^sup>*\<^sup>* s t \<Longrightarrow> grows n s t"
  by (induction rule: rtranclp_induct)
    (auto intro: reflpD [OF grows_refl] transpD [OF grows_trans] grows_step)

end
