(* ===== verification/Input_Authority.thy ===== *)
theory Input_Authority
  imports Input_Machine
begin

text \<open>
  Write authority over the reserved page is exclusive: from the final stopped scan on, no retained
  access reaches the page of a staged image. The layout of a region with an open transaction is
  left alone by the backend; a step that does so is called careful.
\<close>

definition clear_of :: "RegionLifetime \<Rightarrow> ReservedInputLayout \<Rightarrow> InputAccess \<Rightarrow> bool" where
  "clear_of r l d \<longleftrightarrow> \<not> (targets (target d) r \<and> span_overlaps (span d) l)"

definition page_authority :: "State \<Rightarrow> bool" where
  "page_authority s \<longleftrightarrow> (\<forall>i c r. bt_get (injections s) i = Some c \<longrightarrow> phase c \<noteq> None \<longrightarrow>
     call_region (bt_get (tasks s)) c = Some r \<longrightarrow>
     (\<exists>g img. bt_get (regions s) r = Some g \<and> call_image c = Some img \<and> layout g = Some (image_layout img)
        \<and> (phase c \<noteq> Some Preparing \<longrightarrow> (\<forall>j a. bt_get (accesses s) j = Some a \<longrightarrow>
              clear_of r (image_layout img) (access_declaration a)))))"

fun careful :: "backend_op \<Rightarrow> State \<Rightarrow> bool" where
  "careful (SetLayout task l) s \<longleftrightarrow>
     (case bt_get (tasks s) task of
        None \<Rightarrow> True
      | Some k \<Rightarrow>
          (case bt_get (regions s) (reg_region (registration k)) of
             None \<Rightarrow> True | Some g \<Rightarrow> transaction g = None))"
| "careful _ s \<longleftrightarrow> True"

inductive careful_step :: "u64 \<Rightarrow> State \<Rightarrow> State \<Rightarrow> bool" for run where
  careful_tool: "tool_call run op s = (r, t) \<Longrightarrow> careful_step run s t"
| careful_backend: "observers_ok run obs \<Longrightarrow> careful op s \<Longrightarrow> backend_call run obs op s = (r, t) \<Longrightarrow>
    careful_step run s t"

lemma careful_registry_step: "careful_step run s t \<Longrightarrow> registry_step run s t"
  by (auto elim!: careful_step.cases intro: registry_step.intros)

section \<open>Quiet steps\<close>

lemma authority_quiet:
  assumes I: "inv run s" and I': "inv run t" and A: "page_authority s" and q: "quiet (next_id s) s t"
  shows "page_authority t"
  unfolding page_authority_def
proof (intro allI impI)
  fix i c' r
  assume c': "bt_get (injections t) i = Some c'" "phase c' \<noteq> None"
    and r: "call_region (bt_get (tasks t)) c' = Some r"
  have ok: "bt_ok (accesses s)" using I by (simp add: inv_def wf_keys_def)
  have G: "keeps_entries (\<lambda>x _. task_generation x \<le> next_id s) task_after (bt_get (tasks s)) (bt_get (tasks t))"
    and P: "keeps_phases s t" and L: "keeps_layouts (next_id s) s t" and D: "keeps_declared s t"
    using q ok by (simp_all add: quiet_def grows_def)
  from P c' obtain c where c: "bt_get (injections s) i = Some c" "staged_before c' c"
    unfolding keeps_phases_def keeps_entries_def by blast
  obtain k where k: "bt_get (tasks s) (call_task c) = Some k" using inv_call_task [OF I c(1)] by blast
  moreover have "task_generation (call_task c) \<le> next_id s" using I k by (simp add: inv_def wf_fresh_def)
  ultimately obtain k' where k': "bt_get (tasks t) (call_task c) = Some k'" "task_after k k'"
    using G unfolding keeps_entries_def by blast
  then have "reg_region (registration k') = reg_region (registration k)"
    unfolding task_after_def by (metis InputTaskRegistration.select_convs(8) InputTaskRegistration.surjective
        InputTaskRegistration.update_convs(4,5))
  then have rs: "call_region (bt_get (tasks s)) c = Some r"
    using r k k'(1) c(2) by (simp add: call_region_def staged_before_def)
  then obtain g img where g: "bt_get (regions s) r = Some g" "call_image c = Some img"
      "layout g = Some (image_layout img)"
    and free: "phase c \<noteq> Some Preparing \<Longrightarrow> bt_get (accesses s) j = Some a \<Longrightarrow>
        clear_of r (image_layout img) (access_declaration a)" for j a
    using A c unfolding page_authority_def staged_before_def by metis
  have "region_generation r \<le> next_id s" using I g(1) by (simp add: inv_def wf_fresh_def)
  then obtain g' where g': "bt_get (regions t) r = Some g'" "layout g' = layout g"
    using L g(1) unfolding keeps_layouts_def keeps_entries_def by blast
  have "clear_of r (image_layout img) (access_declaration a')"
    if "phase c' \<noteq> Some Preparing" "bt_get (accesses t) j = Some a'" for j a'
  proof -
    note now = that
    obtain a where "bt_get (accesses s) j = Some a" "access_declaration a' = access_declaration a"
      using D ok now(2) unfolding keeps_declared_def keeps_entries_def by blast
    then show ?thesis using free now(1) c(2) by (simp add: staged_before_def)
  qed
  moreover have "call_image c' = Some img" using g(2) c(2) by (simp add: staged_before_def)
  ultimately show "\<exists>g img. bt_get (regions t) r = Some g \<and> call_image c' = Some img
      \<and> layout g = Some (image_layout img) \<and> (phase c' \<noteq> Some Preparing \<longrightarrow>
        (\<forall>j a. bt_get (accesses t) j = Some a \<longrightarrow> clear_of r (image_layout img) (access_declaration a)))"
    using g(3) g' by auto
qed

section \<open>New accesses\<close>

lemma authority_fields:
  assumes "page_authority s" and "injections t = injections s" and "tasks t = tasks s"
    and "regions t = regions s" and "\<And>j a. bt_get (accesses t) j = Some a \<Longrightarrow>
      (\<exists>j'. bt_get (accesses s) j' = Some a) \<or> validate_access s (access_declaration a) = Ok ()"
    and I: "inv run s"
  shows "page_authority t"
  unfolding page_authority_def assms(2,3,4)
proof (intro allI impI)
  fix i c r
  assume c: "bt_get (injections s) i = Some c" "phase c \<noteq> None" "call_region (bt_get (tasks s)) c = Some r"
  then obtain g img where g: "bt_get (regions s) r = Some g" "call_image c = Some img"
      "layout g = Some (image_layout img)"
    and free: "phase c \<noteq> Some Preparing \<Longrightarrow> bt_get (accesses s) j = Some a \<Longrightarrow>
        clear_of r (image_layout img) (access_declaration a)" for j a
    using assms(1) unfolding page_authority_def by metis
  have "transaction g = Some i" using I c g(1) unfolding inv_def wf_txn_def by blast
  then have "clear_of r (image_layout img) d"
    if "validate_access s d = Ok ()" "phase c \<noteq> Some Preparing" for d
    using that c g map_of_SomeD [OF g(1)]
    by (fastforce simp: validate_access_def check_all_Ok region_conflict_def clear_of_def
        split: outcome.splits if_splits option.splits)
  then show "\<exists>g img. bt_get (regions s) r = Some g \<and> call_image c = Some img
      \<and> layout g = Some (image_layout img) \<and> (phase c \<noteq> Some Preparing \<longrightarrow>
        (\<forall>j a. bt_get (accesses t) j = Some a \<longrightarrow> clear_of r (image_layout img) (access_declaration a)))"
    using g free assms(5) by blast
qed

text \<open>Tools declare accesses only after validation, on the registry as it is then.\<close>

lemma insert_access_Ok:
  "insert_access a s = (Ok i, t) \<Longrightarrow>
   next_id s < i \<and> t = s\<lparr>next_id := i, accesses := bt_insert i a (accesses s)\<rparr>"
  by (auto simp: insert_access_def and_then_def dest!: state_next_Ok split: prod.splits outcome.splits)

lemma insert_access_Err: "insert_access a s = (Err e, t) \<Longrightarrow> t = s"
  by (auto simp: insert_access_def and_then_def state_next_def split: prod.splits outcome.splits option.splits)

lemma insert_access_no_Panic: "insert_access a s \<noteq> (Panic, t)"
  by (auto simp: insert_access_def and_then_def state_next_def split: prod.splits outcome.splits option.splits)

definition same_maps :: "State \<Rightarrow> State \<Rightarrow> bool" where
  "same_maps s t \<longleftrightarrow> injections t = injections s \<and> tasks t = tasks s \<and> regions t = regions s"

lemma validate_access_same_maps:
  "same_maps s t \<Longrightarrow> validate_access t d = validate_access s d"
proof -
  assume *: "same_maps s t"
  then have "region_conflict t d = region_conflict s d"
    by (intro ext) (auto simp: region_conflict_def same_maps_def split: prod.split option.split)
  with * show ?thesis by (auto simp: validate_access_def same_maps_def split: InputTarget.split outcome.split)
qed

definition declares :: "InputAccess set \<Rightarrow> State \<Rightarrow> State \<Rightarrow> bool" where
  "declares ds s t \<longleftrightarrow> same_maps s t \<and> (\<forall>j a. bt_get (accesses t) j = Some a \<longrightarrow>
     (\<exists>j'. bt_get (accesses s) j' = Some a) \<or> access_declaration a \<in> ds)"

lemma declares_refl [simp]: "declares ds s s" by (auto simp: declares_def same_maps_def)

lemma declares_trans: "declares ds s t \<Longrightarrow> declares ds t u \<Longrightarrow> declares ds s u"
  unfolding declares_def same_maps_def by metis

lemma declares_insert_access:
  "access_declaration a \<in> ds \<Longrightarrow> declares ds s (snd (insert_access a s))"
  using insert_access_Ok [of a s] insert_access_Err [of a s] insert_access_no_Panic [of a s]
  by (cases "insert_access a s"; cases "fst (insert_access a s)")
    (auto simp: declares_def same_maps_def split: if_splits)

lemma declares_and_then:
  "declares ds s (snd (m s)) \<Longrightarrow> (\<And>a t. m s = (Ok a, t) \<Longrightarrow> declares ds t (snd (f a t))) \<Longrightarrow>
   declares ds s (snd (and_then m f s))"
  by (cases "m s") (auto simp: and_then_def intro: declares_trans split: outcome.split)

lemma declares_for_each:
  "(\<And>x s. x \<in> set xs \<Longrightarrow> declares ds s (snd (f x s))) \<Longrightarrow> declares ds s (snd (for_each f xs s))"
proof (induction xs arbitrary: s)
  case (Cons x xs)
  then show ?case by (auto intro!: declares_and_then)
qed simp

lemma declares_try_ok:
  "(\<And>a. r = Ok a \<Longrightarrow> declares ds s (snd (f a s))) \<Longrightarrow> declares ds s (snd (try_ok r f s))"
  by (cases r) (auto simp: try_ok_def)

lemma authority_declares:
  assumes "inv run s" and "page_authority s" and "declares {d. validate_access s d = Ok ()} s t"
  shows "page_authority t"
  using assms by (intro authority_fields [OF assms(2)]) (auto simp: declares_def same_maps_def)

lemma declares_acquire_access:
  "declares {d. validate_access s d = Ok ()} s (snd (acquire_access run task d s))"
  unfolding acquire_access_def
  by (auto intro!: declares_try_ok declares_and_then declares_insert_access)

lemma declares_attach:
  "declares {d. validate_access s d = Ok ()} s (snd (attach_declared_accesses i task d s))"
proof -
  have files: "declares ds s (s\<lparr>files_possibly_shared := f\<rparr>)" for ds s f
    by (auto simp: declares_def same_maps_def)
  have "declares {d. validate_access s d = Ok ()} t (snd (try_ok
      (check_all (\<lambda>access. if lifetime access \<noteq> Transient then Err ''input-call-access-not-transient''
         else validate_access t access) (transient d))
      (\<lambda>_. for_each (\<lambda>access. and_then (insert_access \<lparr>access_task = task, access_declaration = access,
           physical = Some i, access_operation = None, native_complete = False\<rparr>)
         (\<lambda>_ s. (Ok (), s))) (transient d)) t))" if "same_maps s t" for t
    using validate_access_same_maps [OF that]
    by (auto intro!: declares_try_ok declares_for_each declares_and_then declares_insert_access
        simp: check_all_Ok split: if_splits)
  moreover have "same_maps s s" "same_maps s (s\<lparr>files_possibly_shared := f\<rparr>)" for f
    by (simp_all add: same_maps_def)
  ultimately show ?thesis
    unfolding attach_declared_accesses_def
    by (auto intro!: declares_and_then files split: option.splits if_splits)
qed

lemma authority_register_injection:
  assumes I: "inv run s" and A: "page_authority s"
  shows "page_authority (snd (register_injection run task operation g d s))"
proof (cases "state_next s")
  case (Pair q t)
  have next_id: "page_authority (s\<lparr>next_id := n\<rparr>)" for n using A by (simp add: page_authority_def)
  show ?thesis
  proof (cases q)
    case (Ok n)
    let ?i = "PhysicalInjectionId run n"
    have t: "next_id s < n" "t = s\<lparr>next_id := n\<rparr>" using state_next_Ok Pair Ok by blast+
    have It: "inv run t" unfolding t(2) using t(1) by (intro inv_next [OF I]) simp
    have new: "page_authority (u\<lparr>injections := bt_insert ?i (new_injection task operation g d) (injections u)\<rparr>)"
      if "page_authority u" for u
      using that by (simp add: page_authority_def new_injection_def)
    from authority_declares [OF It _ declares_attach] next_id t(2)
    have "page_authority (snd (attach_declared_accesses ?i task d t))" by blast
    then show ?thesis using Pair Ok new
      by (auto simp: register_injection_def and_then_def Let_def split: prod.split outcome.split)
  qed (use Pair next_id A in \<open>auto simp: register_injection_def and_then_def state_next_def
      split: option.splits prod.splits\<close>)
qed

section \<open>Tool calls\<close>

lemma authority_tool_call:
  assumes I: "inv run s" and A: "page_authority s"
  shows "page_authority (snd (tool_call run op s))"
proof (cases "loud op")
  case True
  note call = authority_register_injection [OF I A]
  from True show ?thesis
  proof (cases op)
    case (AcquireAccess task d)
    then show ?thesis using authority_declares [OF I A declares_acquire_access] by simp
  next
    case (PrepareInjection scope d)
    then show ?thesis using call A by (auto simp: prepare_injection_def try_ok_def split: outcome.split)
  next
    case (PrepareObserved task operation d)
    then show ?thesis using call A
      by (auto simp: prepare_observed_injection_def try_ok_def refuse_def split: outcome.split)
  qed simp_all
next
  case False
  show ?thesis
    by (rule authority_quiet [OF I keepsD(2) [OF keeps_tool_call I] A preservesD [OF quiet_tool_call [OF False]]])
qed

lemma authority_tool_calls:
  "inv run s \<Longrightarrow> page_authority s \<Longrightarrow> page_authority (tool_calls run ops s)"
  unfolding tool_calls_def
  by (induction ops arbitrary: s) (auto intro: authority_tool_call keepsD(2) [OF keeps_tool_call])

section \<open>Page transactions\<close>

lemma authority_set_layout:
  assumes I: "inv run s" and A: "page_authority s" and "careful (SetLayout task l) s"
  shows "page_authority (snd (backend_set_layout task l s))"
proof -
  have "page_authority (update_region r (\<lambda>g. g\<lparr>layout := Some l'\<rparr>) s)"
    if r: "bt_get (regions s) r = Some g" "transaction g = None" for r g l'
  proof -
    have "q \<noteq> r" if "bt_get (injections s) i = Some c" "phase c \<noteq> None"
        "call_region (bt_get (tasks s)) c = Some q" for i c q
    proof
      assume "q = r"
      then have "transaction g = Some i" using I that r(1) unfolding inv_def wf_txn_def by blast
      with r(2) show False by simp
    qed
    then show ?thesis using A unfolding page_authority_def update_region_def by fastforce
  qed
  then show ?thesis using assms(2,3)
    by (auto simp: backend_set_layout_def try_ok_def live_Ok unwrap_def split: outcome.split option.split)
qed

lemma authority_begin_preparation:
  assumes I: "inv run s" and A: "page_authority s"
  shows "page_authority (snd (backend_begin_preparation run receipt scope img s))"
proof -
  let ?i = "receipt_id receipt"
  have "page_authority (update_injection ?i (\<lambda>c. c\<lparr>phase := Some Preparing, call_image := Some img\<rparr>)
      (update_region (reg_region (registration k)) (\<lambda>g. g\<lparr>transaction := Some ?i\<rparr>) s))"
    if k: "bt_get (tasks s) (scope_task scope) = Some k"
      and g: "bt_get (regions s) (reg_region (registration k)) = Some g" "layout g = Some (image_layout img)"
      and c: "bt_get (injections s) ?i = Some c" "call_task c = scope_task scope" for k g c
    unfolding page_authority_def
  proof (intro allI impI)
    let ?s = "update_injection ?i (\<lambda>c. c\<lparr>phase := Some Preparing, call_image := Some img\<rparr>)
      (update_region (reg_region (registration k)) (\<lambda>g. g\<lparr>transaction := Some ?i\<rparr>) s)"
    fix j d r
    assume d: "bt_get (injections ?s) j = Some d" "phase d \<noteq> None" "call_region (bt_get (tasks ?s)) d = Some r"
    show "\<exists>g img. bt_get (regions ?s) r = Some g \<and> call_image d = Some img \<and> layout g = Some (image_layout img)
        \<and> (phase d \<noteq> Some Preparing \<longrightarrow> (\<forall>j a. bt_get (accesses ?s) j = Some a \<longrightarrow>
            clear_of r (image_layout img) (access_declaration a)))"
    proof (cases "j = ?i")
      case True
      then have "d = c\<lparr>phase := Some Preparing, call_image := Some img\<rparr>"
        using d(1) c(1) by (simp add: update_injection_def update_region_def)
      then show ?thesis using d(3) k g c(2) by (auto simp: call_region_def update_region_def update_injection_def)
    next
      case False
      then have "bt_get (injections s) j = Some d" using d(1) by (simp add: update_injection_def update_region_def)
      then show ?thesis using A d(2,3) unfolding page_authority_def update_region_def update_injection_def
        by fastforce
    qed
  qed
  then show ?thesis using A
    by (auto simp: backend_begin_preparation_def try_ok_def live_Ok unwrap_def ok_or_def Let_def
        split: outcome.split option.split)
qed

lemma authority_prepared_stopped:
  assumes I: "inv run s" and A: "page_authority s"
  shows "page_authority (snd (backend_prepared_stopped i s))"
proof -
  have "page_authority (update_injection i (\<lambda>c. c\<lparr>phase := Some PreparedStopped\<rparr>) s)"
    if c: "bt_get (injections s) i = Some c" "phase c = Some Preparing" "call_image c = Some img"
      and k: "bt_get (tasks s) (call_task c) = Some k"
      and scan: "check_all (access_conflict (reg_region (registration k)) img) (bt_values (accesses s)) = Ok ()"
    for c k img
    unfolding page_authority_def
  proof (intro allI impI)
    let ?s = "update_injection i (\<lambda>c. c\<lparr>phase := Some PreparedStopped\<rparr>) s"
    fix j d r
    assume d: "bt_get (injections ?s) j = Some d" "phase d \<noteq> None" "call_region (bt_get (tasks ?s)) d = Some r"
    show "\<exists>g img. bt_get (regions ?s) r = Some g \<and> call_image d = Some img \<and> layout g = Some (image_layout img)
        \<and> (phase d \<noteq> Some Preparing \<longrightarrow> (\<forall>j a. bt_get (accesses ?s) j = Some a \<longrightarrow>
            clear_of r (image_layout img) (access_declaration a)))"
    proof (cases "j = i")
      case True
      then have dc: "d = c\<lparr>phase := Some PreparedStopped\<rparr>" using d(1) c(1) by (simp add: update_injection_def)
      then have r: "r = reg_region (registration k)" "call_region (bt_get (tasks s)) c = Some r"
        using d(3) k by (auto simp: call_region_def update_injection_def)
      then obtain g where g: "bt_get (regions s) r = Some g" "layout g = Some (image_layout img)"
        using A c unfolding page_authority_def by fastforce
      have "clear_of r (image_layout img) (access_declaration a)" if "bt_get (accesses s) j = Some a" for j a
        using scan map_of_SomeD [OF that] r(1)
        by (force simp: check_all_Ok access_conflict_def clear_of_def split: if_splits)
      then show ?thesis using g dc c(3) by (simp add: update_injection_def)
    next
      case False
      then have "bt_get (injections s) j = Some d" using d(1) by (simp add: update_injection_def)
      then show ?thesis using A d(2,3) unfolding page_authority_def update_injection_def by fastforce
    qed
  qed
  then show ?thesis using A
    by (auto simp: backend_prepared_stopped_def try_ok_def live_Ok unwrap_def ok_or_def Let_def
        split: outcome.split option.split)
qed

lemma authority_backend_call:
  assumes I: "inv run s" and A: "page_authority s" and ok: "observers_ok run obs" and "careful op s"
  shows "page_authority (snd (backend_call run obs op s))"
proof (cases "exceptional op")
  case True
  then show ?thesis using assms
    by (cases op) (simp_all add: authority_set_layout authority_begin_preparation authority_prepared_stopped)
next
  case False
  have ok': "observers_ok run (obs\<lparr>on_files := None\<rparr>)" using ok by (simp add: observers_ok_def)
  from quiet_backend_call [OF ok False, of "next_id s" s] obtain t ops
    where t: "quiet (next_id s) s t" "snd (backend_call run obs op s) = tool_calls run ops t"
      "t = snd (backend_call run (obs\<lparr>on_files := None\<rparr>) op s)" by blast
  have "inv run t" unfolding t(3) by (rule keepsD(2) [OF keeps_backend_call [OF ok'] I])
  then show ?thesis unfolding t(2) by (intro authority_tool_calls authority_quiet [OF I _ A t(1)])
qed

lemma authority_step:
  assumes "careful_step run s t" and "inv run s \<and> page_authority s" shows "inv run t \<and> page_authority t"
  using assms(1)
proof cases
  case (careful_tool op r)
  then show ?thesis using assms(2) authority_tool_call [of run s op] keepsD(2) [OF keeps_tool_call, of run s op]
    by simp
next
  case (careful_backend obs op r)
  then show ?thesis
    using assms(2) authority_backend_call [of run s obs op] keepsD(2) [OF keeps_backend_call, of run obs s op]
    by simp
qed

interpretation page: invariant_machine "\<lambda>s. s = default_state" "careful_step run"
    "\<lambda>s. inv run s \<and> page_authority s" for run
  by unfold_locales (use authority_step inv_default in \<open>auto simp: page_authority_def default_state_def\<close>)

end
