(* ===== verification/Input_Properties.thy ===== *)
theory Input_Properties
  imports Input_Authority
begin

text \<open>
  What holds of the registry in every state that Tools and the backend can bring it to. Histories
  are lists of calls without observers; the examples run them.
\<close>

datatype registry_call = Tool tool_op | Backend backend_op

definition no_observers :: observers where
  "no_observers = \<lparr>on_files = None, on_exit = None\<rparr>"

fun perform :: "u64 \<Rightarrow> registry_call \<Rightarrow> unit input_op" where
  "perform run (Tool op) = tool_call run op"
| "perform run (Backend op) = backend_call run no_observers op"

definition history :: "u64 \<Rightarrow> registry_call list \<Rightarrow> State" where
  "history run calls = fold (\<lambda>c s. snd (perform run c s)) calls default_state"

text \<open>A root task prepares one page transaction up to its issue.\<close>

definition root_task :: InputTaskId where "root_task = InputTaskId 1 1 7"

definition page_layout :: ReservedInputLayout where
  "page_layout = \<lparr>base = RESERVED_INPUT_BASE, page_bytes = 4096, abi = X86_64\<rparr>"

definition plain_call :: PhysicalInjectionDescription where
  "plain_call = \<lparr>number = 0, args = [], input = Registers,
     expected_sharing = \<lparr>sharing_memory = None, sharing_files = None, may_create = False,
       sharing_thread_group = None\<rparr>,
     transient = [], prospective = [], unknown_lifecycle = None\<rparr>"

definition root_scope :: InputOperationScope where
  "root_scope = \<lparr>scope_run = 1, scope_task = root_task, scope_grant = 5, scope_operation = 9\<rparr>"

definition root_call :: PhysicalInjectionId where "root_call = PhysicalInjectionId 1 6"

definition staged_image :: ReservedInputImage where
  "staged_image = \<lparr>image_layout = page_layout, image_bytes = []\<rparr>"

definition staging :: "registry_call list" where
  "staging = [Backend (RegisterRoot 7 7), Backend (SetLayout root_task page_layout),
     Tool (Grant root_task Ordinary), Tool (BeginOperation root_task 9),
     Tool (PrepareInjection root_scope plain_call),
     Backend (BeginPreparation \<lparr>receipt_run = 1, receipt_id = root_call\<rparr> root_scope staged_image),
     Backend (StopPrepared root_call)]"

definition issuing :: "registry_call list" where
  "issuing = [Backend (Initialize root_call), Backend (VerifyImage root_call []), Backend (Issue root_call)]"

definition root_record :: Task where
  "root_record = \<lparr>registration = \<lparr>reg_task = root_task, native_tid = 7, native_pid = 7, tool_tid = None,
       tool_pid = None, reg_group = ThreadGroupLifetime 1 4, reg_parent = None,
       reg_region = RegionLifetime 1 2, reg_files = FileTableLifetime 1 3\<rparr>,
     task_grant = Some (5, Ordinary, True), frozen = {}, native_terminal = False,
     native_effects_complete = False\<rparr>"

definition call_record :: "PhysicalInjectionState \<Rightarrow> InputTransactionPhase \<Rightarrow> ReservedInputImage option \<Rightarrow> Injection" where
  "call_record st p v = \<lparr>call_task = root_task, call_operation = 9, call_grant = 5, description = plain_call,
     call_state = st, phase = Some p, call_image = Some staged_image, verified_image = v\<rparr>"

definition small_access :: InputAccess where
  "small_access = \<lparr>target = Region (RegionLifetime 1 2), span = Range 0x1000 8, direction = Read,
     lifetime = Transient, cause = ''read''\<rparr>"

lemma no_observers_ok: "observers_ok run no_observers"
  by (simp add: observers_ok_def no_observers_def)

lemma history_append: "history run (calls @ [c]) = snd (perform run c (history run calls))"
  by (simp add: history_def)

lemma history_reached: "registry_state run (history run calls)"
proof (induction calls rule: rev_induct)
  case Nil
  then show ?case by (simp add: history_def reach_start)
next
  case (snoc c calls)
  obtain r t where *: "perform run c (history run calls) = (r, t)" by fastforce
  have "registry_step run (history run calls) t"
  proof (cases c)
    case (Tool op)
    then show ?thesis using * by (auto intro: tool_step)
  next
    case (Backend op)
    then show ?thesis using * by (auto intro: backend_step no_observers_ok)
  qed
  then show ?case using snoc * by (auto simp: history_append intro: reach_step)
qed

lemmas reached_inv = registry.inv_reach

lemma careful_history:
  assumes "list_all (\<lambda>c. case c of Backend (SetLayout _ _) \<Rightarrow> False | _ \<Rightarrow> True) calls"
    and "reach (\<lambda>s. s = default_state) (careful_step run) s"
  shows "reach (\<lambda>s. s = default_state) (careful_step run) (fold (\<lambda>c s. snd (perform run c s)) calls s)"
  using assms
proof (induction calls arbitrary: s)
  case (Cons c calls)
  obtain r t where *: "perform run c s = (r, t)" by fastforce
  have "careful_step run s t"
  proof (cases c)
    case (Tool op)
    then show ?thesis using * by (auto intro: careful_tool)
  next
    case (Backend op)
    then have "careful op s" using Cons.prems(1) by (cases op) auto
    then show ?thesis using * Backend by (auto intro: careful_backend no_observers_ok)
  qed
  then show ?case using Cons * by (auto intro: reach_step)
qed simp

lemma staging_facts:
  "bt_get (injections (history 1 staging)) root_call = Some (call_record Prepared PreparedStopped None)"
  "bt_get (tasks (history 1 staging)) root_task = Some root_record"
  by code_simp+

lemma issuing_facts:
  "bt_get (injections (history 1 (staging @ issuing))) root_call
     = Some (call_record Issued Launched (Some staged_image))"
  "bt_get (tasks (history 1 (staging @ issuing))) root_task = Some root_record"
  "map_option transaction (bt_get (regions (history 1 (staging @ issuing))) (RegionLifetime 1 2))
     = Some (Some root_call)"
  "backend_continuation (history 1 (staging @ issuing)) root_task (Some root_call) = Ok ()"
  by code_simp+

section \<open>Safety of every reachable state\<close>

text \<open>
  C1: No operation of the registry panics in a reachable state: every index, unwrap and mutable
  lookup of the source finds its entry, whatever the arguments are, as long as the observers
  themselves return. This covers the operations that change the state and the continuation check.
\<close>

theorem registry_no_panic:
  assumes "registry_state run s" and "observers_ok run obs"
  shows "fst (tool_call run op s) \<noteq> Panic \<and> fst (backend_call run obs op' s) \<noteq> Panic
    \<and> backend_continuation s task phys \<noteq> Panic"
proof -
  have I: "inv run s" by (rule reached_inv [OF assms(1)])
  have "backend_continuation s task phys \<noteq> Panic"
  proof (cases "live s task")
    case (Ok k)
    then obtain g where g: "bt_get (regions s) (reg_region (registration k)) = Some g"
      using inv_task_region [OF I] by (auto simp: live_Ok)
    then have "\<exists>c. bt_get (injections s) i = Some c" if "transaction g = Some i" for i
      using I that unfolding inv_def wf_txn_def by blast
    then show ?thesis using Ok g by (auto simp: backend_continuation_def split: option.split)
  qed (auto simp: backend_continuation_def live_def split: option.splits if_splits)
  then show ?thesis
    using keepsD(1) [OF keeps_tool_call I] keepsD(1) [OF keeps_backend_call [OF assms(2)] I] by blast
qed

theorem registry_no_panic_witness:
  "fst (tool_call 1 (FinishOperation root_scope) (history 1 staging)) \<noteq> Panic
   \<and> fst (backend_call 1 no_observers (Terminal root_task) (history 1 staging)) \<noteq> Panic
   \<and> backend_continuation (history 1 staging) root_task None \<noteq> Panic"
  using registry_no_panic [OF history_reached no_observers_ok] by blast

text \<open>
  C3: At most one page transaction is open in a memory region. Two calls of tasks of one region that
  both have a transaction phase are the same call, and it is the one the region names.
\<close>

theorem one_transaction_per_region:
  assumes "registry_state run s"
    and "bt_get (injections s) i = Some c" and "phase c \<noteq> None"
    and "bt_get (injections s) j = Some d" and "phase d \<noteq> None"
    and "bt_get (tasks s) (call_task c) = Some k" and "bt_get (tasks s) (call_task d) = Some k'"
    and "reg_region (registration k) = reg_region (registration k')"
  shows "i = j \<and> map_option transaction (bt_get (regions s) (reg_region (registration k))) = Some (Some i)"
proof -
  have I: "inv run s" by (rule reached_inv [OF assms(1)])
  obtain g where g: "bt_get (regions s) (reg_region (registration k)) = Some g"
    using inv_task_region [OF I assms(6)] by blast
  have "call_region (bt_get (tasks s)) c = Some (reg_region (registration k))"
    "call_region (bt_get (tasks s)) d = Some (reg_region (registration k))"
    using assms(6-8) by (simp_all add: call_region_def)
  then have "transaction g = Some i" "transaction g = Some j"
    using I assms(2-5) g unfolding inv_def wf_txn_def by blast+
  then show ?thesis using g by simp
qed

theorem one_transaction_per_region_witness:
  "map_option transaction (bt_get (regions (history 1 staging)) (reg_region (registration root_record)))
     = Some (Some root_call)"
  using one_transaction_per_region [OF history_reached staging_facts(1) _ staging_facts(1) _ _ _ refl,
      of root_record] staging_facts(2)
  by (simp add: call_record_def)

text \<open>
  C6: A native task has at most one issued physical call, so the decoder's lookup of the issued
  call of a task has one possible answer.
\<close>

theorem one_issued_call:
  assumes "registry_state run s"
    and "bt_get (injections s) i = Some c" and "call_state c = Issued"
  shows "backend_issued_call s (call_task c) = Some i"
proof -
  have I: "inv run s" by (rule reached_inv [OF assms(1)])
  let ?P = "\<lambda>(j, d). call_task d = call_task c \<and> call_state d = Issued"
  have "find ?P (injections s) \<noteq> None"
    using map_of_SomeD [OF assms(2)] assms(3) by (auto simp: find_None_iff)
  then obtain j d where "find ?P (injections s) = Some (j, d)" by fastforce
  moreover from this have "bt_get (injections s) j = Some d" "call_task d = call_task c" "call_state d = Issued"
    using find_Some_set [of ?P] I by (fastforce simp: inv_def wf_keys_def bt_in_set_iff)+
  then have "j = i" using I assms(2,3) unfolding inv_def wf_issued_def by blast
  ultimately show ?thesis by (simp add: backend_issued_call_def)
qed

theorem one_issued_call_witness: "backend_issued_call (history 1 (staging @ issuing)) root_task = Some root_call"
  using one_issued_call [OF history_reached issuing_facts(1)] by (simp add: call_record_def)





text \<open>
  C5: A continuation never exposes an unresolved page. If a task may continue while the page of its
  region was touched, then it continues for exactly the call that owns the transaction, and the
  page is the verified image of that call.
\<close>

theorem continuation_owns_page:
  assumes "registry_state run s" and "backend_continuation s task phys = Ok ()"
    and "bt_get (tasks s) task = Some k"
    and "bt_get (regions s) (reg_region (registration k)) = Some g" and "transaction g = Some i"
    and "bt_get (injections s) i = Some c" and "page_touched (phase c)"
  shows "phys = Some i \<and> verified_image c = call_image c \<and> call_image c \<noteq> None"
proof -
  have "live s task = Ok k" using assms(2,3)
    by (auto simp: backend_continuation_def live_def split: if_splits)
  then have "phys = Some i \<and> phase c \<in> {Some Ready, Some Launched}"
    using assms(2,4-7) by (auto simp: backend_continuation_def page_touched_def split: if_splits)
  then show ?thesis using inv_call_wf [OF reached_inv [OF assms(1)] assms(6)] by (auto simp: call_wf_def)
qed

theorem continuation_owns_page_witness:
  "\<exists>c. bt_get (injections (history 1 (staging @ issuing))) root_call = Some c \<and> page_touched (phase c)
     \<and> verified_image c = call_image c \<and> call_image c \<noteq> None"
proof -
  obtain g where "bt_get (regions (history 1 (staging @ issuing))) (reg_region (registration root_record)) = Some g"
      "transaction g = Some root_call"
    using issuing_facts(3) by (auto simp: root_record_def)
  from continuation_owns_page [OF history_reached issuing_facts(4,2) this issuing_facts(1)] issuing_facts(1)
  show ?thesis by (auto simp: call_record_def page_touched_def)
qed

end
