(* ===== verification/Input_Settlement.thy ===== *)
theory Input_Settlement
  imports Input_Properties
begin

text \<open>
  Retirement: what a freeze withholds, who joins a frozen cohort, what a fence thaws, what death
  and failure leave behind, and what no later operation takes back.
\<close>

text \<open>Examples: a lasting access, a frozen root, a dead root under a fence.\<close>

definition lasting_access :: InputAccess where
  "lasting_access = small_access\<lparr>lifetime := Persistent\<rparr>"

definition lasting :: State where
  "lasting = history 1 (staging @ [Tool (AcquireAccess root_task lasting_access)])"

definition frozen_root :: State where
  "frozen_root = history 1 [Backend (RegisterRoot 7 7), Tool (FreezeTasks [root_task])]"

definition dead_root :: State where
  "dead_root = history 1 [Backend (RegisterRoot 7 7), Tool (FreezeTasks [root_task]), Backend (Terminal root_task)]"

definition granted_root :: State where
  "granted_root = history 1 [Backend (RegisterRoot 7 7), Tool (Grant root_task Ordinary)]"

section \<open>History\<close>

lemma same_native_identity:
  assumes "task_after k k'"
  shows "reg_task (registration k') = reg_task (registration k)"
    "native_tid (registration k') = native_tid (registration k)"
    "native_pid (registration k') = native_pid (registration k)"
    "reg_group (registration k') = reg_group (registration k)"
    "reg_parent (registration k') = reg_parent (registration k)"
    "reg_region (registration k') = reg_region (registration k)"
    "reg_files (registration k') = reg_files (registration k)"
  using assms unfolding task_after_def
  by (cases "registration k"; cases "registration k'"; simp)+



section \<open>Freezes\<close>



lemma check_members_Ok:
  "finite m \<Longrightarrow> check_members s bad e m = Ok u \<longleftrightarrow> (\<forall>x\<in>m. \<exists>k. bt_get (tasks s) x = Some k \<and> \<not> bad k)"
  by (simp add: check_members_def check_all_Ok) (auto split: option.splits if_splits)

lemma settle_cohort_freezes:
  "settle_cohort i s = (Ok u, t) \<Longrightarrow> bt_get (freezes t) = (bt_get (freezes s))(i := None)"
  by (auto simp: settle_cohort_def remove_freeze_def retire_accesses_def and_then_def
      split: option.splits if_splits prod.splits outcome.splits)

lemma settle_cohorts_freezes:
  "for_each settle_cohort is s = (Ok u, t) \<Longrightarrow>
   bt_get (freezes t) j = (if j \<in> set is then None else bt_get (freezes s) j)"
proof (induction "is" arbitrary: s)
  case (Cons i "is")
  obtain q s' where *: "settle_cohort i s = (q, s')" by fastforce
  with Cons.prems obtain v where "q = Ok v" by (cases q) (auto simp: and_then_def)
  with * Cons show ?case using settle_cohort_freezes [of i s v s'] by (auto simp: and_then_def)
qed simp

text \<open>
  C9: A fence thaws complete cohorts and nothing else. When the settlement of a list of accounted
  tasks succeeds, a cohort ends exactly when it is not empty and every member is on the list; every
  other cohort keeps its exact members.
\<close>

theorem fence_thaws_complete_cohorts:
  assumes "registry_state run s" and "settle_fenced_tasks run ts s = (Ok (), t)"
    and "bt_get (freezes s) i = Some members"
  shows "bt_get (freezes t) i = (if members \<noteq> {} \<and> members \<subseteq> set ts then None else Some members)"
proof -
  have I: "inv run s" by (rule reached_inv [OF assms(1)])
  from assms(2) have checked: "check_members s (\<lambda>k. \<not> native_effects_complete k) ''input-cohort-native-unsettled'' (set ts) = Ok ()"
    and settled: "\<not> has_unsettled_access s (set ts)"
    and run: "for_each settle_cohort (completed_cohorts s (set ts)) s = (Ok (), t)"
    by (auto simp: settle_fenced_tasks_def Let_def try_ok_def split: if_splits outcome.splits)
  have complete: "\<exists>k. bt_get (tasks s) x = Some k \<and> native_effects_complete k" if "x \<in> set ts" for x
    using checked that by (simp add: check_members_Ok)
  have access: "\<not> has_unsettled_access s m" if "m \<subseteq> set ts" for m
    using settled that by (auto simp: has_unsettled_access_def list_ex_iff)
  have "bt_ok (freezes s)" using I by (simp add: inv_def wf_keys_def)
  then have only: "(i, m) \<in> set (freezes s) \<longleftrightarrow> m = members" for m
    using assms(3) by (auto simp: bt_in_set_iff)
  have "i \<in> set (completed_cohorts s (set ts)) \<longleftrightarrow>
      members \<noteq> {} \<and> members \<subseteq> set ts \<and> (\<forall>x\<in>members. case bt_get (tasks s) x of
        Some k \<Rightarrow> native_effects_complete k | None \<Rightarrow> False) \<and> \<not> has_unsettled_access s members"
    unfolding completed_cohorts_def set_map set_filter image_iff using only by auto
  moreover have "\<forall>x\<in>members. case bt_get (tasks s) x of Some k \<Rightarrow> native_effects_complete k | None \<Rightarrow> False"
    if "members \<subseteq> set ts"
    using complete that by fastforce
  ultimately have "i \<in> set (completed_cohorts s (set ts)) \<longleftrightarrow> members \<noteq> {} \<and> members \<subseteq> set ts"
    using access by blast
  then show ?thesis using settle_cohorts_freezes [OF run, of i] assms(3) by simp
qed

theorem fence_thaws_complete_cohorts_witness:
  "bt_get (freezes (snd (settle_fenced_tasks 1 [root_task] dead_root))) 5 = None"
proof -
  have "fst (settle_fenced_tasks 1 [root_task] dead_root) = Ok ()"
    "bt_get (freezes dead_root) 5 = Some {root_task}"
    by code_simp+
  from fence_thaws_complete_cohorts [of 1 dead_root "[root_task]", OF _ _ this(2)] this(1) history_reached
  show ?thesis by (simp add: dead_root_def prod_eq_iff)
qed

section \<open>Births\<close>

lemma publish_task_Ok:
  "publish_task reg ids s = (Ok u, t) \<Longrightarrow>
     (\<forall>i\<in>ids. bt_get (freezes s) i \<noteq> None)
     \<and> bt_get (tasks t) = (bt_get (tasks s))(reg_task reg \<mapsto> new_task reg ids)
     \<and> bt_get (by_tid t) = (bt_get (by_tid s))(task_tid (reg_task reg) \<mapsto> reg_task reg)
     \<and> regions t = regions s
     \<and> (\<forall>i. bt_get (freezes t) i = (if i \<in> ids then map_option (insert (reg_task reg)) (bt_get (freezes s) i)
           else bt_get (freezes s) i))"
  by (auto simp: publish_task_def Let_def split: if_splits)

lemma and_then_Ok:
  "and_then m f s = (Ok b, t) \<longleftrightarrow> (\<exists>a u. m s = (Ok a, u) \<and> f a u = (Ok b, t))"
  by (auto simp: and_then_def split: prod.splits outcome.splits)

lemma try_ok_Ok_iff: "try_ok r f s = (Ok b, t) \<longleftrightarrow> (\<exists>a. r = Ok a \<and> f a s = (Ok b, t))"
  by (cases r) (auto simp: try_ok_def)

lemma child_region_fields:
  "child_region run r memory_shared s = (Ok q, t) \<Longrightarrow>
   tasks t = tasks s \<and> freezes t = freezes s \<and> frozen_groups t = frozen_groups s"
  by (auto simp: child_region_def and_then_Ok try_ok_Ok_iff Let_def dest!: state_next_Ok split: if_splits)

lemma child_files_fields:
  "child_files run fs files_shared s = (Ok q, t) \<Longrightarrow>
   tasks t = tasks s \<and> freezes t = freezes s \<and> frozen_groups t = frozen_groups s"
  by (auto simp: child_files_def and_then_Ok dest!: state_next_Ok split: if_splits)

lemma child_group_fields:
  "child_group run preg pid s = (Ok q, t) \<Longrightarrow>
   tasks t = tasks s \<and> freezes t = freezes s \<and> frozen_groups t = frozen_groups s"
  by (auto simp: child_group_def and_then_Ok dest!: state_next_Ok split: if_splits)

lemma note_child_sharing_fields:
  "note_child_sharing preg pid grp r memory_shared s = (Ok q, t) \<Longrightarrow>
   tasks t = tasks s \<and> freezes t = freezes s \<and> frozen_groups t = frozen_groups s"
  by (auto simp: note_child_sharing_def Let_def try_ok_Ok_iff update_region_def split: if_splits)

text \<open>What a birth leaves when no observer is installed.\<close>

lemma retain_newborn_Ok:
  assumes "retain_newborn run None par k tid pid memory_shared files_shared s = (Ok reg, t)"
  shows "reg_parent reg = Some par \<and> native_pid reg = pid \<and> task_tid (reg_task reg) = tid \<and>
    (\<exists>ids. ids = frozen k \<union> group_freezes s (reg_group reg)
      \<and> bt_get (tasks t) = (bt_get (tasks s))(reg_task reg \<mapsto> new_task reg ids)
      \<and> (\<forall>i. bt_get (freezes t) i = (if i \<in> ids then map_option (insert (reg_task reg)) (bt_get (freezes s) i)
           else bt_get (freezes s) i)))"
proof -
  from assms obtain r s1 fs s2 g s3 grp s4 s5 s6 where
    steps: "child_region run (reg_region (registration k)) memory_shared s = (Ok r, s1)"
      "child_files run (reg_files (registration k)) files_shared s1 = (Ok fs, s2)"
      "state_next s2 = (Ok g, s3)" "child_group run (registration k) pid s3 = (Ok grp, s4)"
      "note_child_sharing (registration k) pid grp r memory_shared s4 = (Ok (), s5)"
    and pub: "publish_task reg (frozen k \<union> group_freezes s5 grp) s5 = (Ok (), s6)" "t = s6"
    and reg: "reg = \<lparr>reg_task = InputTaskId run g tid, native_tid = tid, native_pid = pid,
        tool_tid = None, tool_pid = None, reg_group = grp, reg_parent = Some par, reg_region = r, reg_files = fs\<rparr>"
    unfolding retain_newborn_def Let_def by (auto simp: and_then_Ok observe_files_def)
  have same: "tasks s5 = tasks s" "freezes s5 = freezes s" "frozen_groups s5 = frozen_groups s"
    using child_region_fields [OF steps(1)] child_files_fields [OF steps(2)] state_next_Ok [OF steps(3)]
      child_group_fields [OF steps(4)] note_child_sharing_fields [OF steps(5)] by auto
  then have "group_freezes s5 grp = group_freezes s (reg_group reg)" by (simp add: group_freezes_def reg)
  then show ?thesis using publish_task_Ok [OF pub(1)] pub(2) same reg by auto
qed

text \<open>
  C10: A frozen cohort captures late children. A task born to a frozen parent, or into a group with a
  retirement intent, is published frozen by every freeze of its parent and of its group, is a member
  of each of those cohorts, and has no grant.
\<close>

theorem late_child_joins_cohorts:
  assumes "registry_state run s" and "bt_get (tasks s) par = Some k" and "bt_get (by_tid s) tid = None"
    and "backend_register_child run None par tid pid memory_shared files_shared s = (Ok reg, t)"
    and "i \<in> frozen k \<or> i \<in> group_freezes s (reg_group reg)"
  shows "\<exists>child m. bt_get (tasks t) (reg_task reg) = Some child \<and> i \<in> frozen child
    \<and> task_grant child = None \<and> bt_get (freezes t) i = Some m \<and> reg_task reg \<in> m"
proof -
  have I: "inv run s" by (rule reached_inv [OF assms(1)])
  from assms(2-4) have "retain_newborn run None par k tid pid memory_shared files_shared s = (Ok reg, t)"
    by (auto simp: backend_register_child_def try_ok_Ok_iff live_Ok)
  note born = retain_newborn_Ok [OF this]
  have "bt_get (freezes s) i \<noteq> None"
    using I assms(2,5) unfolding inv_def wf_freezes_def group_freezes_def
    by (fastforce split: option.splits)
  then show ?thesis using born assms(5) by (auto simp: new_task_def)
qed

theorem late_child_joins_cohorts_witness:
  "\<exists>reg t child m. backend_register_child 1 None root_task 8 7 None None frozen_root = (Ok reg, t)
     \<and> bt_get (tasks t) (reg_task reg) = Some child \<and> 5 \<in> frozen child
     \<and> bt_get (freezes t) 5 = Some m \<and> reg_task reg \<in> m"
proof -
  let ?k = "root_record\<lparr>task_grant := None, frozen := {5}\<rparr>"
  have facts: "bt_get (tasks frozen_root) root_task = Some ?k" "bt_get (by_tid frozen_root) 8 = None"
    by code_simp+
  have "case fst (backend_register_child 1 None root_task 8 7 None None frozen_root) of Ok _ \<Rightarrow> True | _ \<Rightarrow> False"
    by code_simp
  then obtain reg t where
    born: "backend_register_child 1 None root_task 8 7 None None frozen_root = (Ok reg, t)"
    by (cases "backend_register_child 1 None root_task 8 7 None None frozen_root")
      (auto split: outcome.splits)
  from late_child_joins_cohorts [OF _ facts born, of 5] history_reached born
  show ?thesis by (auto simp: frozen_root_def)
qed



section \<open>Death and failure\<close>

text \<open>An operation that leaves one call and the flags of one task alone.\<close>

definition leaves :: "PhysicalInjectionId \<Rightarrow> InputTaskId \<Rightarrow> State \<Rightarrow> State \<Rightarrow> bool" where
  "leaves i x s t \<longleftrightarrow> bt_get (injections t) i = bt_get (injections s) i
     \<and> map_option native_terminal (bt_get (tasks t) x) = map_option native_terminal (bt_get (tasks s) x)
     \<and> map_option native_effects_complete (bt_get (tasks t) x)
       = map_option native_effects_complete (bt_get (tasks s) x)"

lemma leaves_refl: "reflp (leaves i x)" by (rule reflpI) (simp add: leaves_def)

lemma leaves_trans: "transp (leaves i x)" by (rule transpI) (simp add: leaves_def)

lemma leaves_finish_locked: "j \<noteq> i \<Longrightarrow> preserves (leaves i x) (finish_locked j result)"
  by (auto simp: preserves_def leaves_def finish_locked_def try_ok_def ok_or_def unwrap_def Let_def
      complete_accesses_def update_injection_def update_region_def split: option.split)

lemma leaves_add_exposure: "preserves (leaves i x) (add_exposure_locked e)"
  by (auto simp: preserves_def leaves_def add_exposure_locked_def split: InputTarget.split option.split)

lemma leaves_gate_call:
  assumes "j \<noteq> i" shows "preserves (leaves i x) (gate_call j)"
proof -
  have "preserves (leaves i x) (finish_unknown j c)" for c
    unfolding finish_unknown_def using assms
    by (auto split: option.split
        intro: preserves_and_then leaves_trans leaves_add_exposure leaves_finish_locked)
  then show ?thesis
    using preservesD [OF leaves_finish_locked [OF assms]]
    by (auto simp: preserves_def gate_call_def try_ok_def unwrap_def retain_failure_def
        split: option.split) (auto simp: leaves_def)
qed

lemma gate_stops:
  assumes "i \<in> set is" and "bt_get (injections s) i = Some c" and "page_touched (phase c)"
  shows "fst (for_each gate_call is s) \<noteq> Ok () \<and> leaves i x s (snd (for_each gate_call is s))"
  using assms(1,2)
proof (induction "is" arbitrary: s)
  case (Cons j "is")
  show ?case
  proof (cases "j = i")
    case True
    have "gate_call i s = (Err ''input-terminal-before-settlement'',
        retain_failure ''input-terminal-before-settlement'' s)"
      using Cons.prems(2) assms(3) by (simp add: gate_call_def)
    then show ?thesis using True by (simp add: and_then_def leaves_def retain_failure_def)
  next
    case False
    note one = preservesD [OF leaves_gate_call [OF False], of x s]
    obtain q t where *: "gate_call j s = (q, t)" by fastforce
    then have t: "bt_get (injections t) i = Some c" using one Cons.prems(2) by (simp add: leaves_def)
    from Cons.IH [OF _ t] have "fst (for_each gate_call is t) \<noteq> Ok ()
        \<and> leaves i x t (snd (for_each gate_call is t))" using Cons.prems(1) False by simp
    then show ?thesis using * one transpD [OF leaves_trans]
      by (cases q) (fastforce simp: and_then_def)+
  qed
qed simp

text \<open>
  C12: Physical death does not authenticate an unsettled page. If a task dies while the page of one
  of its calls was touched and not settled, the death is recorded and an error is returned, the call
  keeps its stage and its image, the region keeps its transaction, and the effects of the task do
  not count as complete.
\<close>

theorem death_keeps_unsettled_page:
  assumes "registry_state run s" and "bt_get (injections s) i = Some c" and "page_touched (phase c)"
    and "bt_get (tasks s) (call_task c) = Some k"
  shows "\<exists>e t k' g. backend_terminal (call_task c) s = (Err e, t) \<and> bt_get (injections t) i = Some c
    \<and> bt_get (tasks t) (call_task c) = Some k' \<and> native_terminal k'
    \<and> native_effects_complete k' = native_effects_complete k
    \<and> bt_get (regions t) (reg_region (registration k')) = Some g \<and> transaction g = Some i"
proof -
  have I: "inv run s" by (rule reached_inv [OF assms(1)])
  let ?x = "call_task c"
  let ?s = "forget_tid ?x (update_task ?x (\<lambda>k. k\<lparr>native_terminal := True, task_grant := None\<rparr>) s)"
  let ?g = "for_each gate_call (unfinished_calls ?s ?x) ?s"
  have J: "bt_get (injections ?s) i = Some c" using assms(2) by (simp add: forget_tid_def update_task_def)
  have "unsettled (call_state c)" using inv_call_wf [OF I assms(2)] assms(3)
    by (auto simp: call_wf_def page_touched_def)
  then have listed: "i \<in> set (unfinished_calls ?s ?x)"
    using map_of_SomeD [OF J] by (force simp: unfinished_calls_def image_iff)
  note stop = gate_stops [OF listed J assms(3), of ?x]
  have result: "backend_terminal ?x s = (if fst ?g = Panic then Panic else Err (case fst ?g of Err e \<Rightarrow> e), snd ?g)"
    using assms(4) stop
    by (cases ?g; cases "fst ?g") (auto simp: backend_terminal_def effects_complete_locked_def
        terminal_gate_locked_def and_then_def)
  let ?t = "snd ?g"
  have It: "inv run ?t" using keepsD(2) [OF keeps_backend_terminal I, of ?x] result by simp
  have "fst (backend_terminal ?x s) \<noteq> Panic" by (rule keepsD(1) [OF keeps_backend_terminal I])
  then have e: "backend_terminal ?x s = (Err (case fst ?g of Err e \<Rightarrow> e), ?t)" using result by (auto split: if_splits)
  have flags: "map_option native_terminal (bt_get (tasks ?s) ?x) = Some True"
    "map_option native_effects_complete (bt_get (tasks ?s) ?x) = Some (native_effects_complete k)"
    using assms(4) by (simp_all add: forget_tid_def update_task_def)
  obtain k' where k': "bt_get (tasks ?t) ?x = Some k'" "native_terminal k'"
      "native_effects_complete k' = native_effects_complete k"
    using stop flags by (auto simp: leaves_def)
  have c: "bt_get (injections ?t) i = Some c" using stop J by (simp add: leaves_def)
  obtain g where g: "bt_get (regions ?t) (reg_region (registration k')) = Some g"
    using inv_task_region [OF It k'(1)] by blast
  have "call_region (bt_get (tasks ?t)) c = Some (reg_region (registration k'))"
    using k'(1) by (simp add: call_region_def)
  moreover have "phase c \<noteq> None" using assms(3) by (auto simp: page_touched_def)
  ultimately have "transaction g = Some i" using It c g unfolding inv_def wf_txn_def by blast
  then show ?thesis using e c k' g by blast
qed

theorem death_keeps_unsettled_page_witness:
  "\<exists>e t. backend_terminal root_task (history 1 (staging @ [Backend (Initialize root_call)])) = (Err e, t)
     \<and> bt_get (injections t) root_call = Some (call_record Prepared Initializing None)"
proof -
  let ?s = "history 1 (staging @ [Backend (Initialize root_call)])"
  have facts: "bt_get (injections ?s) root_call = Some (call_record Prepared Initializing None)"
    "bt_get (tasks ?s) root_task = Some root_record"
    by code_simp+
  from death_keeps_unsettled_page [OF history_reached facts(1), of root_record] facts(2)
  show ?thesis by (auto simp: call_record_def page_touched_def)
qed



section \<open>Grants and readmission\<close>

text \<open>
  C14: A scope consumes its grant. After an operation began, no second operation begins under the same
  grant, the scope validates as long as nothing withdraws the grant, and finishing the operation makes
  the grant usable again exactly when none of its calls is unsettled.
\<close>

theorem scope_consumes_grant:
  assumes "begin_operation run task operation s = (Ok scope, t)"
  shows "begin_operation run task operation' t = (Err ''input-grant-unavailable'', t)
    \<and> validate_scope run t scope = Ok ()
    \<and> (if list_ex (\<lambda>c. call_task c = task \<and> call_operation c = operation \<and> unsettled (call_state c))
            (bt_values (injections s))
       then finish_operation run scope t = (Err ''input-operation-unsettled'', t)
       else fst (finish_operation run scope t) = Ok ()
         \<and> fst (begin_operation run task operation (snd (finish_operation run scope t))) = Ok scope)"
proof -
  from assms obtain k generation kind where k: "live s task = Ok k"
      "task_grant k = Some (generation, kind, False)" "frozen k = {}"
    and kind: "\<not> (case kind of PendingVfork p \<Rightarrow> p \<noteq> operation | Ordinary \<Rightarrow> False)"
    and scope: "scope = \<lparr>scope_run = run, scope_task = task, scope_grant = generation,
      scope_operation = operation\<rparr>"
    and t: "t = update_task task (\<lambda>k. k\<lparr>task_grant := Some (generation, kind, True)\<rparr>) s"
    unfolding begin_operation_def by (auto simp: try_ok_Ok_iff split: if_splits)
  let ?k = "\<lambda>b. k\<lparr>task_grant := Some (generation, kind, b)\<rparr>"
  let ?u = "update_task task (\<lambda>k. k\<lparr>task_grant := Some (generation, kind, False)\<rparr>) t"
  have live: "live t task = Ok (?k True)" "bt_get (tasks t) task = Some (?k True)" "live ?u task = Ok (?k False)"
    using k(1) unfolding t by (auto simp: live_Ok update_task_def)
  have valid: "validate_scope run t scope = Ok ()"
    using live(1) k(3) by (simp add: validate_scope_def scope)
  have calls: "injections t = injections s" unfolding t by (simp add: update_task_def)
  have "finish_operation run scope t = (if list_ex (\<lambda>c. call_task c = task \<and> call_operation c = operation
      \<and> unsettled (call_state c)) (bt_values (injections s))
      then (Err ''input-operation-unsettled'', t) else (Ok (), ?u))"
    using live(2) by (simp add: finish_operation_def valid) (simp add: scope calls)
  moreover have "fst (begin_operation run task operation ?u) = Ok scope"
    unfolding begin_operation_def live(3) using k(3) kind by (simp add: scope)
  moreover have "begin_operation run task operation' t = (Err ''input-grant-unavailable'', t)"
    unfolding begin_operation_def live(1) by simp
  ultimately show ?thesis using valid by simp
qed

theorem scope_consumes_grant_witness:
  "\<exists>t. begin_operation 1 root_task 9 granted_root = (Ok root_scope, t)
     \<and> begin_operation 1 root_task 10 t = (Err ''input-grant-unavailable'', t)"
proof -
  have "fst (begin_operation 1 root_task 9 granted_root) = Ok root_scope" by code_simp
  then obtain t where "begin_operation 1 root_task 9 granted_root = (Ok root_scope, t)"
    by (metis prod.collapse)
  with scope_consumes_grant [OF this] show ?thesis by blast
qed

text \<open>
  C15: Readmission waits for native completion. When the accesses of a call are readmitted, the call
  was settled and every access attached to it was complete; afterwards no transient access of the
  call is left, and every other access is as it was.
\<close>

theorem readmission_after_completion:
  assumes "registry_state run s" and "readmit_injection i task g s = (Ok (), t)"
  shows "(\<exists>c. bt_get (injections s) i = Some c \<and> call_task c = task \<and> \<not> unsettled (call_state c))
    \<and> (\<forall>j a. bt_get (accesses s) j = Some a \<longrightarrow> physical a = Some i \<longrightarrow> native_complete a)
    \<and> (\<forall>j. bt_get (accesses t) j = (case bt_get (accesses s) j of None \<Rightarrow> None
         | Some a \<Rightarrow> if physical a = Some i \<and> lifetime (access_declaration a) = Transient then None else Some a))"
proof -
  have ok: "bt_ok (accesses s)" using reached_inv [OF assms(1)] by (simp add: inv_def wf_keys_def)
  from assms(2) obtain c where c: "bt_get (injections s) i = Some c" "call_task c = task"
      "\<not> unsettled (call_state c)"
    and none: "\<not> list_ex (\<lambda>a. physical a = Some i \<and> \<not> native_complete a) (bt_values (accesses s))"
    and t: "t = s\<lparr>accesses := bt_retain (\<lambda>a. physical a \<noteq> Some i
      \<or> lifetime (access_declaration a) = Persistent) (accesses s)\<rparr>"
    by (auto simp: readmit_injection_def try_ok_Ok_iff split: if_splits)
  have "native_complete a" if "bt_get (accesses s) j = Some a" "physical a = Some i" for j a
    using none that map_of_SomeD [OF that(1)] by (force simp: list_ex_iff)
  moreover have "lifetime d = Persistent \<longleftrightarrow> lifetime d \<noteq> Transient" for d :: InputAccess
    by (cases "lifetime d") auto
  ultimately show ?thesis using c t ok by (auto simp: bt_get_retain split: option.split)
qed

theorem readmission_after_completion_witness:
  "\<exists>c. bt_get (injections (history 1 (staging @ issuing @ [Backend (NoChild root_call)]))) root_call = Some c
     \<and> call_task c = root_task \<and> \<not> unsettled (call_state c)"
proof -
  let ?s = "history 1 (staging @ issuing @ [Backend (NoChild root_call)])"
  have "fst (readmit_injection root_call root_task 5 ?s) = Ok ()" by code_simp
  then have "readmit_injection root_call root_task 5 ?s = (Ok (), snd (readmit_injection root_call root_task 5 ?s))"
    by (metis prod.collapse)
  from readmission_after_completion [OF history_reached this] show ?thesis by blast
qed

end
