(* ===== verification/Byte_Text.thy ===== *)
theory Byte_Text
  imports Reverie_Prelude
begin

text \<open>
  Byte strings and the number parsers of the Rust standard library that the components use: splitting
  at a byte, stripping a prefix, and \<^verbatim>\<open>from_str_radix\<close> for unsigned integers. A byte is a \<open>char\<close>; a
  number is an integer below the limit of its type.
\<close>

section \<open>Splitting\<close>

fun split_on :: "char \<Rightarrow> string \<Rightarrow> string list" where
  "split_on c [] = [[]]"
| "split_on c (x # xs) =
     (if x = c then [] # split_on c xs
      else (case split_on c xs of l # ls \<Rightarrow> (x # l) # ls | [] \<Rightarrow> [[x]]))"

fun strip_prefix :: "string \<Rightarrow> string \<Rightarrow> string option" where
  "strip_prefix [] s = Some s"
| "strip_prefix (p # ps) (x # xs) = (if p = x then strip_prefix ps xs else None)"
| "strip_prefix (p # ps) [] = None"

definition strip_suffix :: "string \<Rightarrow> string \<Rightarrow> string option" where
  "strip_suffix p s = map_option rev (strip_prefix (rev p) (rev s))"

lemma strip_prefix_Some: "strip_prefix p s = Some t \<longleftrightarrow> s = p @ t"
  by (induction p s rule: strip_prefix.induct) auto

lemma strip_suffix_Some: "strip_suffix p s = Some t \<longleftrightarrow> s = t @ p"
proof -
  have "strip_suffix p s = Some t \<longleftrightarrow> rev s = rev p @ rev t"
    by (auto simp: strip_suffix_def strip_prefix_Some rev_swap)
  also have "\<dots> \<longleftrightarrow> s = t @ p" by (metis rev_append rev_rev_ident)
  finally show ?thesis .
qed

lemma split_on_ne [simp]: "split_on c s \<noteq> []"
  by (induction s) (auto split: list.splits)

lemma split_on_join: "concat (map (\<lambda>l. l @ [c]) (split_on c s)) = s @ [c]"
  by (induction s) (auto split: list.splits)

lemma split_on_free: "l \<in> set (split_on c s) \<Longrightarrow> c \<notin> set l"
  by (induction s arbitrary: l) (auto split: list.splits if_splits)

lemma split_on_free_part: "c \<notin> set l \<Longrightarrow> split_on c (l @ c # s) = l # split_on c s"
  by (induction l) auto

lemma split_on_single: "c \<notin> set l \<Longrightarrow> split_on c l = [l]"
  by (induction l) auto

text \<open>Lines joined by a separator are the lines that splitting gives back.\<close>

definition join_lines :: "char \<Rightarrow> string list \<Rightarrow> string" where
  "join_lines c ls = concat (map (\<lambda>l. l @ [c]) ls)"

lemma join_lines_simps [simp]: "join_lines c [] = []" "join_lines c (l # ls) = l @ c # join_lines c ls"
  by (simp_all add: join_lines_def)

lemma split_join_lines: "ls \<noteq> [] \<Longrightarrow> \<forall>l \<in> set ls. c \<notin> set l \<Longrightarrow> join_lines c ls = s @ [c] \<Longrightarrow> split_on c s = ls"
proof (induction ls arbitrary: s)
  case (Cons l ls)
  then have free: "c \<notin> set l" by simp
  show ?case
  proof (cases "ls = []")
    case True
    then show ?thesis using Cons.prems(3) split_on_single [OF free] by simp
  next
    case False
    then have "last (join_lines c ls) = c" "join_lines c ls \<noteq> []"
      by (induction ls) (auto simp: join_lines_def)
    then obtain t where t: "join_lines c ls = t @ [c]" by (metis append_butlast_last_id)
    then have "s = l @ c # t" using Cons.prems(3) by simp
    then show ?thesis using Cons.IH [OF False _ t] Cons.prems(2) by (simp add: split_on_free_part)
  qed
qed simp

lemma split_on_iff:
  "split_on c s = ls \<longleftrightarrow> ls \<noteq> [] \<and> (\<forall>l \<in> set ls. c \<notin> set l) \<and> join_lines c ls = s @ [c]"
  using split_on_join split_on_free split_join_lines [of ls c s] by (auto simp: join_lines_def)

section \<open>Numbers\<close>

definition to_digit :: "int \<Rightarrow> char \<Rightarrow> int option" where
  "to_digit radix c =
     (let k = of_char c;
          d = (if 48 \<le> k \<and> k \<le> 57 then k - 48
               else if 97 \<le> k \<and> k \<le> 122 then k - 87
               else if 65 \<le> k \<and> k \<le> 90 then k - 55
               else radix)
      in if d < radix then Some d else None)"

text \<open>Every step is checked against the largest value of the type.\<close>

fun from_digits :: "int \<Rightarrow> int \<Rightarrow> int \<Rightarrow> string \<Rightarrow> int option" where
  "from_digits limit radix acc [] = Some acc"
| "from_digits limit radix acc (c # cs) =
     (case to_digit radix c of
        None \<Rightarrow> None
      | Some d \<Rightarrow>
          if acc * radix < limit \<and> acc * radix + d < limit then from_digits limit radix (acc * radix + d) cs
          else None)"

definition from_str_radix :: "int \<Rightarrow> int \<Rightarrow> string \<Rightarrow> int option" where
  "from_str_radix limit radix s =
     (case s of
        [] \<Rightarrow> None
      | c # cs \<Rightarrow>
          if cs = [] \<and> (c = CHR ''+'' \<or> c = CHR ''-'') then None
          else if c = CHR ''+'' then from_digits limit radix 0 cs
          else from_digits limit radix 0 s)"

text \<open>The value of a list of digits, and the digits of a value.\<close>

definition horner :: "int \<Rightarrow> int \<Rightarrow> int list \<Rightarrow> int" where
  "horner radix = foldl (\<lambda>a d. a * radix + d)"

lemma horner_simps [simp]:
  "horner r a [] = a" "horner r a (d # ds) = horner r (a * r + d) ds"
  "horner r a (ds @ [d]) = horner r a ds * r + d"
  by (simp_all add: horner_def)

lemma horner_grows: "1 \<le> r \<Longrightarrow> 0 \<le> a \<Longrightarrow> \<forall>d \<in> set ds. 0 \<le> d \<Longrightarrow> a \<le> horner r a ds"
proof (induction ds arbitrary: a)
  case (Cons d ds)
  have "a \<le> a * r + d" using Cons.prems mult_left_mono [of 1 r a] by simp
  also have "\<dots> \<le> horner r (a * r + d) ds" using Cons calculation by auto
  finally show ?case by simp
qed simp

lemma to_digit_range: "to_digit r c = Some d \<Longrightarrow> 0 \<le> d \<and> d < r"
  by (auto simp: to_digit_def Let_def split: if_splits)

lemma from_digits_iff:
  assumes "1 \<le> radix" and "0 \<le> acc" and "acc < limit"
  shows "from_digits limit radix acc s = Some v \<longleftrightarrow>
    (\<exists>ds. map (to_digit radix) s = map Some ds \<and> v = horner radix acc ds \<and> v < limit)"
  using assms
proof (induction s arbitrary: acc)
  case (Cons c cs)
  show ?case
  proof (cases "to_digit radix c")
    case (Some d)
    then have d: "0 \<le> d" using to_digit_range by blast
    then have up: "acc * radix \<le> acc * radix + d" by simp
    have pos: "0 \<le> acc * radix + d" using Cons.prems d by simp
    have grow: "acc * radix + d \<le> horner radix (acc * radix + d) ds"
      if "map (to_digit radix) cs = map Some ds" for ds
    proof (rule horner_grows [OF Cons.prems(1) pos], rule ballI)
      fix e assume "e \<in> set ds"
      then have "Some e \<in> set (map (to_digit radix) cs)" using that by simp
      then show "0 \<le> e" using to_digit_range by auto
    qed
    have "from_digits limit radix acc (c # cs) = Some v \<longleftrightarrow>
        acc * radix + d < limit \<and> from_digits limit radix (acc * radix + d) cs = Some v"
      using Some up by auto
    also have "\<dots> \<longleftrightarrow> (\<exists>ds. map (to_digit radix) cs = map Some ds
        \<and> v = horner radix (acc * radix + d) ds \<and> v < limit)"
    proof (cases "acc * radix + d < limit")
      case False
      then have "\<not> horner radix (acc * radix + d) ds < limit" if "map (to_digit radix) cs = map Some ds" for ds
        using grow [OF that] by simp
      then show ?thesis using False by blast
    qed (simp add: Cons.IH [OF Cons.prems(1) pos])
    also have "\<dots> \<longleftrightarrow> (\<exists>ds. map (to_digit radix) (c # cs) = map Some ds
        \<and> v = horner radix acc ds \<and> v < limit)"
    proof -
      have "map (to_digit radix) (c # cs) = map Some ds
          \<longleftrightarrow> (\<exists>es. ds = d # es \<and> map (to_digit radix) cs = map Some es)" for ds
        using Some by (cases ds) auto
      then show ?thesis by auto
    qed
    finally show ?thesis .
  qed (auto simp: Cons_eq_map_conv)
qed auto

lemma horner_bound: "1 \<le> r \<Longrightarrow> \<forall>d \<in> set ds. 0 \<le> d \<and> d < r \<Longrightarrow> 0 \<le> horner r 0 ds \<and> horner r 0 ds < r ^ length ds"
proof (induction ds rule: rev_induct)
  case (snoc d ds)
  then have "0 \<le> horner r 0 ds" "horner r 0 ds + 1 \<le> r ^ length ds" "0 \<le> d" "d < r" by auto
  then have "horner r 0 ds * r + r \<le> r ^ length ds * r"
    using mult_right_mono [of "horner r 0 ds + 1" "r ^ length ds" r] snoc.prems(1) by (simp add: distrib_right)
  then show ?case using \<open>0 \<le> d\<close> \<open>d < r\<close> \<open>0 \<le> horner r 0 ds\<close> snoc.prems(1) by (simp add: mult.commute)
qed simp

definition digits_of :: "int \<Rightarrow> nat \<Rightarrow> int \<Rightarrow> int list" where
  "digits_of radix n v = map (\<lambda>i. v div radix ^ i mod radix) (rev [0..<n])"

lemma digits_of_Suc: "0 \<le> radix \<Longrightarrow> digits_of radix (Suc n) v = digits_of radix n (v div radix) @ [v mod radix]"
proof -
  assume "0 \<le> radix"
  have "rev [0..<Suc n] = map Suc (rev [0..<n]) @ [0]"
    by (simp only: rev_map [symmetric] map_Suc_upt [symmetric] upt_conv_Cons rev.simps zero_less_Suc)
  then show ?thesis using \<open>0 \<le> radix\<close> by (simp add: digits_of_def zdiv_zmult2_eq)
qed

lemma digits_of_horner:
  "1 \<le> r \<Longrightarrow> \<forall>d \<in> set ds. 0 \<le> d \<and> d < r \<Longrightarrow> digits_of r (length ds) (horner r 0 ds) = ds"
proof (induction ds rule: rev_induct)
  case (snoc d ds)
  then have "(horner r 0 ds * r + d) div r = horner r 0 ds" "(horner r 0 ds * r + d) mod r = d" by auto
  then show ?case using snoc by (simp add: digits_of_Suc)
qed (simp add: digits_of_def)

lemma horner_digits_of:
  "1 \<le> r \<Longrightarrow> 0 \<le> v \<Longrightarrow> v < r ^ n \<Longrightarrow> horner r 0 (digits_of r n v) = v"
proof (induction n arbitrary: v)
  case (Suc n)
  have "v div r < r ^ n"
  proof (rule ccontr)
    assume "\<not> v div r < r ^ n"
    then have "r ^ n * r \<le> v div r * r" using Suc.prems(1) by (intro mult_right_mono) auto
    also have "\<dots> \<le> v" using Suc.prems(1) div_mult_mod_eq [of v r] pos_mod_sign [of r v] by linarith
    finally show False using Suc.prems(3) by (simp add: mult.commute)
  qed
  moreover have "0 \<le> v div r" using Suc.prems by (simp add: pos_imp_zdiv_nonneg_iff)
  ultimately have "horner r 0 (digits_of r n (v div r)) = v div r" using Suc by blast
  then show ?case using Suc.prems(1) by (simp only: digits_of_Suc horner_simps) simp
qed (simp add: digits_of_def)

end
