(* ===== verification/Exit_Status.thy ===== *)
theory Exit_Status
  imports Reverie_Prelude
begin

unbundle bit_operations_syntax

text \<open>
  Exit statuses, \<^verbatim>\<open>reverie-process/src/exit_status.rs\<close>. A raw status and an exit code are 32-bit
  words. Which signal numbers the nix crate can name is the argument \<open>named\<close>; nothing is assumed of
  it. The macros of \<^verbatim>\<open>wait\<close>(2) are those of Linux. \<^verbatim>\<open>raise_or_exit\<close> is the list of what it asks of
  the kernel, in order.
\<close>

section \<open>Definitions\<close>

type_synonym raw_status = "32 word"

definition WIFEXITED :: "raw_status \<Rightarrow> bool" where "WIFEXITED s \<longleftrightarrow> s AND 0x7f = 0"
definition WEXITSTATUS :: "raw_status \<Rightarrow> 32 word" where "WEXITSTATUS s = drop_bit 8 s AND 0xff"
definition WTERMSIG :: "raw_status \<Rightarrow> 32 word" where "WTERMSIG s = s AND 0x7f"
definition WCOREDUMP :: "raw_status \<Rightarrow> bool" where "WCOREDUMP s \<longleftrightarrow> s AND 0x80 \<noteq> 0"
definition WIFSIGNALED :: "raw_status \<Rightarrow> bool" where
  "WIFSIGNALED s \<longleftrightarrow> s AND 0x7f \<noteq> 0 \<and> s AND 0x7f \<noteq> 0x7f"

datatype ExitStatus = Exited "32 word" | Signaled "32 word" bool | SignaledRaw "32 word" bool

definition SUCCESS :: ExitStatus where "SUCCESS = Exited 0"

definition signaled :: "(32 word \<Rightarrow> bool) \<Rightarrow> 32 word \<Rightarrow> bool \<Rightarrow> ExitStatus" where
  "signaled named signal coredump =
     (if named signal then Signaled signal coredump else SignaledRaw signal coredump)"

definition from_raw :: "(32 word \<Rightarrow> bool) \<Rightarrow> raw_status \<Rightarrow> ExitStatus" where
  "from_raw named code =
     (if WIFEXITED code then Exited (WEXITSTATUS code)
      else signaled named (WTERMSIG code) (WCOREDUMP code))"

fun into_raw :: "ExitStatus \<Rightarrow> raw_status" where
  "into_raw (Exited code) = push_bit 8 code"
| "into_raw (Signaled sig coredump) = (if coredump then (sig OR 0x80) AND 0xff else sig AND 0x7f)"
| "into_raw (SignaledRaw sig coredump) = (if coredump then (sig OR 0x80) AND 0xff else sig AND 0x7f)"

fun status_signal :: "ExitStatus \<Rightarrow> 32 word option" where
  "status_signal (Exited _) = None"
| "status_signal (Signaled sig _) = Some (sig AND 0x7f)"
| "status_signal (SignaledRaw sig _) = Some (sig AND 0x7f)"

definition success :: "ExitStatus \<Rightarrow> bool" where
  "success st \<longleftrightarrow> st = Exited 0"

fun status_code :: "ExitStatus \<Rightarrow> 32 word option" where
  "status_code (Exited code) = Some code"
| "status_code (Signaled _ _) = None"
| "status_code (SignaledRaw _ _) = None"

text \<open>The standard library's status is its raw word.\<close>

definition to_std :: "ExitStatus \<Rightarrow> raw_status" where
  "to_std st = into_raw st"

definition from_std :: "(32 word \<Rightarrow> bool) \<Rightarrow> raw_status \<Rightarrow> ExitStatus" where
  "from_std named raw =
     (if WIFSIGNALED raw then signaled named (WTERMSIG raw) (WCOREDUMP raw)
      else Exited (if WIFEXITED raw then WEXITSTATUS raw else 255))"

datatype exit_action =
  NoCoreFiles | DefaultAction "32 word" | Raise "32 word" | Unblock "64 word" | ExitWith "32 word"

text \<open>
  \<^verbatim>\<open>1u64.checked_shl(bit)\<close> for a 32-bit \<open>bit\<close> that the conversion accepts: a number below 1 is
  refused by the conversion, one above 64 by the shift.
\<close>

definition unblock_mask :: "32 word \<Rightarrow> 64 word" where
  "unblock_mask signal =
     (if sint (signal - 1) < 0 then 0
      else if unat (signal - 1) < 64 then push_bit (unat (signal - 1)) 1 else 0)"

fun raise_or_exit :: "ExitStatus \<Rightarrow> exit_action list" where
  "raise_or_exit (Signaled signal core_dump) =
     (if core_dump then [NoCoreFiles] else [])
     @ [DefaultAction signal, Raise signal, Unblock (unblock_mask signal), ExitWith (signal + 128)]"
| "raise_or_exit (SignaledRaw signal core_dump) =
     (if core_dump then [NoCoreFiles] else [])
     @ [DefaultAction signal, Raise signal, Unblock (unblock_mask signal), ExitWith (signal + 128)]"
| "raise_or_exit (Exited code) = [ExitWith code]"

section \<open>Round trips\<close>

text \<open>Statuses that a process can have: an 8-bit code, a signal number below 127 under its right name.\<close>

fun status_ok :: "(32 word \<Rightarrow> bool) \<Rightarrow> ExitStatus \<Rightarrow> bool" where
  "status_ok named (Exited code) \<longleftrightarrow> code < 256"
| "status_ok named (Signaled sig _) \<longleftrightarrow> 0 < sig \<and> sig < 127 \<and> named sig"
| "status_ok named (SignaledRaw sig _) \<longleftrightarrow> 0 < sig \<and> sig < 127 \<and> \<not> named sig"

lemma low_masks: "(0x7f :: 32 word) = mask 7" "(0xff :: 32 word) = mask 8"
  by (simp_all add: mask_eq_exp_minus_1)

lemma bit_core: "bit (0x80 :: 32 word) n \<longleftrightarrow> n = 7"
proof -
  have "bit (2 ^ 7 :: 32 word) n \<longleftrightarrow> n = 7" by (auto simp only: bit_exp_iff possible_bit_word) simp
  then show ?thesis by simp
qed

lemma and_low: "(x :: 32 word) < 128 \<Longrightarrow> x AND 0x7f = x" "(x :: 32 word) < 256 \<Longrightarrow> x AND 0xff = x"
  unfolding low_masks by (simp_all add: less_mask_eq)

lemma exited_raw:
  "push_bit 8 code AND 0x7f = (0 :: 32 word)" "WEXITSTATUS (push_bit 8 code) = code AND 0xff"
  unfolding WEXITSTATUS_def low_masks
  by (rule bit_word_eqI; auto simp: bit_simps)+

lemma signaled_raw:
  "((sig OR 0x80) AND 0xff) AND 0x7f = sig AND (0x7f :: 32 word)"
  "((sig OR 0x80) AND 0xff) AND 0x80 = (0x80 :: 32 word)"
  "(sig AND 0x7f) AND 0x80 = (0 :: 32 word)"
  unfolding low_masks
  by (rule bit_word_eqI, auto simp only: bit_and_iff bit_or_iff bit_mask_iff bit_core bit_0_eq
      possible_bit_word bot_apply simp_thms)+ (simp_all add: bit_simps)

lemma signal_number:
  fixes sig :: "32 word" assumes "0 < sig" and "sig < 127"
  shows "sig AND 0x7f = sig" "sig \<noteq> 0" "sig \<noteq> 0x7f" "sig AND 0x80 = 0"
proof -
  from assms have "sig < 128" by (simp add: word_less_nat_alt)
  then show "sig AND 0x7f = sig" by (rule and_low)
  then show "sig AND 0x80 = 0" using signaled_raw(3) [of sig] by simp
  show "sig \<noteq> 0" "sig \<noteq> 0x7f" using assms by auto
qed

lemmas status_defs = from_raw_def from_std_def to_std_def signaled_def WIFEXITED_def WIFSIGNALED_def
  WTERMSIG_def WCOREDUMP_def

lemma from_into_raw: "status_ok named st \<Longrightarrow> from_raw named (into_raw st) = st"
  by (cases st) (auto simp: status_defs exited_raw and_low signaled_raw signal_number)

interpretation status: codec into_raw "\<lambda>raw. Some (from_raw named raw)" "status_ok named" for named
  by unfold_locales (simp add: from_into_raw)

text \<open>
  C26: A status survives its raw form. Encoding an exit status and decoding the raw word gives the
  same status back, directly and through the standard library's status, for every 8-bit exit code
  and every signal number below 127 under the name the decoder gives it. Different statuses have
  different raw words.
\<close>

theorem status_round_trip:
  assumes "status_ok named st" and "status_ok named st'"
  shows "from_raw named (into_raw st) = st \<and> from_std named (to_std st) = st
    \<and> (into_raw st = into_raw st' \<longrightarrow> st = st')"
proof -
  have "from_std named (to_std st) = st"
    using assms(1)
    by (cases st) (auto simp: status_defs exited_raw and_low signaled_raw signal_number)
  then show ?thesis using from_into_raw [OF assms(1)] status.encode_inj [OF assms] by blast
qed

theorem status_round_trip_witness:
  "from_raw (\<lambda>s. s < 32) (into_raw (SignaledRaw 34 True)) = SignaledRaw 34 True
   \<and> into_raw (SignaledRaw 34 True) \<noteq> into_raw (Exited 3)"
  using status_round_trip [of "\<lambda>s. s < 32" "SignaledRaw 34 True" "Exited 3"] by auto

end
