(* ===== verification/Signal_Delivery.thy ===== *)
theory Signal_Delivery
  imports Exit_Status
begin

text \<open>
  Signals a Tool approves, \<^verbatim>\<open>reverie/src/signal_delivery.rs\<close>: kernel signal sets, the prediction of
  the deliveries at one return to user code, and the check of an approved delivery against the
  kernel's state. A signal number is an integer, a set is a 64-bit word with bit \<open>n - 1\<close> for signal
  \<open>n\<close>. The numbers of signals and flags are those of Linux on x86-64.
\<close>

section \<open>Signal sets\<close>

definition signal_set_bit :: "i32 \<Rightarrow> u64" where
  "signal_set_bit signal = (if signal \<ge> 1 \<and> signal \<le> 64 then push_bit (nat (signal - 1)) 1 else 0)"

definition SIGQUIT :: i32 where "SIGQUIT = 3"
definition SIGILL :: i32 where "SIGILL = 4"
definition SIGTRAP :: i32 where "SIGTRAP = 5"
definition SIGABRT :: i32 where "SIGABRT = 6"
definition SIGBUS :: i32 where "SIGBUS = 7"
definition SIGFPE :: i32 where "SIGFPE = 8"
definition SIGKILL :: i32 where "SIGKILL = 9"
definition SIGSEGV :: i32 where "SIGSEGV = 11"
definition SIGALRM :: i32 where "SIGALRM = 14"
definition SIGCHLD :: i32 where "SIGCHLD = 17"
definition SIGCONT :: i32 where "SIGCONT = 18"
definition SIGSTOP :: i32 where "SIGSTOP = 19"
definition SIGTSTP :: i32 where "SIGTSTP = 20"
definition SIGTTIN :: i32 where "SIGTTIN = 21"
definition SIGTTOU :: i32 where "SIGTTOU = 22"
definition SIGURG :: i32 where "SIGURG = 23"
definition SIGXCPU :: i32 where "SIGXCPU = 24"
definition SIGXFSZ :: i32 where "SIGXFSZ = 25"
definition SIGWINCH :: i32 where "SIGWINCH = 28"
definition SIGSYS :: i32 where "SIGSYS = 31"

definition SA_NODEFER :: u64 where "SA_NODEFER = 0x40000000"
definition SA_RESETHAND :: u64 where "SA_RESETHAND = 0x80000000"

definition signal_set :: "i32 list \<Rightarrow> u64" where
  "signal_set signals = fold (\<lambda>s w. w OR signal_set_bit s) signals 0"

definition UNBLOCKABLE :: u64 where "UNBLOCKABLE = signal_set [SIGKILL, SIGSTOP]"
definition SYNCHRONOUS :: u64 where
  "SYNCHRONOUS = signal_set [SIGSEGV, SIGBUS, SIGILL, SIGTRAP, SIGFPE, SIGSYS]"
definition DEFAULT_STOP :: u64 where
  "DEFAULT_STOP = signal_set [SIGSTOP, SIGTSTP, SIGTTIN, SIGTTOU]"
definition DEFAULT_COREDUMP :: u64 where
  "DEFAULT_COREDUMP = signal_set [SIGQUIT, SIGILL, SIGTRAP, SIGABRT, SIGFPE, SIGSEGV, SIGBUS, SIGSYS,
     SIGXCPU, SIGXFSZ]"
definition DEFAULT_IGNORE :: u64 where
  "DEFAULT_IGNORE = signal_set [SIGCONT, SIGCHLD, SIGWINCH, SIGURG]"

definition FIRST_REALTIME_SIGNAL :: i32 where "FIRST_REALTIME_SIGNAL = 32"

section \<open>Actions\<close>

record SignalAction =
  sa_handler :: u64
  sa_flags :: u64
  sa_restorer :: u64
  sa_mask :: u64

definition default_action :: SignalAction where
  "default_action = \<lparr>sa_handler = 0, sa_flags = 0, sa_restorer = 0, sa_mask = 0\<rparr>"

definition handler_mask :: "SignalAction \<Rightarrow> u64 \<Rightarrow> i32 \<Rightarrow> u64" where
  "handler_mask action current signal =
     (let own = (if sa_flags action AND SA_NODEFER \<noteq> 0 then 0 else signal_set_bit signal)
      in current OR sa_mask action OR own)"

definition SIG_DFL :: u64 where "SIG_DFL = 0"
definition SIG_IGN :: u64 where "SIG_IGN = 1"

section \<open>Predictions\<close>

datatype SignalQueue = Private | Shared

datatype PredictedAction = Caught | Phase1Alarm | Ignored | Fatal bool

record PredictedDelivery =
  delivery_signal :: i32
  delivery_queue :: SignalQueue
  delivery_action :: PredictedAction
  delivery_mask :: u64

datatype PredictionRefusal =
  Stop i32 SignalQueue | Realtime i32 SignalQueue | GroupExitInProgress SignalQueue

datatype PredictionEnd = Return u64 | Death ExitStatus | Refuse PredictionRefusal

record DeliveryPrediction =
  deliveries :: "PredictedDelivery list"
  prediction_end :: PredictionEnd

definition trailing_zeros :: "u64 \<Rightarrow> nat" where
  "trailing_zeros w = (case find (bit w) [0..<64] of Some n \<Rightarrow> n | None \<Rightarrow> 64)"

definition next_signal :: "u64 \<Rightarrow> u64 \<Rightarrow> i32 option" where
  "next_signal pend blocked =
     (let deliverable = pend AND NOT blocked in
      if deliverable = 0 then None
      else
        let first = (if deliverable AND SYNCHRONOUS \<noteq> 0 then deliverable AND SYNCHRONOUS else deliverable)
        in Some (int (trailing_zeros first) + 1))"

definition next_instance :: "u64 \<Rightarrow> u64 \<Rightarrow> u64 \<Rightarrow> (i32 \<times> SignalQueue) option" where
  "next_instance priv shr blocked =
     (case next_signal priv blocked of
        Some signal \<Rightarrow> Some (signal, Private)
      | None \<Rightarrow> map_option (\<lambda>signal. (signal, Shared)) (next_signal shr blocked))"

text \<open>What one instance does under its action; \<open>None\<close> is a default stop.\<close>

definition predict_action :: "SignalAction \<Rightarrow> i32 \<Rightarrow> bool \<Rightarrow> PredictedAction option" where
  "predict_action action signal phase1_window =
     (let b = signal_set_bit signal in
      if sa_handler action = SIG_IGN then Some Ignored
      else if sa_handler action = SIG_DFL \<and> b AND DEFAULT_IGNORE \<noteq> 0 then Some Ignored
      else if sa_handler action = SIG_DFL \<and> b AND DEFAULT_STOP \<noteq> 0 then None
      else if sa_handler action = SIG_DFL then Some (Fatal (b AND DEFAULT_COREDUMP \<noteq> 0))
      else if phase1_window \<and> signal = SIGALRM then Some Phase1Alarm
      else Some Caught)"

text \<open>The array of actions is a list of 64; a predicted signal is between 1 and 31.\<close>

definition effective_action :: "SignalAction list \<Rightarrow> u64 \<Rightarrow> i32 \<Rightarrow> SignalAction" where
  "effective_action actions reset signal =
     (let b = signal_set_bit signal in
      if reset AND b \<noteq> 0 \<or> b AND UNBLOCKABLE \<noteq> 0 then default_action
      else actions ! nat (signal - 1))"

lemma find_upt_least: "find P [0..<n] = Some i \<longleftrightarrow> i < n \<and> P i \<and> (\<forall>j<i. \<not> P j)"
  by (auto simp: find_Some_iff)

lemma some_bit:
  fixes w :: u64 assumes "w \<noteq> 0" obtains j where "j < 64" "bit w j"
proof -
  from assms obtain j where j: "bit w j" by (auto simp: bit_eq_iff)
  then have "j < 64" using bit_imp_le_length [OF j] by simp
  with j show ?thesis using that by blast
qed

lemma trailing_zeros_least:
  assumes "w \<noteq> 0"
  shows "trailing_zeros w < 64 \<and> bit w (trailing_zeros w) \<and> (\<forall>j < trailing_zeros w. \<not> bit w j)"
proof -
  from assms obtain j where "j < 64" "bit w j" by (rule some_bit)
  then have "find (bit w) [0..<64] \<noteq> None" by (auto simp: find_None_iff)
  then obtain i where "find (bit w) [0..<64] = Some i" by blast
  then show ?thesis using find_upt_least [of "bit w" 64 i] by (simp add: trailing_zeros_def)
qed

lemma bit_signal_set_bit: "bit (signal_set_bit s) n \<longleftrightarrow> s \<ge> 1 \<and> s \<le> 64 \<and> n = nat (s - 1)"
  by (auto simp: signal_set_bit_def bit_simps)

text \<open>Whether a signal is in a set.\<close>

definition has_signal :: "u64 \<Rightarrow> i32 \<Rightarrow> bool" where
  "has_signal w s \<longleftrightarrow> s \<ge> 1 \<and> s \<le> 64 \<and> bit w (nat (s - 1))"

lemma has_signal_ops [simp]:
  "has_signal (v AND w) s \<longleftrightarrow> has_signal v s \<and> has_signal w s"
  "has_signal (v OR w) s \<longleftrightarrow> has_signal v s \<or> has_signal w s"
  "has_signal (NOT w) s \<longleftrightarrow> s \<ge> 1 \<and> s \<le> 64 \<and> \<not> has_signal w s"
  "has_signal 0 s \<longleftrightarrow> False"
  "has_signal (signal_set_bit t) s \<longleftrightarrow> s = t \<and> s \<ge> 1 \<and> s \<le> 64"
  by (auto simp: has_signal_def bit_simps bit_signal_set_bit)

lemma has_signal_range: "has_signal w s \<Longrightarrow> s \<ge> 1 \<and> s \<le> 64"
  by (simp add: has_signal_def)

lemma nonzero_has_signal: "w \<noteq> 0 \<longleftrightarrow> (\<exists>s. has_signal w s)"
proof
  assume "w \<noteq> 0"
  then obtain n where "n < 64" "bit w n" by (rule some_bit)
  then have "has_signal w (int n + 1)" by (simp add: has_signal_def)
  then show "\<exists>s. has_signal w s" ..
qed (auto simp: has_signal_def)

lemma has_signal_and: "w AND signal_set_bit s \<noteq> 0 \<longleftrightarrow> has_signal w s" "signal_set_bit s AND w \<noteq> 0 \<longleftrightarrow> has_signal w s"
  using has_signal_range [of w s] unfolding nonzero_has_signal by auto

lemma lowest_signal:
  assumes "w \<noteq> 0"
  shows "has_signal w (int (trailing_zeros w) + 1)" "has_signal w s \<Longrightarrow> int (trailing_zeros w) + 1 \<le> s"
proof -
  note * = trailing_zeros_least [OF assms]
  then show "has_signal w (int (trailing_zeros w) + 1)" by (auto simp: has_signal_def)
  assume "has_signal w s"
  then have "\<not> nat (s - 1) < trailing_zeros w" "s \<ge> 1" using * by (auto simp: has_signal_def)
  then show "int (trailing_zeros w) + 1 \<le> s" by linarith
qed

text \<open>The signal Linux takes next: an unblocked one, a synchronous one before any other, then the lowest.\<close>

definition takes_first :: "u64 \<Rightarrow> u64 \<Rightarrow> i32 \<Rightarrow> bool" where
  "takes_first pend blocked s \<longleftrightarrow>
     has_signal pend s \<and> \<not> has_signal blocked s
     \<and> (\<forall>r. has_signal pend r \<and> \<not> has_signal blocked r \<longrightarrow>
          (if has_signal SYNCHRONOUS s = has_signal SYNCHRONOUS r then s \<le> r else has_signal SYNCHRONOUS s))"

lemma next_signal_None: "next_signal pend blocked = None \<longleftrightarrow> (\<forall>s. has_signal pend s \<longrightarrow> has_signal blocked s)"
  using nonzero_has_signal [of "pend AND NOT blocked"] has_signal_range [of pend]
  by (auto simp: next_signal_def Let_def)

lemma next_signal_Some: "next_signal pend blocked = Some s \<longleftrightarrow> takes_first pend blocked s"
proof -
  let ?d = "pend AND NOT blocked"
  have first: "takes_first pend blocked t" if "next_signal pend blocked = Some t" for t
  proof (cases "?d AND SYNCHRONOUS = 0")
    case True
    then have none: "\<not> (has_signal ?d r \<and> has_signal SYNCHRONOUS r)" for r
      using nonzero_has_signal [of "?d AND SYNCHRONOUS"] by (metis has_signal_ops(1))
    with that True have "?d \<noteq> 0" "t = int (trailing_zeros ?d) + 1"
      by (auto simp: next_signal_def Let_def split: if_splits)
    then show ?thesis using lowest_signal [of ?d] none has_signal_range [of pend]
      by (auto simp: takes_first_def)
  next
    case False
    then have "t = int (trailing_zeros (?d AND SYNCHRONOUS)) + 1"
      using that by (auto simp: next_signal_def Let_def split: if_splits)
    then show ?thesis using lowest_signal [OF False] has_signal_range [of pend]
      by (auto simp: takes_first_def)
  qed
  have unique: "t = s" if "takes_first pend blocked s" "takes_first pend blocked t" for t
    using that unfolding takes_first_def by (metis order_antisym)
  show ?thesis
  proof
    assume s: "takes_first pend blocked s"
    then have "next_signal pend blocked \<noteq> None" by (auto simp: next_signal_None takes_first_def)
    then show "next_signal pend blocked = Some s" using first unique [OF s] by fastforce
  qed (rule first)
qed

section \<open>The loop\<close>

text \<open>Taking an instance clears its bit, which makes the set smaller as a number.\<close>

lemma clear_bit_less:
  assumes "has_signal w s" shows "unat (w AND NOT (signal_set_bit s)) < unat w"
proof -
  let ?v = "w AND NOT (signal_set_bit s)"
  have "?v \<le> w" by (simp add: word_and_le2)
  moreover have "?v \<noteq> w"
  proof
    assume "?v = w"
    then have "has_signal ?v s" using assms by simp
    then show False using has_signal_range [OF assms] by simp
  qed
  ultimately have "?v < w" by simp
  then show ?thesis by (simp add: word_less_nat_alt)
qed

lemma next_instance_pending:
  assumes "next_instance priv shr blocked = Some (s, q)"
  shows "has_signal (case q of Private \<Rightarrow> priv | Shared \<Rightarrow> shr) s" "\<not> has_signal blocked s"
  using assms next_signal_Some [of priv blocked] next_signal_Some [of shr blocked]
  by (auto simp: next_instance_def takes_first_def split: option.splits)

function predict_loop ::
    "(u32 \<Rightarrow> bool) \<Rightarrow> SignalAction list \<Rightarrow> bool \<Rightarrow> u64 \<Rightarrow> u64 \<Rightarrow> u64 \<Rightarrow> u64 \<Rightarrow> PredictedDelivery list \<Rightarrow>
     DeliveryPrediction" where
  "predict_loop named actions phase1_window priv shr blocked reset taken =
     (case next_instance priv shr blocked of
        None \<Rightarrow> \<lparr>deliveries = taken, prediction_end = Return blocked\<rparr>
      | Some (signal, queue) \<Rightarrow>
          if signal \<ge> FIRST_REALTIME_SIGNAL then
            \<lparr>deliveries = taken, prediction_end = Refuse (Realtime signal queue)\<rparr>
          else
            let b = signal_set_bit signal;
                priv' = (if queue = Private then priv AND NOT b else priv);
                shr' = (if queue = Shared then shr AND NOT b else shr);
                action = effective_action actions reset signal
            in
            (case predict_action action signal phase1_window of
               None \<Rightarrow> \<lparr>deliveries = taken, prediction_end = Refuse (Stop signal queue)\<rparr>
             | Some predicted \<Rightarrow>
                 let taken' = taken @ [\<lparr>delivery_signal = signal, delivery_queue = queue,
                       delivery_action = predicted, delivery_mask = blocked\<rparr>]
                 in
                 (case predicted of
                    Fatal _ \<Rightarrow>
                      \<lparr>deliveries = taken',
                       prediction_end = Death (signaled named (word_of_int signal) False)\<rparr>
                  | Ignored \<Rightarrow> predict_loop named actions phase1_window priv' shr' blocked reset taken'
                  | _ \<Rightarrow> predict_loop named actions phase1_window priv' shr'
                      (handler_mask action blocked signal AND NOT UNBLOCKABLE)
                      (if sa_flags action AND SA_RESETHAND \<noteq> 0 then reset OR b else reset) taken')))"
  by pat_completeness auto
termination
  by (relation "measure (\<lambda>(_, _, _, priv, shr, _). unat priv + unat shr)")
    (auto dest!: next_instance_pending(1) clear_bit_less split: SignalQueue.splits)

declare predict_loop.simps [simp del]

definition predict_deliveries ::
    "(u32 \<Rightarrow> bool) \<Rightarrow> u64 \<Rightarrow> u64 \<Rightarrow> u64 \<Rightarrow> SignalAction list \<Rightarrow> bool \<Rightarrow> DeliveryPrediction" where
  "predict_deliveries named priv shr blocked actions phase1_window =
     (let kill = signal_set_bit SIGKILL in
      if (priv OR shr) AND kill \<noteq> 0 then
        \<lparr>deliveries = [],
         prediction_end = Refuse (GroupExitInProgress (if priv AND kill \<noteq> 0 then Private else Shared))\<rparr>
      else predict_loop named actions phase1_window priv shr (blocked AND NOT UNBLOCKABLE) 0 [])"

section \<open>The order of Linux\<close>

text \<open>
  The rules the kernel follows at a return to user code, one instance at a time: the thread's own
  queue before the group's, within a queue a synchronous signal before any other and then the lowest
  number, an ignored instance dropped, a caught one widening the mask, a reset action back at its
  default.
\<close>

definition taken_from :: "u64 \<Rightarrow> u64 \<Rightarrow> u64 \<Rightarrow> i32 \<Rightarrow> SignalQueue \<Rightarrow> bool" where
  "taken_from priv shr blocked s q \<longleftrightarrow>
     (case q of
        Private \<Rightarrow> takes_first priv blocked s
      | Shared \<Rightarrow> (\<forall>r. has_signal priv r \<longrightarrow> has_signal blocked r) \<and> takes_first shr blocked s)"

definition without :: "SignalQueue \<Rightarrow> SignalQueue \<Rightarrow> i32 \<Rightarrow> u64 \<Rightarrow> u64" where
  "without q q' s w = (if q = q' then w AND NOT (signal_set_bit s) else w)"

inductive linux_exit ::
    "(u32 \<Rightarrow> bool) \<Rightarrow> SignalAction list \<Rightarrow> bool \<Rightarrow> u64 \<Rightarrow> u64 \<Rightarrow> u64 \<Rightarrow> u64 \<Rightarrow> PredictedDelivery list \<Rightarrow>
     PredictionEnd \<Rightarrow> bool" for named actions window where
  nothing_left:
    "(\<And>s. has_signal priv s \<or> has_signal shr s \<Longrightarrow> has_signal blocked s) \<Longrightarrow>
     linux_exit named actions window priv shr blocked reset [] (Return blocked)"
| realtime_next:
    "taken_from priv shr blocked s q \<Longrightarrow> s \<ge> 32 \<Longrightarrow>
     linux_exit named actions window priv shr blocked reset [] (Refuse (Realtime s q))"
| default_stop:
    "taken_from priv shr blocked s q \<Longrightarrow> s < 32 \<Longrightarrow>
     predict_action (effective_action actions reset s) s window = None \<Longrightarrow>
     linux_exit named actions window priv shr blocked reset [] (Refuse (Stop s q))"
| fatal_default:
    "taken_from priv shr blocked s q \<Longrightarrow> s < 32 \<Longrightarrow>
     predict_action (effective_action actions reset s) s window = Some (Fatal core) \<Longrightarrow>
     linux_exit named actions window priv shr blocked reset
       [\<lparr>delivery_signal = s, delivery_queue = q, delivery_action = Fatal core, delivery_mask = blocked\<rparr>]
       (Death (signaled named (word_of_int s) False))"
| ignored_instance:
    "taken_from priv shr blocked s q \<Longrightarrow> s < 32 \<Longrightarrow>
     predict_action (effective_action actions reset s) s window = Some Ignored \<Longrightarrow>
     linux_exit named actions window (without q Private s priv) (without q Shared s shr) blocked reset ds e \<Longrightarrow>
     linux_exit named actions window priv shr blocked reset
       (\<lparr>delivery_signal = s, delivery_queue = q, delivery_action = Ignored, delivery_mask = blocked\<rparr> # ds) e"
| caught_instance:
    "taken_from priv shr blocked s q \<Longrightarrow> s < 32 \<Longrightarrow>
     action = effective_action actions reset s \<Longrightarrow>
     predict_action action s window = Some a \<Longrightarrow> a = Caught \<or> a = Phase1Alarm \<Longrightarrow>
     linux_exit named actions window (without q Private s priv) (without q Shared s shr)
       (handler_mask action blocked s AND NOT UNBLOCKABLE)
       (if sa_flags action AND SA_RESETHAND \<noteq> 0 then reset OR signal_set_bit s else reset) ds e \<Longrightarrow>
     linux_exit named actions window priv shr blocked reset
       (\<lparr>delivery_signal = s, delivery_queue = q, delivery_action = a, delivery_mask = blocked\<rparr> # ds) e"

inductive_cases linux_exitE: "linux_exit named actions window priv shr blocked reset ds e"

lemma next_instance_Some: "next_instance priv shr blocked = Some (s, q) \<longleftrightarrow> taken_from priv shr blocked s q"
  by (cases q) (auto simp: next_instance_def taken_from_def next_signal_Some [symmetric]
      next_signal_None [symmetric] split: option.splits)

lemma next_instance_None:
  "next_instance priv shr blocked = None \<longleftrightarrow> (\<forall>s. has_signal priv s \<or> has_signal shr s \<longrightarrow> has_signal blocked s)"
  using next_signal_None [of priv blocked] next_signal_None [of shr blocked]
  by (auto simp: next_instance_def split: option.splits)

text \<open>One round of the loop, by what the next instance does.\<close>

lemma predict_loop_steps:
  assumes "next_instance priv shr blocked = Some (s, q)"
  shows "s \<ge> 32 \<Longrightarrow> predict_loop named actions window priv shr blocked reset taken
      = \<lparr>deliveries = taken, prediction_end = Refuse (Realtime s q)\<rparr>"
    and "s < 32 \<Longrightarrow> predict_action (effective_action actions reset s) s window = None \<Longrightarrow>
      predict_loop named actions window priv shr blocked reset taken
      = \<lparr>deliveries = taken, prediction_end = Refuse (Stop s q)\<rparr>"
    and "s < 32 \<Longrightarrow> predict_action (effective_action actions reset s) s window = Some (Fatal core) \<Longrightarrow>
      predict_loop named actions window priv shr blocked reset taken
      = \<lparr>deliveries = taken @ [\<lparr>delivery_signal = s, delivery_queue = q, delivery_action = Fatal core,
           delivery_mask = blocked\<rparr>],
         prediction_end = Death (signaled named (word_of_int s) False)\<rparr>"
    and "s < 32 \<Longrightarrow> predict_action (effective_action actions reset s) s window = Some Ignored \<Longrightarrow>
      predict_loop named actions window priv shr blocked reset taken
      = predict_loop named actions window (without q Private s priv) (without q Shared s shr) blocked reset
          (taken @ [\<lparr>delivery_signal = s, delivery_queue = q, delivery_action = Ignored, delivery_mask = blocked\<rparr>])"
    and "s < 32 \<Longrightarrow> predict_action (effective_action actions reset s) s window = Some a \<Longrightarrow>
      a = Caught \<or> a = Phase1Alarm \<Longrightarrow>
      predict_loop named actions window priv shr blocked reset taken
      = predict_loop named actions window (without q Private s priv) (without q Shared s shr)
          (handler_mask (effective_action actions reset s) blocked s AND NOT UNBLOCKABLE)
          (if sa_flags (effective_action actions reset s) AND SA_RESETHAND \<noteq> 0
           then reset OR signal_set_bit s else reset)
          (taken @ [\<lparr>delivery_signal = s, delivery_queue = q, delivery_action = a, delivery_mask = blocked\<rparr>])"
  by (subst predict_loop.simps; use assms in \<open>auto simp: FIRST_REALTIME_SIGNAL_def Let_def without_def\<close>)+

lemma predict_loop_follows:
  "\<exists>ds e. predict_loop named actions window priv shr blocked reset taken
       = \<lparr>deliveries = taken @ ds, prediction_end = e\<rparr>
     \<and> linux_exit named actions window priv shr blocked reset ds e"
proof (induction "unat priv + unat shr" arbitrary: priv shr blocked reset taken rule: less_induct)
  case less
  show ?case
  proof (cases "next_instance priv shr blocked")
    case None
    then have "predict_loop named actions window priv shr blocked reset taken
        = \<lparr>deliveries = taken, prediction_end = Return blocked\<rparr>" by (simp add: predict_loop.simps)
    then show ?thesis using None by (auto simp: next_instance_None intro: nothing_left)
  next
    case (Some sq)
    obtain s q where "sq = (s, q)" by fastforce
    note inst = Some [unfolded this]
    note steps = predict_loop_steps [OF inst]
    have from_queue: "taken_from priv shr blocked s q" using inst by (simp add: next_instance_Some)
    have "unat (without q Private s priv) + unat (without q Shared s shr) < unat priv + unat shr"
      using next_instance_pending(1) [OF inst] clear_bit_less by (cases q) (auto simp: without_def)
    note IH = less.hyps [OF this]
    show ?thesis
    proof (cases "s < 32")
      case True
      show ?thesis
      proof (cases "predict_action (effective_action actions reset s) s window")
        case None
        then show ?thesis using steps(2) from_queue True by (auto intro: default_stop)
      next
        case (Some p)
        let ?d = "\<lparr>delivery_signal = s, delivery_queue = q, delivery_action = p, delivery_mask = blocked\<rparr>"
        consider core where "p = Fatal core" | "p = Ignored" | "p = Caught \<or> p = Phase1Alarm" by (cases p) auto
        then show ?thesis
        proof cases
          case 1
          then show ?thesis using steps(3) from_queue True Some by (auto intro: fatal_default)
        next
          case 2
          from IH [of blocked reset "taken @ [?d]"] obtain ds e where rest:
            "predict_loop named actions window (without q Private s priv) (without q Shared s shr) blocked reset
               (taken @ [?d]) = \<lparr>deliveries = (taken @ [?d]) @ ds, prediction_end = e\<rparr>"
            "linux_exit named actions window (without q Private s priv) (without q Shared s shr) blocked reset ds e"
            by blast
          have "predict_loop named actions window priv shr blocked reset taken
              = \<lparr>deliveries = taken @ (?d # ds), prediction_end = e\<rparr>"
            using steps(4) [OF True, of actions reset window named taken] Some 2 rest(1) by simp
          moreover have "linux_exit named actions window priv shr blocked reset (?d # ds) e"
            unfolding 2 by (rule ignored_instance [OF from_queue True _ rest(2)]) (simp add: Some 2)
          ultimately show ?thesis by blast
        next
          case 3
          let ?a = "effective_action actions reset s"
          let ?m = "handler_mask ?a blocked s AND NOT UNBLOCKABLE"
          let ?r = "if sa_flags ?a AND SA_RESETHAND \<noteq> 0 then reset OR signal_set_bit s else reset"
          from IH [of ?m ?r "taken @ [?d]"] obtain ds e where rest:
            "predict_loop named actions window (without q Private s priv) (without q Shared s shr) ?m ?r
               (taken @ [?d]) = \<lparr>deliveries = (taken @ [?d]) @ ds, prediction_end = e\<rparr>"
            "linux_exit named actions window (without q Private s priv) (without q Shared s shr) ?m ?r ds e"
            by blast
          have "predict_loop named actions window priv shr blocked reset taken
              = \<lparr>deliveries = taken @ (?d # ds), prediction_end = e\<rparr>"
            using steps(5) [OF True Some 3, of named taken] rest(1) by simp
          moreover have "linux_exit named actions window priv shr blocked reset (?d # ds) e"
            by (rule caught_instance [OF from_queue True refl Some 3 rest(2)])
          ultimately show ?thesis by blast
        qed
      qed
    next
      case False
      then show ?thesis using steps(1) from_queue by (auto intro: realtime_next)
    qed
  qed
qed

lemma linux_exit_predicts:
  assumes "linux_exit named actions window priv shr blocked reset ds e"
  shows "predict_loop named actions window priv shr blocked reset taken
    = \<lparr>deliveries = taken @ ds, prediction_end = e\<rparr>"
  using assms
proof (induction arbitrary: taken rule: linux_exit.induct)
  case (nothing_left priv shr blocked reset)
  then have "next_instance priv shr blocked = None" by (simp add: next_instance_None)
  then show ?case by (simp add: predict_loop.simps)
next
  case (realtime_next priv shr blocked s q reset)
  note inst = next_instance_Some [THEN iffD2, OF realtime_next.hyps(1)]
  show ?case using predict_loop_steps(1) [OF inst realtime_next.hyps(2)] by simp
next
  case (default_stop priv shr blocked s q reset)
  note inst = next_instance_Some [THEN iffD2, OF default_stop.hyps(1)]
  show ?case using predict_loop_steps(2) [OF inst default_stop.hyps(2,3)] by simp
next
  case (fatal_default priv shr blocked s q reset core)
  note inst = next_instance_Some [THEN iffD2, OF fatal_default.hyps(1)]
  show ?case using predict_loop_steps(3) [OF inst fatal_default.hyps(2,3)] by simp
next
  case (ignored_instance priv shr blocked s q reset ds e)
  note inst = next_instance_Some [THEN iffD2, OF ignored_instance.hyps(1)]
  show ?case unfolding predict_loop_steps(4) [OF inst ignored_instance.hyps(2,3)] ignored_instance.IH by simp
next
  case (caught_instance priv shr blocked s q action reset a ds e)
  note inst = next_instance_Some [THEN iffD2, OF caught_instance.hyps(1)]
  note step = predict_loop_steps(5) [OF inst caught_instance.hyps(2) caught_instance.hyps(4) [unfolded caught_instance.hyps(3)]
      caught_instance.hyps(5)]
  show ?case unfolding step caught_instance.hyps(3) [symmetric] caught_instance.IH by simp
qed



section \<open>Accounting\<close>

definition queue_of :: "u64 \<Rightarrow> u64 \<Rightarrow> SignalQueue \<Rightarrow> u64" where
  "queue_of priv shr q = (case q of Private \<Rightarrow> priv | Shared \<Rightarrow> shr)"

abbreviation instance_of :: "PredictedDelivery \<Rightarrow> i32 \<times> SignalQueue" where
  "instance_of d \<equiv> (delivery_signal d, delivery_queue d)"

lemma queue_without:
  "has_signal (queue_of (without q Private s priv) (without q Shared s shr) q') r
   \<longleftrightarrow> has_signal (queue_of priv shr q') r \<and> (r, q') \<noteq> (s, q)"
  using has_signal_range [of priv r] has_signal_range [of shr r]
  by (cases q; cases q') (auto simp: queue_of_def without_def)

lemma taken_from_pending:
  "taken_from priv shr blocked s q \<Longrightarrow> has_signal (queue_of priv shr q) s \<and> \<not> has_signal blocked s"
  by (cases q) (auto simp: taken_from_def takes_first_def queue_of_def)

text \<open>The deliveries of an exit account for the pending instances: the statement, and its step.\<close>

definition accounted :: "(u32 \<Rightarrow> bool) \<Rightarrow> (int \<Rightarrow> SignalQueue \<Rightarrow> bool) \<Rightarrow> PredictedDelivery list \<Rightarrow> PredictionEnd \<Rightarrow> bool" where
  "accounted named pending ds e \<longleftrightarrow>
     distinct (map instance_of ds)
     \<and> (\<forall>d \<in> set ds. pending (delivery_signal d) (delivery_queue d)
         \<and> \<not> has_signal (delivery_mask d) (delivery_signal d) \<and> delivery_signal d < 32)
     \<and> (\<forall>m r q. e = Return m \<longrightarrow> pending r q \<longrightarrow> has_signal m r \<or> (r, q) \<in> instance_of ` set ds)
     \<and> (\<forall>st. e = Death st \<longrightarrow> (\<exists>core. ds \<noteq> [] \<and> delivery_action (last ds) = Fatal core
         \<and> st = signaled named (word_of_int (delivery_signal (last ds))) False))"

lemma accounted_Cons:
  assumes rest: "accounted named (\<lambda>r q'. pending r q' \<and> (r, q') \<noteq> (s, q)) ds e"
    and d: "delivery_signal d = s" "delivery_queue d = q" "\<not> has_signal (delivery_mask d) s"
    and s: "pending s q" "s < 32"
  shows "accounted named pending (d # ds) e"
proof -
  have i: "instance_of d = (s, q)" using d by simp
  have "instance_of d' \<noteq> (s, q)" if "d' \<in> set ds" for d'
    using rest that by (auto simp: accounted_def)
  then have "(s, q) \<notin> set (map instance_of ds)" by auto
  with rest d s i show ?thesis unfolding accounted_def by simp blast
qed

lemma linux_exit_accounts:
  assumes "linux_exit named actions window priv shr blocked reset ds e"
  shows "accounted named (\<lambda>r q. has_signal (queue_of priv shr q) r) ds e"
  using assms
proof (induction rule: linux_exit.induct)
  case (nothing_left priv shr blocked reset)
  then have "has_signal blocked r" if "has_signal (queue_of priv shr q) r" for r q
    using that by (cases q) (auto simp: queue_of_def)
  then show ?case by (auto simp: accounted_def)
next
  case (ignored_instance priv shr blocked s q reset ds e)
  from ignored_instance.IH [unfolded queue_without] show ?case
    by (rule accounted_Cons) (use taken_from_pending [OF ignored_instance.hyps(1)] ignored_instance.hyps(2) in simp_all)
next
  case (caught_instance priv shr blocked s q action reset a ds e)
  from caught_instance.IH [unfolded queue_without] show ?case
    by (rule accounted_Cons) (use taken_from_pending [OF caught_instance.hyps(1)] caught_instance.hyps(2) in simp_all)
next
  case (fatal_default priv shr blocked s q reset core)
  then show ?case using taken_from_pending by (auto simp: accounted_def)
qed (simp_all add: accounted_def)



section \<open>Approved deliveries\<close>

datatype Interruption =
  NotInSyscall | ReturnOf (interrupted_syscall: u64) (interrupted_result: u64)
| KernelRun (interrupted_syscall: u64) | AfterFrame

record SignalDelivery =
  signal_number_of :: i32
  approved_action :: SignalAction
  frame_mask :: u64
  current_mask :: u64
  approved_handler_mask :: u64
  unchecked_mask :: u64
  unchecked_frame_mask :: u64
  unchecked_current_mask :: u64
  interruption :: Interruption

record KernelDeliveryState =
  kernel_frame_mask :: u64
  kernel_current_mask :: u64
  orig_syscall :: u64
  ret_value :: u64

datatype SignalDeliveryField = FrameMask | CurrentMask | HandlerMask | InterruptedSyscall | InterruptedResult

record SignalDeliveryMismatch =
  mismatch_field :: SignalDeliveryField
  expected_value :: u64
  actual_value :: u64

definition compare_mask ::
    "SignalDelivery \<Rightarrow> SignalDeliveryField \<Rightarrow> u64 \<Rightarrow> u64 \<Rightarrow> SignalDeliveryMismatch option" where
  "compare_mask d field wanted found =
     (let only = (case field of FrameMask \<Rightarrow> unchecked_frame_mask d
                    | CurrentMask \<Rightarrow> unchecked_current_mask d | _ \<Rightarrow> 0);
          checked = NOT (unchecked_mask d OR only OR UNBLOCKABLE)
      in if wanted AND checked = found AND checked then None
         else Some \<lparr>mismatch_field = field, expected_value = wanted AND checked,
                    actual_value = found AND checked\<rparr>)"

definition compare_register :: "SignalDeliveryField \<Rightarrow> u64 \<Rightarrow> u64 \<Rightarrow> SignalDeliveryMismatch option" where
  "compare_register field wanted found =
     (if wanted = found then None
      else Some \<lparr>mismatch_field = field, expected_value = wanted, actual_value = found\<rparr>)"

text \<open>The question mark operator on a check that only fails or passes.\<close>

definition or_else :: "'a option \<Rightarrow> 'a option \<Rightarrow> 'a option" where
  "or_else x y = (case x of Some e \<Rightarrow> Some e | None \<Rightarrow> y)"

definition check_interruption :: "Interruption \<Rightarrow> KernelDeliveryState \<Rightarrow> SignalDeliveryMismatch option" where
  "check_interruption i k =
     (case i of
        NotInSyscall \<Rightarrow> compare_register InterruptedSyscall (- 1) (orig_syscall k)
      | ReturnOf sysno result \<Rightarrow>
          or_else (compare_register InterruptedSyscall sysno (orig_syscall k))
            (compare_register InterruptedResult result (ret_value k))
      | KernelRun sysno \<Rightarrow> compare_register InterruptedSyscall sysno (orig_syscall k)
      | AfterFrame \<Rightarrow> None)"

definition check :: "SignalDelivery \<Rightarrow> KernelDeliveryState \<Rightarrow> SignalDeliveryMismatch option" where
  "check d k =
     or_else (compare_mask d FrameMask (frame_mask d) (kernel_frame_mask k))
    (or_else (compare_mask d CurrentMask (current_mask d) (kernel_current_mask k))
    (or_else (compare_mask d HandlerMask (approved_handler_mask d)
               (handler_mask (approved_action d) (current_mask d) (signal_number_of d)))
      (check_interruption (interruption d) k)))"

text \<open>A bit that a comparison leaves out.\<close>

definition exempt :: "SignalDelivery \<Rightarrow> u64 \<Rightarrow> i32 \<Rightarrow> bool" where
  "exempt d only s \<longleftrightarrow> has_signal (unchecked_mask d) s \<or> has_signal only s \<or> s = SIGKILL \<or> s = SIGSTOP"

lemma has_unblockable: "has_signal UNBLOCKABLE s \<longleftrightarrow> s = SIGKILL \<or> s = SIGSTOP"
  by (auto simp: UNBLOCKABLE_def signal_set_def SIGKILL_def SIGSTOP_def)

lemma same_signals: "v = w \<longleftrightarrow> (\<forall>s. has_signal v s = has_signal w s)"
proof
  assume *: "\<forall>s. has_signal v s = has_signal w s"
  show "v = w"
  proof (rule bit_word_eqI)
    fix n assume "n < LENGTH(64)"
    then show "bit v n = bit w n" using * [rule_format, of "int n + 1"] by (simp add: has_signal_def)
  qed
qed simp

lemma compare_mask_None:
  "compare_mask d field wanted found = None \<longleftrightarrow>
     (\<forall>s. has_signal wanted s = has_signal found s
        \<or> exempt d (case field of FrameMask \<Rightarrow> unchecked_frame_mask d
            | CurrentMask \<Rightarrow> unchecked_current_mask d | _ \<Rightarrow> 0) s)"
  using has_signal_range [of wanted] has_signal_range [of found]
  by (auto simp: compare_mask_def Let_def same_signals has_unblockable exempt_def)

text \<open>
  C25: An approved delivery is accepted exactly when it agrees with the kernel: every bit of the frame's
  mask and of the current mask that is not exempt, the handler's mask by Linux's rule, and the
  registers that the Tool's record of the interrupted code claims. SIGKILL and SIGSTOP never count.
\<close>

theorem check_accepts:
  "check d k = None \<longleftrightarrow>
     (\<forall>s. has_signal (frame_mask d) s = has_signal (kernel_frame_mask k) s \<or> exempt d (unchecked_frame_mask d) s)
   \<and> (\<forall>s. has_signal (current_mask d) s = has_signal (kernel_current_mask k) s
        \<or> exempt d (unchecked_current_mask d) s)
   \<and> (\<forall>s. has_signal (approved_handler_mask d) s
        = (has_signal (current_mask d) s \<or> has_signal (sa_mask (approved_action d)) s
           \<or> (s = signal_number_of d \<and> 1 \<le> s \<and> s \<le> 64 \<and> sa_flags (approved_action d) AND SA_NODEFER = 0))
        \<or> exempt d 0 s)
   \<and> (case interruption d of
        NotInSyscall \<Rightarrow> orig_syscall k = - 1
      | ReturnOf sysno result \<Rightarrow> orig_syscall k = sysno \<and> ret_value k = result
      | KernelRun sysno \<Rightarrow> orig_syscall k = sysno
      | AfterFrame \<Rightarrow> True)"
proof -
  have or: "or_else x y = None \<longleftrightarrow> x = None \<and> y = None" for x y :: "SignalDeliveryMismatch option"
    by (simp add: or_else_def split: option.split)
  have "check_interruption (interruption d) k = None \<longleftrightarrow>
      (case interruption d of NotInSyscall \<Rightarrow> orig_syscall k = - 1
       | ReturnOf sysno result \<Rightarrow> orig_syscall k = sysno \<and> ret_value k = result
       | KernelRun sysno \<Rightarrow> orig_syscall k = sysno | AfterFrame \<Rightarrow> True)"
    by (auto simp: check_interruption_def compare_register_def or split: Interruption.split)
  moreover have "has_signal (handler_mask a m n) s \<longleftrightarrow> has_signal m s \<or> has_signal (sa_mask a) s
      \<or> (s = n \<and> 1 \<le> s \<and> s \<le> 64 \<and> sa_flags a AND SA_NODEFER = 0)" for a m n s
    by (auto simp: handler_mask_def Let_def)
  ultimately show ?thesis unfolding check_def or compare_mask_None by simp
qed

end
