(* ===== verification/Trap_State.thy ===== *)
theory Trap_State
  imports Signal_Delivery
begin

text \<open>
  What Reverie repairs after its own traps: \<^verbatim>\<open>reverie-ptrace/src/segv_state.rs\<close> and
  \<^verbatim>\<open>sigtrap_state.rs\<close>. A forced signal resets an action that was blocked or ignored; the repair is
  decided from records that may be missing. The reset of the kernel is modelled beside it, and the
  theorems say what the repair restores.
\<close>

section \<open>Actions\<close>

record KernelSigaction =
  ks_handler :: u64
  ks_flags :: u64
  ks_restorer :: u64
  ks_mask :: u64

definition default_sigaction :: KernelSigaction where
  "default_sigaction = \<lparr>ks_handler = 0, ks_flags = 0, ks_restorer = 0, ks_mask = 0\<rparr>"

definition ignored :: "KernelSigaction \<Rightarrow> bool" where
  "ignored a \<longleftrightarrow> ks_handler a = SIG_IGN"

definition caught :: "KernelSigaction \<Rightarrow> bool" where
  "caught a \<longleftrightarrow> ks_handler a \<noteq> SIG_DFL \<and> \<not> ignored a"

definition flushed :: "KernelSigaction \<Rightarrow> KernelSigaction" where
  "flushed a = default_sigaction\<lparr>ks_handler := (if ignored a then SIG_IGN else SIG_DFL)\<rparr>"

definition after_delivery :: "KernelSigaction \<Rightarrow> KernelSigaction" where
  "after_delivery a =
     (if caught a \<and> ks_flags a AND SA_RESETHAND \<noteq> 0 then a\<lparr>ks_handler := SIG_DFL\<rparr> else a)"

section \<open>The bit a thread runs under\<close>

definition SIGSEGV_BIT :: u64 where "SIGSEGV_BIT = push_bit 10 1"
definition SIGTRAP_BIT :: u64 where "SIGTRAP_BIT = push_bit 4 1"
definition BLOCKABLE_SIGNAL_BITS :: u64 where
  "BLOCKABLE_SIGNAL_BITS = NOT (push_bit 8 1 OR push_bit 18 1)"

datatype SignalRun = Unknown | Known bool | Delivered i32 bool bool

definition handled_bit :: "bool \<Rightarrow> u64 \<Rightarrow> KernelSigaction \<Rightarrow> bool" where
  "handled_bit blocked b action \<longleftrightarrow> blocked \<or> ks_mask action AND b \<noteq> 0"

definition resolve :: "SignalRun \<Rightarrow> u64 \<Rightarrow> u64 \<Rightarrow> KernelSigaction option \<Rightarrow> bool option" where
  "resolve run b now action =
     (if now AND b \<noteq> 0 then None
      else
        (case run of
           Unknown \<Rightarrow> None
         | Known blocked \<Rightarrow> Some blocked
         | Delivered _ blocked saved \<Rightarrow>
             (case action of
                Some a \<Rightarrow>
                  if caught a then Some (handled_bit blocked b a)
                  else if ignored a then Some saved
                  else if ks_flags a AND SA_RESETHAND \<noteq> 0 then
                    (if handled_bit blocked b a = saved then Some saved else None)
                  else Some saved
              | None \<Rightarrow> if blocked \<and> saved then Some True else None)))"

definition after_segv_delivery :: "KernelSigaction option \<Rightarrow> bool \<Rightarrow> bool \<Rightarrow> SignalRun" where
  "after_segv_delivery before blocked saved =
     (case before of
        Some a \<Rightarrow>
          if caught a then
            Known (blocked \<or> ks_mask a AND SIGSEGV_BIT \<noteq> 0 \<or> ks_flags a AND SA_NODEFER = 0)
          else Known saved
      | None \<Rightarrow> Unknown)"

section \<open>The repair\<close>

record SegvRepair =
  repair_block :: bool
  repair_write :: "KernelSigaction option"
  repair_after :: "KernelSigaction option"
  repair_known :: bool

definition reset_of :: "KernelSigaction \<Rightarrow> KernelSigaction" where
  "reset_of a = a\<lparr>ks_handler := SIG_DFL\<rparr>"

definition repair_blocked ::
    "bool option \<Rightarrow> KernelSigaction option \<Rightarrow> KernelSigaction option \<Rightarrow> bool option" where
  "repair_blocked blocked before now =
     (case blocked of
        Some b \<Rightarrow> Some b
      | None \<Rightarrow>
          (case (before, now) of
             (Some a, Some n) \<Rightarrow>
               if caught a then
                 (if n = reset_of a then Some True else if n = a then Some False else None)
               else None
           | _ \<Rightarrow> None))"

definition segv_repair_reset ::
    "bool option \<Rightarrow> KernelSigaction option \<Rightarrow> KernelSigaction option \<Rightarrow> SegvRepair" where
  "segv_repair_reset blocked before now =
     (let blocked' = repair_blocked blocked before now;
          reset = (case before of
                     Some a \<Rightarrow> if ignored a then Some True else blocked'
                   | None \<Rightarrow> None);
          write = (case (reset, before, now) of
                     (Some True, Some a, Some n) \<Rightarrow>
                       if ks_handler a \<noteq> ks_handler n \<and> n = reset_of a then Some a else None
                   | _ \<Rightarrow> None);
          after = (case before of
                     Some a \<Rightarrow>
                       if ks_handler a = SIG_DFL then Some a
                       else if reset = Some False \<or> write \<noteq> None then Some a else None
                   | None \<Rightarrow>
                       (case now of
                          Some n \<Rightarrow> if ks_handler n \<noteq> SIG_DFL then Some n else None
                        | None \<Rightarrow> None))
      in \<lparr>repair_block = (blocked' = Some True), repair_write = write, repair_after = after,
          repair_known = (blocked' \<noteq> None \<and> after \<noteq> None)\<rparr>)"

definition segv_repair ::
    "bool option \<Rightarrow> KernelSigaction option \<Rightarrow> KernelSigaction option \<Rightarrow> SegvRepair" where
  "segv_repair blocked before now =
     (case now of
        Some n \<Rightarrow>
          if caught n \<or> ignored n then
            \<lparr>repair_block = False, repair_write = None, repair_after = Some n,
             repair_known = (caught n \<and> blocked \<noteq> Some True \<and> (before = None \<or> before = Some n))\<rparr>
          else segv_repair_reset blocked before now
      | None \<Rightarrow> segv_repair_reset blocked before now)"

section \<open>What the kernel does\<close>

text \<open>
  A forced signal, as Linux raises it: an action that is blocked or ignored falls back to the default,
  and the signal is not blocked afterwards.
\<close>

definition forced :: "bool \<Rightarrow> KernelSigaction \<Rightarrow> KernelSigaction" where
  "forced blocked a = (if blocked \<or> ignored a then reset_of a else a)"

text \<open>A record agrees with the fact, or there is none.\<close>

definition agrees :: "'a option \<Rightarrow> 'a \<Rightarrow> bool" where
  "agrees r x \<longleftrightarrow> r = None \<or> r = Some x"

lemma reset_facts: "\<not> caught (reset_of a)" "\<not> ignored (reset_of a)" "ks_handler (reset_of a) = SIG_DFL"
  by (simp_all add: caught_def ignored_def reset_of_def SIG_DFL_def SIG_IGN_def)

text \<open>An action is the default, ignored or caught.\<close>

lemma handler_kinds:
  "ks_handler a = SIG_DFL \<and> \<not> caught a \<and> \<not> ignored a \<and> reset_of a = a
   \<or> ignored a \<and> \<not> caught a \<and> ks_handler a \<noteq> SIG_DFL \<and> reset_of a \<noteq> a
   \<or> caught a \<and> \<not> ignored a \<and> ks_handler a \<noteq> SIG_DFL \<and> reset_of a \<noteq> a"
  by (cases a) (auto simp: caught_def ignored_def reset_of_def SIG_DFL_def SIG_IGN_def)

text \<open>
  C27: The repair after a trap restores the guest. Whatever was recorded before the trap, as long as
  each record is right or missing: the repair blocks SIGSEGV again only if it was blocked, it writes
  only the guest's own action and only where the trap reset it, and when it reports that everything
  is known, the bit and the action are exactly as they were before the trap.
\<close>

theorem segv_repair_exact:
  assumes "agrees blocked b" and "agrees before a" and "agrees now (forced b a)"
  defines "R \<equiv> segv_repair blocked before now"
  defines "final \<equiv> (case repair_write R of Some w \<Rightarrow> w | None \<Rightarrow> forced b a)"
  shows "(repair_block R \<longrightarrow> b) \<and> (repair_write R \<noteq> None \<longrightarrow> final = a \<and> forced b a \<noteq> a)
    \<and> (repair_after R \<noteq> None \<longrightarrow> repair_after R = Some final)
    \<and> (repair_known R \<longrightarrow> repair_block R = b \<and> final = a)"
proof -
  have records: "blocked = None \<or> blocked = Some b" "before = None \<or> before = Some a"
    "now = None \<or> now = Some (forced b a)" using assms(1-3) by (auto simp: agrees_def)
  note val = R_def [THEN meta_eq_to_obj_eq]
  note defs = final_def segv_repair_def segv_repair_reset_def repair_blocked_def Let_def
  from handler_kinds [of a] show ?thesis
  proof (elim disjE conjE, goal_cases)
    case 1
    then have "forced b a = a" by (simp add: forced_def)
    with 1 records val show ?case by (cases b; elim disjE; simp add: defs)
  next
    case 2
    then have "forced b a = reset_of a" by (simp add: forced_def)
    with 2 records val show ?case by (cases b; elim disjE; simp add: defs reset_facts)
  next
    case 3
    then have "forced b a = (if b then reset_of a else a)" by (simp add: forced_def)
    with 3 records val show ?case by (cases b; elim disjE; simp add: defs reset_facts)
  qed
qed

text \<open>A caught action that was reset while SIGSEGV was blocked, with the bit not recorded.\<close>

theorem segv_repair_exact_witness:
  "segv_repair None (Some \<lparr>ks_handler = 0x4000, ks_flags = 4, ks_restorer = 8, ks_mask = 1\<rparr>)
     (Some (forced True \<lparr>ks_handler = 0x4000, ks_flags = 4, ks_restorer = 8, ks_mask = 1\<rparr>))
   = \<lparr>repair_block = True, repair_write = Some \<lparr>ks_handler = 0x4000, ks_flags = 4, ks_restorer = 8, ks_mask = 1\<rparr>,
      repair_after = Some \<lparr>ks_handler = 0x4000, ks_flags = 4, ks_restorer = 8, ks_mask = 1\<rparr>, repair_known = True\<rparr>"
  (is "segv_repair _ (Some ?a) _ = _")
proof -
  let ?now = "Some (forced True ?a)" let ?R = "segv_repair None (Some ?a) ?now"
  have now: "repair_known ?R" "repair_write ?R = Some ?a" "repair_after ?R = Some ?a"
    by (auto simp: segv_repair_def segv_repair_reset_def repair_blocked_def forced_def reset_of_def Let_def
        caught_def ignored_def SIG_DFL_def SIG_IGN_def)
  moreover have "repair_block ?R"
    using segv_repair_exact [of None True "Some ?a" ?a ?now] now(1) by (simp add: agrees_def)
  ultimately show ?thesis by simp
qed

section \<open>The bit after a delivery\<close>

text \<open>
  The bit under which guest code runs after another signal was delivered under action \<open>a\<close>: a handler
  adds its mask to the mask the kernel blocked under, and where none ran the saved mask is restored.
\<close>

definition ran_under :: "bool \<Rightarrow> bool \<Rightarrow> u64 \<Rightarrow> KernelSigaction \<Rightarrow> bool" where
  "ran_under blocked saved b a = (if caught a then handled_bit blocked b a else saved)"

lemma handled_bit_reset [simp]: "handled_bit blocked b (reset_of a) = handled_bit blocked b a"
  by (simp add: handled_bit_def reset_of_def)

text \<open>An action that reads as the default with \<open>SA_RESETHAND\<close> may have been any handler.\<close>

lemma reset_origin:
  assumes "ks_handler a = SIG_DFL" and "ks_flags a AND SA_RESETHAND \<noteq> 0"
  shows "caught (a\<lparr>ks_handler := 2\<rparr>)" and "after_delivery (a\<lparr>ks_handler := 2\<rparr>) = a"
    and "handled_bit blocked b (a\<lparr>ks_handler := 2\<rparr>) = handled_bit blocked b a"
  using assms by (auto simp: caught_def ignored_def after_delivery_def handled_bit_def SIG_DFL_def SIG_IGN_def)

lemma ran_under_read:
  "ran_under blocked saved b a =
     (if caught (after_delivery a) then handled_bit blocked b (after_delivery a)
      else if caught a then handled_bit blocked b (after_delivery a) else saved)"
  by (auto simp: ran_under_def after_delivery_def handled_bit_def caught_def ignored_def SIG_DFL_def SIG_IGN_def)

lemma uncaught_reset:
  "caught a \<Longrightarrow> \<not> caught (after_delivery a) \<Longrightarrow>
     ks_handler (after_delivery a) = SIG_DFL \<and> ks_flags (after_delivery a) AND SA_RESETHAND \<noteq> 0"
  by (auto simp: after_delivery_def split: if_splits)

lemma not_caught_stays: "\<not> caught a \<Longrightarrow> after_delivery a = a"
  by (simp add: after_delivery_def)

text \<open>
  C28: The bit after a delivery is resolved exactly. When the mask at the trap does not contradict the
  record, \<open>resolve\<close> answers \<open>v\<close> if and only if every action that fits what was read at the trap
  leaves guest code running under \<open>v\<close>: it never guesses, and it is silent only where two histories
  differ.
\<close>

theorem resolve_exact:
  assumes "b \<noteq> 0" and "now AND b = 0" and "agrees action (after_delivery a1)"
  shows "resolve (Delivered signal blocked saved) b now action = Some v
    \<longleftrightarrow> (\<forall>a. agrees action (after_delivery a) \<longrightarrow> ran_under blocked saved b a = v)"
proof (cases action)
  case None
  define own :: "u64 \<Rightarrow> KernelSigaction" where
    "own m = \<lparr>ks_handler = 2, ks_flags = 0, ks_restorer = 0, ks_mask = m\<rparr>" for m
  have caught_own: "caught (own m)" for m
    by (simp add: own_def caught_def ignored_def SIG_DFL_def SIG_IGN_def)
  have runs: "ran_under blocked saved b (own 0) = blocked" "ran_under blocked saved b (own b)"
    "ran_under blocked saved b default_sigaction = saved"
    using assms(1) caught_own
    by (auto simp: ran_under_def handled_bit_def own_def default_sigaction_def caught_def SIG_DFL_def)
  have "(\<forall>a. ran_under blocked saved b a = v) \<longleftrightarrow> blocked \<and> saved \<and> v"
    using runs by (metis ran_under_def handled_bit_def)
  then show ?thesis using assms(2) None by (auto simp: resolve_def agrees_def)
next
  case (Some r)
  then have r: "r = after_delivery a1" using assms(3) by (simp add: agrees_def)
  have fits: "agrees action (after_delivery a) \<longleftrightarrow> after_delivery a = r" for a
    using Some by (auto simp: agrees_def)
  show ?thesis
  proof (cases "caught r")
    case True
    then have "ran_under blocked saved b a = handled_bit blocked b r" if "after_delivery a = r" for a
      using that by (simp add: ran_under_read)
    then show ?thesis using True Some r fits assms(2) by (auto simp: resolve_def)
  next
    case uncaught: False
    show ?thesis
    proof (cases "ks_handler r = SIG_DFL \<and> ks_flags r AND SA_RESETHAND \<noteq> 0")
      case True
      then have "\<not> ignored r" by (simp add: ignored_def SIG_DFL_def SIG_IGN_def)
      note origin = reset_origin [OF conjunct1 [OF True] conjunct2 [OF True]]
      have self: "after_delivery r = r" by (rule not_caught_stays [OF uncaught])
      have "(\<forall>a. after_delivery a = r \<longrightarrow> ran_under blocked saved b a = v)
          \<longleftrightarrow> handled_bit blocked b r = v \<and> saved = v"
        using origin self uncaught by (metis ran_under_read ran_under_def)
      then show ?thesis using uncaught True Some fits \<open>\<not> ignored r\<close> assms(2) by (auto simp: resolve_def)
    next
      case False
      then have "\<not> caught a" if "after_delivery a = r" for a using that uncaught uncaught_reset by blast
      then have all: "ran_under blocked saved b a = saved" if "after_delivery a = r" for a
        using that by (simp add: ran_under_def)
      have "ignored r \<or> ks_flags r AND SA_RESETHAND = 0"
        using False uncaught by (auto simp: caught_def)
      then have "resolve (Delivered signal blocked saved) b now action = Some saved"
        using uncaught Some assms(2) by (auto simp: resolve_def)
      then show ?thesis using all r fits by auto
    qed
  qed
qed

theorem resolve_exact_witness:
  "resolve (Delivered 10 False True) SIGSEGV_BIT 0
     (Some \<lparr>ks_handler = 0x4000, ks_flags = 0, ks_restorer = 0, ks_mask = SIGSEGV_BIT\<rparr>) = Some True"
proof -
  let ?a = "\<lparr>ks_handler = 0x4000, ks_flags = 0, ks_restorer = 0, ks_mask = SIGSEGV_BIT\<rparr>"
  have same: "after_delivery ?a = ?a" "caught ?a" "SIGSEGV_BIT \<noteq> 0"
    by (simp_all add: after_delivery_def caught_def ignored_def SIG_DFL_def SIG_IGN_def SIGSEGV_BIT_def)
  have "ran_under False True SIGSEGV_BIT a" if "agrees (Some ?a) (after_delivery a)" for a
  proof -
    from that have "after_delivery a = ?a" by (simp add: agrees_def)
    then show ?thesis using same by (simp add: ran_under_read handled_bit_def)
  qed
  then show ?thesis
    using resolve_exact [of SIGSEGV_BIT 0 "Some ?a" ?a 10 False True True] same by (simp add: agrees_def)
qed

end
