(* ===== verification/Signal_Sets.thy ===== *)
theory Signal_Sets
  imports Byte_Text Trap_State
begin

text \<open>
  The signal sets of a traced thread, \<^verbatim>\<open>reverie-ptrace/src/signal_sets.rs\<close>: the parser of
  \<^verbatim>\<open>/proc/<tid>/status\<close> and the choice of the directory it is read from; and the shorter reader of
  SIGTRAP's disposition in \<^verbatim>\<open>sigtrap_state.rs\<close>. What the kernel answers for a directory, and which
  task numbers are threads of this process, are arguments.
\<close>

section \<open>Facts\<close>

type_synonym os_error = int

datatype FactError = NotProvided | FactErrno os_error

definition EIO :: os_error where "EIO = 5"
definition ESRCH :: os_error where "ESRCH = 3"
definition ENOENT :: os_error where "ENOENT = 2"

record SignalSets =
  set_pending :: u64
  set_shared_pending :: u64
  set_blocked :: u64
  set_ignored :: u64
  set_caught :: u64

definition STATUS_LIMIT :: nat where "STATUS_LIMIT = 1024 * 1024"
definition MALFORMED :: FactError where "MALFORMED = FactErrno EIO"
definition NO_THREAD :: FactError where "NO_THREAD = FactErrno ESRCH"
definition PID_MAX_LIMIT :: int where "PID_MAX_LIMIT = 4 * 1024 * 1024"

definition TASK_STATES :: "string list" where
  "TASK_STATES =
     [''R (running)'', ''S (sleeping)'', ''D (disk sleep)'', ''T (stopped)'', ''t (tracing stop)'',
      ''X (dead)'', ''Z (zombie)'', ''P (parked)'', ''I (idle)'']"

datatype Field = FieldState | FieldTracerPid | FieldSet nat

definition FIELDS :: "(string \<times> Field) list" where
  "FIELDS =
     [(''State'', FieldState), (''TracerPid'', FieldTracerPid), (''SigPnd'', FieldSet 0),
      (''ShdPnd'', FieldSet 1), (''SigBlk'', FieldSet 2), (''SigIgn'', FieldSet 3), (''SigCgt'', FieldSet 4)]"

record ThreadStatus =
  status_sets :: SignalSets
  status_state :: char
  status_tracer :: u32

definition exited :: "ThreadStatus \<Rightarrow> bool" where
  "exited st \<longleftrightarrow> status_state st = CHR ''Z'' \<or> status_state st = CHR ''X''"

section \<open>Values\<close>

definition is_ascii_digit :: "char \<Rightarrow> bool" where
  "is_ascii_digit c \<longleftrightarrow> 48 \<le> (of_char c :: int) \<and> (of_char c :: int) \<le> 57"

definition is_lower_hex :: "char \<Rightarrow> bool" where
  "is_lower_hex c \<longleftrightarrow> is_ascii_digit c \<or> 97 \<le> (of_char c :: int) \<and> (of_char c :: int) \<le> 102"

definition is_key_char :: "char \<Rightarrow> bool" where
  "is_key_char c \<longleftrightarrow>
     is_ascii_digit c \<or> 65 \<le> (of_char c :: int) \<and> (of_char c :: int) \<le> 90
     \<or> 97 \<le> (of_char c :: int) \<and> (of_char c :: int) \<le> 122 \<or> c = CHR ''_''"

definition parse_pid :: "string \<Rightarrow> u32 option" where
  "parse_pid field =
     (if field = [] \<or> \<not> list_all is_ascii_digit field \<or> length field > 1 \<and> field ! 0 = CHR ''0'' then None
      else
        case from_str_radix (2 ^ 32) 10 field of
          None \<Rightarrow> None
        | Some n \<Rightarrow> if n < PID_MAX_LIMIT then Some (word_of_int n) else None)"

definition parse_set :: "string \<Rightarrow> u64 option" where
  "parse_set field =
     (if length field \<noteq> 16 \<or> \<not> list_all is_lower_hex field then None
      else map_option word_of_int (from_str_radix (2 ^ 64) 16 field))"

section \<open>The parser\<close>

record status_fields =
  seen_state :: "char option"
  seen_tracer :: "u32 option"
  seen_sets :: "u64 option list"

definition no_fields :: status_fields where
  "no_fields = \<lparr>seen_state = None, seen_tracer = None, seen_sets = replicate 5 None\<rparr>"

text \<open>The value of a line follows a tab.\<close>

definition line_value :: "(string \<Rightarrow> 'a option) \<Rightarrow> string \<Rightarrow> 'a option" where
  "line_value reader rest = (case strip_prefix [CHR 0x09] rest of None \<Rightarrow> None | Some value \<Rightarrow> reader value)"

definition parse_state :: "string \<Rightarrow> char option" where
  "parse_state value = (if value \<in> set TASK_STATES then Some (value ! 0) else None)"

definition parse_field :: "Field \<Rightarrow> string \<Rightarrow> status_fields \<Rightarrow> FactError + status_fields" where
  "parse_field field rest acc =
     (case field of
        FieldState \<Rightarrow>
          (case line_value parse_state rest of
             None \<Rightarrow> Inl MALFORMED
           | Some c \<Rightarrow> if seen_state acc = None then Inr (acc\<lparr>seen_state := Some c\<rparr>) else Inl MALFORMED)
      | FieldTracerPid \<Rightarrow>
          (case line_value parse_pid rest of
             None \<Rightarrow> Inl MALFORMED
           | Some n \<Rightarrow> if seen_tracer acc = None then Inr (acc\<lparr>seen_tracer := Some n\<rparr>) else Inl MALFORMED)
      | FieldSet i \<Rightarrow>
          (case line_value parse_set rest of
             None \<Rightarrow> Inl MALFORMED
           | Some w \<Rightarrow>
               if seen_sets acc ! i = None then Inr (acc\<lparr>seen_sets := (seen_sets acc)[i := Some w]\<rparr>)
               else Inl MALFORMED))"

definition parse_line :: "string \<Rightarrow> status_fields \<Rightarrow> FactError + status_fields" where
  "parse_line line acc =
     (let key = takeWhile (\<lambda>c. c \<noteq> CHR '':'') line in
      if CHR '':'' \<notin> set line then Inl MALFORMED
      else
        let rest = drop (length key + 1) line in
        if key = [] \<or> \<not> list_all is_key_char key then Inl MALFORMED
        else
          case map_of FIELDS key of
            None \<Rightarrow> Inr acc
          | Some field \<Rightarrow> parse_field field rest acc)"

fun parse_lines :: "string list \<Rightarrow> status_fields \<Rightarrow> FactError + status_fields" where
  "parse_lines [] acc = Inr acc"
| "parse_lines (l # ls) acc = (case parse_line l acc of Inl e \<Rightarrow> Inl e | Inr acc' \<Rightarrow> parse_lines ls acc')"

definition signal_bit :: "i32 \<Rightarrow> u64" where
  "signal_bit signal = push_bit (nat (signal - 1)) 1"

definition finish_parse :: "status_fields \<Rightarrow> FactError + ThreadStatus" where
  "finish_parse acc =
     (case (seen_state acc, seen_tracer acc, seen_sets acc) of
        (Some st, Some tr, [Some pend, Some shr, Some blk, Some ign, Some cgt]) \<Rightarrow>
          (let unchangeable = signal_bit SIGKILL OR signal_bit SIGSTOP in
           if (blk OR ign OR cgt) AND unchangeable \<noteq> 0 \<or> ign AND cgt \<noteq> 0 then Inl MALFORMED
           else Inr \<lparr>status_sets = \<lparr>set_pending = pend, set_shared_pending = shr, set_blocked = blk,
                       set_ignored = ign, set_caught = cgt\<rparr>,
                     status_state = st, status_tracer = tr\<rparr>)
      | _ \<Rightarrow> Inl MALFORMED)"

definition parse :: "string \<Rightarrow> FactError + ThreadStatus" where
  "parse text =
     (case strip_suffix [CHR 0x0A] text of
        None \<Rightarrow> Inl MALFORMED
      | Some body \<Rightarrow>
          (case parse_lines (split_on (CHR 0x0A) body) no_fields of
             Inl e \<Rightarrow> Inl e
           | Inr acc \<Rightarrow> finish_parse acc))"

section \<open>Reading a thread\<close>

text \<open>Whether a task number is a thread of this process, which the kernel says for a positive one.\<close>

definition tracer_is_current :: "(u32 \<Rightarrow> bool) \<Rightarrow> u32 \<Rightarrow> bool" where
  "tracer_is_current own_task tid \<longleftrightarrow> 0 < tid \<and> own_task tid"

text \<open>A read gives the error number, if the system has one, or the text of the file.\<close>

definition read_bounded :: "string \<Rightarrow> nat \<Rightarrow> string option" where
  "read_bounded file limit = (let text = take (limit + 1) file in if length text \<le> limit then Some text else None)"

definition read_errno :: "os_error option \<Rightarrow> os_error" where
  "read_errno raw =
     (case raw of Some e \<Rightarrow> if e = ENOENT \<or> e = ESRCH then ESRCH else e | None \<Rightarrow> EIO)"

fun read_directories ::
    "('d \<Rightarrow> os_error option + string) \<Rightarrow> (u32 \<Rightarrow> bool) \<Rightarrow> 'd list \<Rightarrow> FactError + SignalSets" where
  "read_directories open_status own_task [] = Inl NO_THREAD"
| "read_directories open_status own_task (d # ds) =
     (case open_status d of
        Inr file \<Rightarrow>
          (case read_bounded file STATUS_LIMIT of
             None \<Rightarrow> Inl NotProvided
           | Some text \<Rightarrow>
               (case parse text of
                  Inl e \<Rightarrow> Inl e
                | Inr st \<Rightarrow>
                    if \<not> exited st \<and> tracer_is_current own_task (if status_tracer st < 2 ^ 31 then status_tracer st else 0)
                    then Inr (status_sets st)
                    else read_directories open_status own_task ds))
      | Inl raw \<Rightarrow>
          if read_errno raw = ESRCH then read_directories open_status own_task ds
          else Inl (FactErrno (read_errno raw)))"

definition read_sets ::
    "('d \<Rightarrow> os_error option + string) \<Rightarrow> (u32 \<Rightarrow> bool) \<Rightarrow> (i32 \<Rightarrow> 'd list) \<Rightarrow> i32 \<Rightarrow> FactError + SignalSets" where
  "read_sets open_status own_task directories tid =
     (if tid \<le> 0 then Inl NO_THREAD else read_directories open_status own_task (directories tid))"

section \<open>SIGTRAP's disposition\<close>

definition is_space :: "char \<Rightarrow> bool" where
  "is_space c \<longleftrightarrow> c = CHR '' '' \<or> 9 \<le> (of_char c :: int) \<and> (of_char c :: int) \<le> 13"

definition trim :: "string \<Rightarrow> string" where
  "trim s = rev (dropWhile is_space (rev (dropWhile is_space s)))"

text \<open>Lines end at a newline; a final empty line and a carriage return before the newline do not count.\<close>

definition text_lines :: "string \<Rightarrow> string list" where
  "text_lines s =
     (let ls = split_on (CHR 0x0A) s in
      map (\<lambda>l. case strip_suffix [CHR 0x0D] l of Some m \<Rightarrow> m | None \<Rightarrow> l) (butlast ls)
      @ (if last ls = [] then [] else [last ls]))"

definition disposition_field :: "string \<Rightarrow> string \<Rightarrow> u64 option" where
  "disposition_field status name =
     (case List.find (\<lambda>l. strip_prefix name l \<noteq> None) (text_lines status) of
        None \<Rightarrow> None
      | Some l \<Rightarrow> map_option word_of_int (from_str_radix (2 ^ 64) 16 (trim (the (strip_prefix name l)))))"

definition parse_sigtrap_disposition :: "string \<Rightarrow> (bool \<times> bool) option" where
  "parse_sigtrap_disposition status =
     (case disposition_field status ''SigIgn:'' of
        None \<Rightarrow> None
      | Some ign \<Rightarrow>
          (case disposition_field status ''SigCgt:'' of
             None \<Rightarrow> None
           | Some cgt \<Rightarrow> Some (ign AND SIGTRAP_BIT \<noteq> 0, cgt AND SIGTRAP_BIT \<noteq> 0)))"

section \<open>Values as Linux prints them\<close>

definition digit_char :: "int \<Rightarrow> char" where
  "digit_char d = (if d < 10 then char_of (48 + d) else char_of (87 + d))"

definition render_set :: "u64 \<Rightarrow> string" where
  "render_set w = map digit_char (digits_of 16 16 (uint w))"

function render_decimal :: "int \<Rightarrow> string" where
  "render_decimal n = (if n < 10 then [digit_char n] else render_decimal (n div 10) @ [digit_char (n mod 10)])"
  by pat_completeness auto
termination by (relation "measure nat") auto

declare render_decimal.simps [simp del]

lemma of_char_char_of: "0 \<le> k \<Longrightarrow> k < 256 \<Longrightarrow> of_char (char_of (k :: int)) = k"
  by (simp add: of_char_of)

lemma digit_char_digit:
  assumes "0 \<le> d" "d < 16"
  shows "to_digit 16 (digit_char d) = Some d" and "is_lower_hex (digit_char d)"
  using assms by (auto simp: digit_char_def to_digit_def is_lower_hex_def is_ascii_digit_def Let_def of_char_char_of)

lemma digit_char_decimal:
  assumes "0 \<le> d" "d < 10"
  shows "to_digit 10 (digit_char d) = Some d" and "is_ascii_digit (digit_char d)"
    and "digit_char d = CHR ''0'' \<longleftrightarrow> d = 0"
proof -
  show "to_digit 10 (digit_char d) = Some d" and "is_ascii_digit (digit_char d)"
    using assms by (auto simp: digit_char_def to_digit_def is_ascii_digit_def Let_def of_char_char_of)
  have "(of_char (digit_char d) :: int) = 48 + d" using assms by (simp add: digit_char_def of_char_char_of)
  moreover have "(of_char CHR ''0'' :: int) = 48" by simp
  ultimately show "digit_char d = CHR ''0'' \<longleftrightarrow> d = 0" using assms
    by (metis add_cancel_right_right of_char_char_of char_of_char digit_char_def add.right_neutral)
qed

lemma lower_hex_char: "is_lower_hex c \<Longrightarrow> to_digit 16 c = Some d \<Longrightarrow> c = digit_char d"
proof -
  assume c: "is_lower_hex c" "to_digit 16 c = Some d"
  have "char_of (of_char c :: int) = c" by simp
  with c show "c = digit_char d"
    by (auto simp: is_lower_hex_def is_ascii_digit_def to_digit_def digit_char_def Let_def split: if_splits)
qed

lemma ascii_digit_char: "is_ascii_digit c \<Longrightarrow> to_digit 10 c = Some d \<Longrightarrow> c = digit_char d \<and> 0 \<le> d \<and> d < 10"
proof -
  assume c: "is_ascii_digit c" "to_digit 10 c = Some d"
  have "char_of (of_char c :: int) = c" by simp
  with c show ?thesis
    by (auto simp: is_ascii_digit_def to_digit_def digit_char_def Let_def split: if_splits)
qed

lemma no_sign: "is_lower_hex c \<Longrightarrow> c \<noteq> CHR ''+'' \<and> c \<noteq> CHR ''-''"
  by (auto simp: is_lower_hex_def is_ascii_digit_def)

lemma ascii_is_hex: "is_ascii_digit c \<Longrightarrow> is_lower_hex c"
  by (simp add: is_lower_hex_def)

text \<open>On digits without a sign, \<open>from_str_radix\<close> reads the digits.\<close>

lemma from_str_radix_plain:
  "s \<noteq> [] \<Longrightarrow> list_all is_lower_hex s \<Longrightarrow> from_str_radix limit radix s = from_digits limit radix 0 s"
  by (cases s) (auto simp: from_str_radix_def dest: no_sign)

lemma map_eq_digits:
  assumes "map f s = map Some ds" and "\<And>c d. c \<in> set s \<Longrightarrow> f c = Some d \<Longrightarrow> c = g d"
  shows "s = map g ds"
  using assms
proof (induction s arbitrary: ds)
  case (Cons c s)
  obtain d es where ds: "ds = d # es" "f c = Some d" "map f s = map Some es"
    using Cons.prems(1) by (cases ds) simp_all
  have "c = g d" by (rule Cons.prems(2)) (simp_all add: ds)
  moreover have "s = map g es" by (rule Cons.IH [OF ds(3)]) (rule Cons.prems(2), simp_all)
  ultimately show ?case by (simp add: ds)
qed simp

lemma digits_in_range: "map (to_digit r) s = map Some ds \<Longrightarrow> \<forall>d \<in> set ds. 0 \<le> d \<and> d < r"
proof
  fix d assume "map (to_digit r) s = map Some ds" and "d \<in> set ds"
  then have "Some d \<in> set (map (to_digit r) s)" by simp
  then show "0 \<le> d \<and> d < r" using to_digit_range by auto
qed

lemma length_digits_of [simp]: "length (digits_of r n v) = n"
  by (simp add: digits_of_def)

lemma digits_of_range: "0 < r \<Longrightarrow> \<forall>d \<in> set (digits_of r n v). 0 \<le> d \<and> d < r"
  by (auto simp: digits_of_def)

lemma parse_set_iff: "parse_set s = Some w \<longleftrightarrow> s = render_set w"
proof
  assume L: "parse_set s = Some w"
  then have s: "length s = 16" "list_all is_lower_hex s" by (auto simp: parse_set_def split: if_splits)
  then have ne: "s \<noteq> []" by auto
  with L s obtain v where v: "from_digits (2 ^ 64) 16 0 s = Some v" "w = word_of_int v"
    by (cases "from_digits (2 ^ 64) 16 0 s") (simp_all add: parse_set_def from_str_radix_plain)
  then obtain ds where ds: "map (to_digit 16) s = map Some ds" "v = horner 16 0 ds" "v < 2 ^ 64"
    using from_digits_iff [of 16 0 "2 ^ 64" s v] by auto
  have range: "\<forall>d \<in> set ds. 0 \<le> d \<and> d < 16" by (rule digits_in_range [OF ds(1)])
  have len: "length ds = 16" using ds(1) s(1) by (metis length_map)
  have "s = map digit_char ds"
    by (rule map_eq_digits [OF ds(1)]) (use s(2) lower_hex_char in \<open>auto simp: list_all_iff\<close>)
  moreover have "uint w = v"
    using v(2) ds(3) horner_bound [OF _ range] ds(2) by (simp add: uint_word_of_int_eq take_bit_int_eq_self)
  ultimately show "s = render_set w"
    using digits_of_horner [of 16 ds] range ds(2) len by (simp add: render_set_def)
next
  assume s: "s = render_set w"
  let ?ds = "digits_of 16 16 (uint w)"
  have range: "\<forall>d \<in> set ?ds. 0 \<le> d \<and> d < 16" by (rule digits_of_range) simp
  have len: "length s = 16" using s by (simp add: render_set_def)
  then have "s \<noteq> []" by auto
  have "list_all is_lower_hex s"
    using range digit_char_digit s by (simp add: render_set_def list_all_iff)
  moreover have "from_digits (2 ^ 64) 16 0 s = Some (uint w)"
  proof -
    have "map (to_digit 16) s = map Some ?ds" using range digit_char_digit s by (simp add: render_set_def)
    moreover have "uint w = horner 16 0 ?ds"
      using uint_lt2p [of w] by (simp add: horner_digits_of)
    moreover have "uint w < 2 ^ 64" using uint_lt2p [of w] by simp
    ultimately show ?thesis by (intro iffD2 [OF from_digits_iff] exI [of _ ?ds] conjI) simp_all
  qed
  ultimately show "parse_set s = Some w" using len \<open>s \<noteq> []\<close> by (simp add: parse_set_def from_str_radix_plain)
qed

text \<open>Decimal digits without a leading zero are the printed form of their value.\<close>

definition plain_decimal :: "string \<Rightarrow> bool" where
  "plain_decimal s \<longleftrightarrow> s \<noteq> [] \<and> list_all is_ascii_digit s \<and> (length s > 1 \<longrightarrow> s ! 0 \<noteq> CHR ''0'')"

lemma render_decimal_plain:
  "0 \<le> n \<Longrightarrow> plain_decimal (render_decimal n) \<and> (n > 0 \<longrightarrow> render_decimal n ! 0 \<noteq> CHR ''0'')
     \<and> (\<exists>ds. map (to_digit 10) (render_decimal n) = map Some ds \<and> horner 10 0 ds = n)"
proof (induction n rule: render_decimal.induct)
  case (1 n)
  show ?case
  proof (cases "n < 10")
    case True
    then show ?thesis using 1(2) digit_char_decimal [of n]
      by (subst (1 2 3) render_decimal.simps) (auto simp: plain_decimal_def intro!: exI [of _ "[n]"])
  next
    case False
    then have ih: "plain_decimal (render_decimal (n div 10))" "render_decimal (n div 10) ! 0 \<noteq> CHR ''0''"
      and "\<exists>ds. map (to_digit 10) (render_decimal (n div 10)) = map Some ds \<and> horner 10 0 ds = n div 10"
      using 1(1) by auto
    then obtain ds where ds: "map (to_digit 10) (render_decimal (n div 10)) = map Some ds" "horner 10 0 ds = n div 10"
      by blast
    have r: "render_decimal n = render_decimal (n div 10) @ [digit_char (n mod 10)]"
      using False by (subst render_decimal.simps) simp
    have d: "to_digit 10 (digit_char (n mod 10)) = Some (n mod 10)" "is_ascii_digit (digit_char (n mod 10))"
      using digit_char_decimal [of "n mod 10"] by auto
    have "map (to_digit 10) (render_decimal n) = map Some (ds @ [n mod 10])"
      and "horner 10 0 (ds @ [n mod 10]) = n" using r ds d by simp_all
    moreover have "plain_decimal (render_decimal n)" "render_decimal n ! 0 \<noteq> CHR ''0''"
      using r ih d by (auto simp: plain_decimal_def nth_append)
    ultimately show ?thesis by blast
  qed
qed

lemma plain_decimal_render:
  "plain_decimal s \<Longrightarrow> map (to_digit 10) s = map Some ds \<Longrightarrow>
     render_decimal (horner 10 0 ds) = s \<and> (s ! 0 \<noteq> CHR ''0'' \<longrightarrow> 0 < horner 10 0 ds)"
proof (induction s arbitrary: ds rule: rev_induct)
  case (snoc c s)
  from snoc.prems(2) obtain es d where ds: "ds = es @ [d]" "map (to_digit 10) s = map Some es" "to_digit 10 c = Some d"
    by (cases ds rule: rev_cases) auto
  have c: "c = digit_char d" "0 \<le> d" "d < 10"
    using ascii_digit_char [OF _ ds(3)] snoc.prems(1) by (auto simp: plain_decimal_def)
  show ?case
  proof (cases "s = []")
    case True
    then show ?thesis using ds c digit_char_decimal(3) [of d] by (subst render_decimal.simps) auto
  next
    case False
    then have s: "plain_decimal s" "s ! 0 \<noteq> CHR ''0''"
      using snoc.prems(1) by (auto simp: plain_decimal_def nth_append)
    then have ih: "render_decimal (horner 10 0 es) = s" "0 < horner 10 0 es"
      using snoc.IH [OF s(1) ds(2)] by auto
    have "\<not> horner 10 0 es * 10 + d < 10" using ih(2) c by linarith
    then show ?thesis using ih ds(1) c by (subst render_decimal.simps) auto
  qed
qed (simp add: plain_decimal_def)

lemma parse_pid_iff:
  "parse_pid s = Some n \<longleftrightarrow> s = render_decimal (uint n) \<and> uint n < PID_MAX_LIMIT"
proof -
  have plain: "parse_pid s = Some n \<longleftrightarrow> plain_decimal s
      \<and> (\<exists>v. from_digits (2 ^ 32) 10 0 s = Some v \<and> v < PID_MAX_LIMIT \<and> n = word_of_int v)"
    using from_str_radix_plain [of s "2 ^ 32" 10] ascii_is_hex
    by (auto simp: parse_pid_def plain_decimal_def list_all_iff split: option.splits if_splits)
  show ?thesis
  proof
    assume "parse_pid s = Some n"
    with plain obtain v where p: "plain_decimal s" and v: "from_digits (2 ^ 32) 10 0 s = Some v"
        "v < PID_MAX_LIMIT" "n = word_of_int v" by blast
    then obtain ds where ds: "map (to_digit 10) s = map Some ds" "v = horner 10 0 ds" "v < 2 ^ 32"
      using from_digits_iff [of 10 0 "2 ^ 32" s v] by auto
    have "uint n = v"
      using v(3) ds horner_bound [OF _ digits_in_range [OF ds(1)]]
      by (simp add: uint_word_of_int_eq take_bit_int_eq_self)
    then show "s = render_decimal (uint n) \<and> uint n < PID_MAX_LIMIT"
      using plain_decimal_render [OF p ds(1)] ds(2) v(2) by simp
  next
    assume "s = render_decimal (uint n) \<and> uint n < PID_MAX_LIMIT"
    moreover from this have "plain_decimal s" "from_digits (2 ^ 32) 10 0 s = Some (uint n)"
      using render_decimal_plain [of "uint n"] uint_lt2p [of n] by (auto simp: from_digits_iff)
    ultimately show "parse_pid s = Some n" using plain by (metis word_of_int_uint)
  qed
qed

end
