(* ===== verification/Signal_Status.thy ===== *)
theory Signal_Status
  imports Signal_Sets
begin

text \<open>
  What the readers of \<open>Signal_Sets\<close> accept: the text of a status as the kernel prints it, the directory
  a read answers for, and the agreement of the two readers of SIGTRAP's disposition.
\<close>

section \<open>The text as Linux prints it\<close>

type_synonym status_line = "string \<times> string"

abbreviation newline :: char where "newline \<equiv> CHR 0x0A"
abbreviation tab :: char where "tab \<equiv> CHR 0x09"

definition line_text :: "status_line \<Rightarrow> string" where
  "line_text kv = fst kv @ CHR '':'' # snd kv"

definition status_text :: "status_line list \<Rightarrow> string" where
  "status_text kvs = join_lines newline (map line_text kvs)"

definition wf_line :: "status_line \<Rightarrow> bool" where
  "wf_line kv \<longleftrightarrow> fst kv \<noteq> [] \<and> list_all is_key_char (fst kv) \<and> newline \<notin> set (snd kv)"

text \<open>The values printed under a key.\<close>

definition line_values :: "string \<Rightarrow> status_line list \<Rightarrow> string list" where
  "line_values key kvs = map snd (filter (\<lambda>kv. fst kv = key) kvs)"

lemma line_values_simps [simp]:
  "line_values key [] = []"
  "line_values key (kv # kvs) = (if fst kv = key then snd kv # line_values key kvs else line_values key kvs)"
  by (simp_all add: line_values_def)

definition set_keys :: "string list" where
  "set_keys = [''SigPnd'', ''ShdPnd'', ''SigBlk'', ''SigIgn'', ''SigCgt'']"

text \<open>How one variable of the parser changes over the values under its key: each may be read once.\<close>

definition settle :: "(string \<Rightarrow> 'a option) \<Rightarrow> 'a option \<Rightarrow> string list \<Rightarrow> 'a option \<Rightarrow> bool" where
  "settle reader old vs new =
     (case vs of [] \<Rightarrow> new = old | [v] \<Rightarrow> old = None \<and> reader v \<noteq> None \<and> new = reader v | _ \<Rightarrow> False)"

lemma settle_simps [simp]:
  "settle reader old [] new \<longleftrightarrow> new = old"
  "settle reader old (v # vs) new \<longleftrightarrow> old = None \<and> (\<exists>x. reader v = Some x \<and> settle reader (Some x) vs new)"
  by (auto simp: settle_def split: list.splits)

lemma settle_once: "settle reader None vs (Some x) \<longleftrightarrow> (\<exists>v. vs = [v] \<and> reader v = Some x)"
  by (auto simp: settle_def split: list.splits)

lemma line_value_iff: "line_value reader v = Some x \<longleftrightarrow> (\<exists>u. v = tab # u \<and> reader u = Some x)"
proof -
  have "line_value reader v = Some x \<longleftrightarrow> (\<exists>u. strip_prefix [tab] v = Some u \<and> reader u = Some x)"
    by (cases "strip_prefix [tab] v") (simp_all add: line_value_def)
  then show ?thesis by (simp add: strip_prefix_Some)
qed

lemma key_char_no_colon: "list_all is_key_char k \<Longrightarrow> CHR '':'' \<notin> set k \<and> newline \<notin> set k"
  by (auto simp: list_all_iff is_key_char_def is_ascii_digit_def)

lemma takeWhile_key: "CHR '':'' \<notin> set k \<Longrightarrow> takeWhile (\<lambda>c. c \<noteq> CHR '':'') (k @ CHR '':'' # v) = k"
  by (induction k) auto

lemma drop_key: "drop (Suc (length k)) (k @ c # v) = v"
  by (simp add: Suc_diff_le)

lemma parse_line_text:
  "fst kv \<noteq> [] \<Longrightarrow> list_all is_key_char (fst kv) \<Longrightarrow> parse_line (line_text kv) acc =
     (case map_of FIELDS (fst kv) of None \<Rightarrow> Inr acc | Some field \<Rightarrow> parse_field field (snd kv) acc)"
  using takeWhile_key [of "fst kv" "snd kv"] key_char_no_colon [of "fst kv"]
  by (simp add: parse_line_def line_text_def Let_def drop_key del: drop_append split: option.split)

lemma parse_line_shape:
  assumes "parse_line l acc = Inr acc'" and "newline \<notin> set l"
  obtains kv where "l = line_text kv" and "wf_line kv"
proof -
  let ?k = "takeWhile (\<lambda>c. c \<noteq> CHR '':'') l" and ?r = "dropWhile (\<lambda>c. c \<noteq> CHR '':'') l"
  from assms(1) have colon: "CHR '':'' \<in> set l" and k: "?k \<noteq> []" "list_all is_key_char ?k"
    by (auto simp: parse_line_def Let_def split: if_splits)
  from colon have "?r \<noteq> []" "hd ?r = CHR '':''" using hd_dropWhile [of "\<lambda>c. c \<noteq> CHR '':''" l] by auto
  then obtain v where v: "?r = CHR '':'' # v" by (cases ?r) auto
  then have "l = ?k @ CHR '':'' # v" by (metis takeWhile_dropWhile_id)
  then have "l = line_text (?k, v)" by (simp add: line_text_def)
  moreover have "newline \<notin> set v" using assms(2) v set_dropWhileD [of newline _ l] by (metis list.set_intros(2))
  ultimately show thesis using that [of "(?k, v)"] k by (simp add: wf_line_def)
qed

lemma parse_lines_shape:
  assumes "parse_lines ls acc = Inr acc'" and "\<forall>l \<in> set ls. newline \<notin> set l"
  shows "\<exists>kvs. ls = map line_text kvs \<and> list_all wf_line kvs"
  using assms
proof (induction ls arbitrary: acc)
  case (Cons l ls)
  then obtain mid where mid: "parse_line l acc = Inr mid" "parse_lines ls mid = Inr acc'"
    by (auto split: sum.splits)
  obtain kv where kv: "l = line_text kv" "wf_line kv" using parse_line_shape [OF mid(1)] Cons.prems(2) by auto
  obtain kvs where "ls = map line_text kvs" "list_all wf_line kvs" using Cons.IH [OF mid(2)] Cons.prems(2) by auto
  with kv show ?case by (intro exI [of _ "kv # kvs"]) simp
qed simp

text \<open>The keys of the table, by place.\<close>

lemma fields_lookup:
  "map_of FIELDS k = (if k = ''State'' then Some FieldState else if k = ''TracerPid'' then Some FieldTracerPid
     else map_option FieldSet (List.find (\<lambda>i. k = set_keys ! i) [0..<5]))"
  by (simp add: FIELDS_def set_keys_def upt_rec)

lemma set_key_names:
  assumes "i < 5"
  shows "set_keys ! i \<noteq> ''State''" "set_keys ! i \<noteq> ''TracerPid''"
    and "j < 5 \<Longrightarrow> set_keys ! i = set_keys ! j \<longleftrightarrow> i = j"
proof -
  have n: "n < 5 \<Longrightarrow> n = 0 \<or> n = 1 \<or> n = 2 \<or> n = 3 \<or> n = 4" for n :: nat by auto
  show "set_keys ! i \<noteq> ''State''" "set_keys ! i \<noteq> ''TracerPid''"
    using n [OF assms] by (auto simp: set_keys_def)
  show "set_keys ! i = set_keys ! j \<longleftrightarrow> i = j" if "j < 5"
    using n [OF assms] n [OF that] by (elim disjE) (simp_all add: set_keys_def)
qed

lemma fields_cases:
  obtains "k = ''State''" "map_of FIELDS k = Some FieldState"
  | "k = ''TracerPid''" "map_of FIELDS k = Some FieldTracerPid"
  | i where "i < 5" "k = set_keys ! i" "map_of FIELDS k = Some (FieldSet i)"
  | "k \<noteq> ''State''" "k \<noteq> ''TracerPid''" "\<forall>i<5. k \<noteq> set_keys ! i" "map_of FIELDS k = None"
proof (cases "k = ''State'' \<or> k = ''TracerPid''")
  case True
  then show thesis using that(1,2) by (auto simp: fields_lookup)
next
  case False
  show thesis
  proof (cases "List.find (\<lambda>i. k = set_keys ! i) [0..<5]")
    case None
    then show thesis using False that(4) by (auto simp: fields_lookup find_None_iff)
  next
    case (Some i)
    then have "i < 5" "k = set_keys ! i" by (auto simp: find_Some_iff)
    then show thesis using False Some that(3) by (simp add: fields_lookup)
  qed
qed

definition lines_read :: "status_line list \<Rightarrow> status_fields \<Rightarrow> status_fields \<Rightarrow> bool" where
  "lines_read kvs acc acc' \<longleftrightarrow>
     settle (line_value parse_state) (seen_state acc) (line_values ''State'' kvs) (seen_state acc')
     \<and> settle (line_value parse_pid) (seen_tracer acc) (line_values ''TracerPid'' kvs) (seen_tracer acc')
     \<and> length (seen_sets acc') = 5
     \<and> (\<forall>i<5. settle (line_value parse_set) (seen_sets acc ! i) (line_values (set_keys ! i) kvs) (seen_sets acc' ! i))"

lemma parse_lines_read:
  "list_all wf_line kvs \<Longrightarrow> length (seen_sets acc) = 5 \<Longrightarrow>
     parse_lines (map line_text kvs) acc = Inr acc' \<longleftrightarrow> lines_read kvs acc acc'"
proof (induction kvs arbitrary: acc)
  case Nil
  then show ?case
    by (cases acc; cases acc') (auto simp: lines_read_def list_eq_iff_nth_eq)
next
  case (Cons kv kvs)
  then have "wf_line kv" and rest: "list_all wf_line kvs" by simp_all
  then have wf: "fst kv \<noteq> []" "list_all is_key_char (fst kv)" by (simp_all add: wf_line_def)
  note ih = Cons.IH [OF rest] and len = Cons.prems(2)
  note line = parse_line_text [OF wf]
  show ?case
  proof (cases "fst kv" rule: fields_cases)
    case 1
    have same: "line_values (set_keys ! j) (kv # kvs) = line_values (set_keys ! j) kvs" if "j < 5" for j
      using 1(1) set_key_names(1) [OF that] by simp
    have "lines_read (kv # kvs) acc acc' \<longleftrightarrow>
        seen_state acc = None \<and> (\<exists>x. line_value parse_state (snd kv) = Some x \<and> lines_read kvs (acc\<lparr>seen_state := Some x\<rparr>) acc')"
      unfolding lines_read_def using 1(1) same by (simp del: line_values_simps(2)) (simp, blast)
    then show ?thesis using 1(2) ih [of "acc\<lparr>seen_state := Some _\<rparr>"] len
      by (auto simp: line parse_field_def split: option.split)
  next
    case 2
    have same: "line_values (set_keys ! j) (kv # kvs) = line_values (set_keys ! j) kvs" if "j < 5" for j
      using 2(1) set_key_names(2) [OF that] by simp
    have "lines_read (kv # kvs) acc acc' \<longleftrightarrow>
        seen_tracer acc = None \<and> (\<exists>x. line_value parse_pid (snd kv) = Some x \<and> lines_read kvs (acc\<lparr>seen_tracer := Some x\<rparr>) acc')"
      unfolding lines_read_def using 2(1) same by (simp del: line_values_simps(2)) (simp, blast)
    then show ?thesis using 2(2) ih [of "acc\<lparr>seen_tracer := Some _\<rparr>"] len
      by (auto simp: line parse_field_def split: option.split)
  next
    case (3 i)
    let ?mid = "\<lambda>w. acc\<lparr>seen_sets := (seen_sets acc)[i := Some w]\<rparr>"
    have key: "fst kv \<noteq> ''State''" "fst kv \<noteq> ''TracerPid''" "\<And>j. j < 5 \<Longrightarrow> fst kv = set_keys ! j \<longleftrightarrow> i = j"
      using 3 set_key_names by simp_all
    have "lines_read (kv # kvs) acc acc' \<longleftrightarrow>
        seen_sets acc ! i = None \<and> (\<exists>w. line_value parse_set (snd kv) = Some w \<and> lines_read kvs (?mid w) acc')"
    proof (cases "line_value parse_set (snd kv)")
      case None
      then show ?thesis using 3(1) key by (auto simp: lines_read_def)
    next
      case (Some w)
      have "settle (line_value parse_set) (seen_sets acc ! j) (line_values (set_keys ! j) (kv # kvs)) (seen_sets acc' ! j)
          \<longleftrightarrow> (j = i \<longrightarrow> seen_sets acc ! i = None) \<and> settle (line_value parse_set) (seen_sets (?mid w) ! j)
            (line_values (set_keys ! j) kvs) (seen_sets acc' ! j)" if "j < 5" for j
        using that key(3) [OF that] Some 3(1) len by (cases "j = i") auto
      then show ?thesis using Some key(1,2) 3(1) by (auto simp: lines_read_def)
    qed
    then show ?thesis using 3(3) ih [of "?mid _"] len by (auto simp: line parse_field_def split: option.split)
  next
    case 4
    then show ?thesis using ih [OF len] by (auto simp: line lines_read_def)
  qed
qed

lemma parse_iff:
  "parse text = Inr st \<longleftrightarrow>
     (\<exists>kvs acc. text = status_text kvs \<and> list_all wf_line kvs \<and> kvs \<noteq> [] \<and> lines_read kvs no_fields acc
        \<and> finish_parse acc = Inr st)"
proof -
  have five: "length (seen_sets no_fields) = 5" by (simp add: no_fields_def)
  have step: "parse text = Inr st \<longleftrightarrow> (\<exists>body acc. text = body @ [newline]
      \<and> parse_lines (split_on newline body) no_fields = Inr acc \<and> finish_parse acc = Inr st)"
    by (auto simp: parse_def strip_suffix_Some split: option.splits sum.splits)
       (metis option.distinct(1) strip_suffix_Some)
  show ?thesis
  proof
    assume "parse text = Inr st"
    with step obtain body acc where body: "text = body @ [newline]"
      "parse_lines (split_on newline body) no_fields = Inr acc" "finish_parse acc = Inr st" by blast
    let ?ls = "split_on newline body"
    have "\<exists>kvs. ?ls = map line_text kvs \<and> list_all wf_line kvs"
      using parse_lines_shape [OF body(2)] split_on_free by blast
    then obtain kvs where kvs: "?ls = map line_text kvs" "list_all wf_line kvs" by blast
    moreover have "text = status_text kvs"
      using split_on_join [of newline body] body(1) kvs(1) by (simp add: status_text_def join_lines_def)
    moreover have "kvs \<noteq> []" using kvs(1) split_on_ne by (metis list.map_disc_iff)
    moreover have "lines_read kvs no_fields acc"
      using body(2) parse_lines_read [OF kvs(2) five] kvs(1) by simp
    ultimately show "\<exists>kvs acc. text = status_text kvs \<and> list_all wf_line kvs \<and> kvs \<noteq> []
        \<and> lines_read kvs no_fields acc \<and> finish_parse acc = Inr st" using body(3) by blast
  next
    assume "\<exists>kvs acc. text = status_text kvs \<and> list_all wf_line kvs \<and> kvs \<noteq> []
        \<and> lines_read kvs no_fields acc \<and> finish_parse acc = Inr st"
    then obtain kvs acc where k: "text = status_text kvs" "list_all wf_line kvs" "kvs \<noteq> []"
      "lines_read kvs no_fields acc" "finish_parse acc = Inr st" by blast
    obtain body where body: "text = body @ [newline]"
      using k(1,3) by (cases kvs rule: rev_cases) (auto simp: status_text_def join_lines_def)
    have "newline \<notin> set (line_text kv)" if "kv \<in> set kvs" for kv
      using that k(2) key_char_no_colon [of "fst kv"] by (auto simp: list_all_iff wf_line_def line_text_def)
    then have "split_on newline body = map line_text kvs"
      using k(1,3) body by (auto simp: split_on_iff status_text_def)
    then show "parse text = Inr st"
      using step body k(5) parse_lines_read [OF k(2) five] k(4) by auto
  qed
qed

text \<open>What Linux keeps of the sets: neither SIGKILL nor SIGSTOP is blocked, ignored or caught, and no
  signal is both ignored and caught.\<close>

definition kernel_sets :: "SignalSets \<Rightarrow> bool" where
  "kernel_sets ss \<longleftrightarrow>
     (let changed = set_blocked ss OR set_ignored ss OR set_caught ss in
      \<not> has_signal changed SIGKILL \<and> \<not> has_signal changed SIGSTOP \<and> set_ignored ss AND set_caught ss = 0)"

definition sets_list :: "SignalSets \<Rightarrow> u64 list" where
  "sets_list ss = [set_pending ss, set_shared_pending ss, set_blocked ss, set_ignored ss, set_caught ss]"

lemma signal_bits: "signal_bit SIGKILL = signal_set_bit SIGKILL" "signal_bit SIGSTOP = signal_set_bit SIGSTOP"
  by (simp_all add: signal_bit_def signal_set_bit_def SIGKILL_def SIGSTOP_def)

lemma unchangeable_iff:
  "w AND (signal_bit SIGKILL OR signal_bit SIGSTOP) = 0 \<longleftrightarrow> \<not> has_signal w SIGKILL \<and> \<not> has_signal w SIGSTOP"
proof -
  have "w AND (signal_bit SIGKILL OR signal_bit SIGSTOP) = 0 \<longleftrightarrow>
      w AND signal_set_bit SIGKILL = 0 \<and> w AND signal_set_bit SIGSTOP = 0"
    by (simp add: signal_bits bit.conj_disj_distrib or_eq_0_iff)
  then show ?thesis using has_signal_and(1) [of w] by metis
qed

lemma finish_parse_iff:
  "finish_parse acc = Inr st \<longleftrightarrow> seen_state acc = Some (status_state st) \<and> seen_tracer acc = Some (status_tracer st)
     \<and> seen_sets acc = map Some (sets_list (status_sets st)) \<and> kernel_sets (status_sets st)"
proof
  assume "finish_parse acc = Inr st"
  then obtain pend shr blk ign cgt tr where sets: "seen_sets acc = [Some pend, Some shr, Some blk, Some ign, Some cgt]"
      and tr: "seen_tracer acc = Some tr" and st: "seen_state acc \<noteq> None"
    by (auto simp: finish_parse_def split: option.splits list.splits)
  with \<open>finish_parse acc = Inr st\<close>
  show "seen_state acc = Some (status_state st) \<and> seen_tracer acc = Some (status_tracer st)
     \<and> seen_sets acc = map Some (sets_list (status_sets st)) \<and> kernel_sets (status_sets st)"
    by (auto simp: finish_parse_def sets_list_def kernel_sets_def Let_def unchangeable_iff split: if_splits)
next
  assume R: "seen_state acc = Some (status_state st) \<and> seen_tracer acc = Some (status_tracer st)
     \<and> seen_sets acc = map Some (sets_list (status_sets st)) \<and> kernel_sets (status_sets st)"
  then have "\<not> ((set_blocked (status_sets st) OR set_ignored (status_sets st) OR set_caught (status_sets st))
      AND (signal_bit SIGKILL OR signal_bit SIGSTOP) \<noteq> 0 \<or> set_ignored (status_sets st) AND set_caught (status_sets st) \<noteq> 0)"
    by (simp add: unchangeable_iff kernel_sets_def Let_def)
  with R show "finish_parse acc = Inr st"
    by (cases st; cases "status_sets st") (simp add: finish_parse_def sets_list_def Let_def)
qed

lemma five_settled:
  "(\<forall>i<5. settle (line_value parse_set) None (line_values (set_keys ! i) kvs) (map Some ws ! i)) \<and> length ws = 5
   \<longleftrightarrow> map (\<lambda>k. line_values k kvs) set_keys = map (\<lambda>w. [tab # render_set w]) ws \<and> length ws = 5"
proof -
  have keys: "length set_keys = 5" by (simp add: set_keys_def)
  have one: "settle (line_value parse_set) None vs (Some w) \<longleftrightarrow> vs = [tab # render_set w]" for vs w
    by (auto simp: settle_once line_value_iff parse_set_iff)
  show ?thesis using keys by (auto simp: list_eq_iff_nth_eq one)
qed

text \<open>
  C29: The status parser accepts exactly Linux's text. A text gives a status if and only if it is a
  sequence of lines, each a key of letters, digits and underscores, a colon and a value; the state, the
  tracer and the five signal lines appear exactly once each, in any order and among any other lines,
  written exactly as the kernel prints their values; and the sets are ones the kernel can have. The
  status is the one those lines print.
\<close>

theorem status_parse_exact:
  "parse text = Inr st \<longleftrightarrow>
     (\<exists>kvs letter. text = status_text kvs \<and> list_all wf_line kvs
        \<and> letter \<in> set TASK_STATES \<and> letter ! 0 = status_state st
        \<and> line_values ''State'' kvs = [tab # letter]
        \<and> line_values ''TracerPid'' kvs = [tab # render_decimal (uint (status_tracer st))]
        \<and> uint (status_tracer st) < PID_MAX_LIMIT
        \<and> map (\<lambda>k. line_values k kvs) set_keys = map (\<lambda>w. [tab # render_set w]) (sets_list (status_sets st))
        \<and> kernel_sets (status_sets st))"
proof -
  let ?ws = "sets_list (status_sets st)"
  have len: "length ?ws = 5" by (simp add: sets_list_def)
  have letter: "settle (line_value parse_state) None vs (Some c) \<longleftrightarrow>
      (\<exists>letter. letter \<in> set TASK_STATES \<and> letter ! 0 = c \<and> vs = [tab # letter])" for vs c
    by (auto simp: settle_once line_value_iff parse_state_def split: if_splits)
  have tracer: "settle (line_value parse_pid) None vs (Some n) \<longleftrightarrow>
      vs = [tab # render_decimal (uint n)] \<and> uint n < PID_MAX_LIMIT" for vs n
    by (auto simp: settle_once line_value_iff parse_pid_iff)
  have fields: "(\<exists>acc. lines_read kvs no_fields acc \<and> finish_parse acc = Inr st) \<longleftrightarrow>
      settle (line_value parse_state) None (line_values ''State'' kvs) (Some (status_state st))
      \<and> settle (line_value parse_pid) None (line_values ''TracerPid'' kvs) (Some (status_tracer st))
      \<and> (\<forall>i<5. settle (line_value parse_set) None (line_values (set_keys ! i) kvs) (map Some ?ws ! i))
      \<and> kernel_sets (status_sets st)" (is "_ \<longleftrightarrow> ?F") for kvs
  proof
    assume "\<exists>acc. lines_read kvs no_fields acc \<and> finish_parse acc = Inr st"
    then show ?F by (auto simp: lines_read_def no_fields_def finish_parse_iff)
  next
    assume ?F
    then have "lines_read kvs no_fields
        \<lparr>seen_state = Some (status_state st), seen_tracer = Some (status_tracer st), seen_sets = map Some ?ws\<rparr>"
      using len by (simp add: lines_read_def no_fields_def)
    then show "\<exists>acc. lines_read kvs no_fields acc \<and> finish_parse acc = Inr st"
      using \<open>?F\<close> by (intro exI conjI) (assumption, simp add: finish_parse_iff)
  qed
  have "parse text = Inr st \<longleftrightarrow> (\<exists>kvs. text = status_text kvs \<and> list_all wf_line kvs \<and> kvs \<noteq> []
      \<and> (\<exists>acc. lines_read kvs no_fields acc \<and> finish_parse acc = Inr st))"
    unfolding parse_iff by blast
  moreover have "kvs \<noteq> []" if "line_values ''State'' kvs = [x]" for kvs x using that by auto
  moreover have "(\<forall>i<5. settle (line_value parse_set) None (line_values (set_keys ! i) kvs) (map Some ?ws ! i))
      \<longleftrightarrow> map (\<lambda>k. line_values k kvs) set_keys = map (\<lambda>w. [tab # render_set w]) ?ws" for kvs
    using five_settled [of kvs ?ws] len by simp
  ultimately show ?thesis unfolding fields letter tracer by (simp only:) blast
qed

section \<open>The directory a read answers for\<close>

definition skipped :: "('d \<Rightarrow> os_error option + string) \<Rightarrow> (u32 \<Rightarrow> bool) \<Rightarrow> 'd \<Rightarrow> bool" where
  "skipped open_status own_task d =
     (case open_status d of
        Inl raw \<Rightarrow> raw = Some ENOENT \<or> raw = Some ESRCH
      | Inr file \<Rightarrow>
          (case parse file of
             Inl _ \<Rightarrow> False
           | Inr st \<Rightarrow> length file \<le> STATUS_LIMIT
               \<and> (exited st \<or> status_tracer st = 0 \<or> status_tracer st \<ge> 2 ^ 31 \<or> \<not> own_task (status_tracer st))))"

definition answers :: "('d \<Rightarrow> os_error option + string) \<Rightarrow> (u32 \<Rightarrow> bool) \<Rightarrow> 'd \<Rightarrow> SignalSets \<Rightarrow> bool" where
  "answers open_status own_task d sets \<longleftrightarrow>
     (\<exists>file st. open_status d = Inr file \<and> length file \<le> STATUS_LIMIT \<and> parse file = Inr st \<and> \<not> exited st
        \<and> 0 < status_tracer st \<and> status_tracer st < 2 ^ 31 \<and> own_task (status_tracer st) \<and> sets = status_sets st)"

lemma read_directories_step:
  "read_directories open_status own_task (d # ds) = Inr sets \<longleftrightarrow>
     answers open_status own_task d sets
     \<or> skipped open_status own_task d \<and> read_directories open_status own_task ds = Inr sets"
proof (cases "open_status d")
  case (Inl raw)
  then show ?thesis
    by (auto simp: skipped_def answers_def read_errno_def ENOENT_def ESRCH_def EIO_def split: option.split)
next
  case (Inr contents)
  show ?thesis
  proof (cases "length contents \<le> STATUS_LIMIT")
    case False
    then have "read_bounded contents STATUS_LIMIT = None" by (simp add: read_bounded_def Let_def)
    then show ?thesis using Inr False by (auto simp: skipped_def answers_def split: sum.split)
  next
    case True
    then have "read_bounded contents STATUS_LIMIT = Some contents" by (simp add: read_bounded_def Let_def)
    then show ?thesis using Inr True
      by (auto simp: skipped_def answers_def tracer_is_current_def word_gt_0 not_less split: sum.split)
  qed
qed

text \<open>
  A read answers for the first live thread. The sets are returned if and only if the thread number
  is positive and some directory's text parses to a task that has not exited and is traced by a thread
  of this process, where every directory before it belonged to a reaped task, an exited one or one that
  is not traced here.
\<close>

theorem read_first_live:
  "read_sets open_status own_task directories tid = Inr sets \<longleftrightarrow>
     0 < tid \<and> (\<exists>earlier d later. directories tid = earlier @ d # later
        \<and> list_all (skipped open_status own_task) earlier \<and> answers open_status own_task d sets)"
proof -
  have "read_directories open_status own_task ds = Inr sets \<longleftrightarrow>
      (\<exists>earlier d later. ds = earlier @ d # later
        \<and> list_all (skipped open_status own_task) earlier \<and> answers open_status own_task d sets)" for ds
  proof (induction ds)
    case (Cons d ds)
    show ?case unfolding read_directories_step Cons.IH
    proof (intro iffI, elim disjE conjE exE)
      assume "answers open_status own_task d sets"
      then show "\<exists>earlier e later. d # ds = earlier @ e # later
          \<and> list_all (skipped open_status own_task) earlier \<and> answers open_status own_task e sets"
        by (intro exI [of _ "[]"]) auto
    next
      fix earlier e later
      assume "skipped open_status own_task d" "ds = earlier @ e # later"
        "list_all (skipped open_status own_task) earlier" "answers open_status own_task e sets"
      then show "\<exists>earlier e later. d # ds = earlier @ e # later
          \<and> list_all (skipped open_status own_task) earlier \<and> answers open_status own_task e sets"
        by (intro exI [of _ "d # earlier"]) auto
    next
      assume "\<exists>earlier e later. d # ds = earlier @ e # later
          \<and> list_all (skipped open_status own_task) earlier \<and> answers open_status own_task e sets"
      then show "answers open_status own_task d sets \<or> skipped open_status own_task d
          \<and> (\<exists>earlier e later. ds = earlier @ e # later
             \<and> list_all (skipped open_status own_task) earlier \<and> answers open_status own_task e sets)"
        by (fastforce simp: Cons_eq_append_conv)
    qed
  qed simp
  then show ?thesis by (simp add: read_sets_def not_le)
qed

section \<open>The two readers agree\<close>

lemma split_join: "\<forall>l \<in> set ls. c \<notin> set l \<Longrightarrow> split_on c (join_lines c ls) = ls @ [[]]"
  by (induction ls) (simp_all add: split_on_free_part)

definition strip_return :: "string \<Rightarrow> string" where
  "strip_return l = (case strip_suffix [CHR 0x0D] l of Some m \<Rightarrow> m | None \<Rightarrow> l)"

lemma strip_return_snoc [simp]: "strip_return (l @ [CHR 0x0D]) = l"
  by (simp add: strip_return_def strip_suffix_Some [THEN iffD2])

lemma strip_return_other: "(\<And>m. l \<noteq> m @ [CHR 0x0D]) \<Longrightarrow> strip_return l = l"
  by (auto simp: strip_return_def strip_suffix_Some split: option.split)

lemma strip_return_line: "strip_return (line_text kv) = line_text (fst kv, strip_return (snd kv))"
proof (cases "\<exists>m. snd kv = m @ [CHR 0x0D]")
  case True
  then obtain m where m: "snd kv = m @ [CHR 0x0D]" by blast
  then have "line_text kv = line_text (fst kv, m) @ [CHR 0x0D]" by (simp add: line_text_def)
  then show ?thesis using m by (metis strip_return_snoc snd_conv)
next
  case False
  have "line_text kv \<noteq> m @ [CHR 0x0D]" for m
  proof
    assume eq: "line_text kv = m @ [CHR 0x0D]"
    show False
    proof (cases "snd kv" rule: rev_cases)
      case Nil
      then have "last (line_text kv) = CHR '':''" by (simp add: line_text_def)
      with eq show False by simp
    next
      case (snoc ys y)
      then have "last (line_text kv) = y" by (simp add: line_text_def)
      with eq snoc False show False by simp
    qed
  qed
  then show ?thesis using False by (simp add: strip_return_other line_text_def)
qed

lemma status_lines:
  "list_all wf_line kvs \<Longrightarrow>
     text_lines (status_text kvs) = map (\<lambda>kv. line_text (fst kv, strip_return (snd kv))) kvs"
proof -
  assume wf: "list_all wf_line kvs"
  have "newline \<notin> set l" if "l \<in> set (map line_text kvs)" for l
    using that wf key_char_no_colon by (auto simp: list_all_iff wf_line_def line_text_def)
  then have "split_on newline (status_text kvs) = map line_text kvs @ [[]]"
    unfolding status_text_def by (intro split_join) blast
  then show ?thesis
    using strip_return_line by (simp add: text_lines_def Let_def strip_return_def [symmetric])
qed

lemma colon_prefix:
  assumes "CHR '':'' \<notin> set key" and "CHR '':'' \<notin> set k"
  shows "strip_prefix (key @ '':'') (line_text (k, v)) = (if k = key then Some v else None)"
proof -
  have "strip_prefix (key @ '':'') (line_text (k, v)) = Some u \<longleftrightarrow> k = key \<and> u = v" for u
  proof -
    have "k = key" if "k @ CHR '':'' # v = key @ CHR '':'' # u"
      using takeWhile_key [OF assms(1), of u] takeWhile_key [OF assms(2), of v] that by simp
    then show ?thesis by (auto simp: strip_prefix_Some line_text_def)
  qed
  then show ?thesis by (cases "strip_prefix (key @ '':'') (line_text (k, v))") (auto split: if_splits)
qed

lemma find_value:
  "line_values key kvs = [v] \<Longrightarrow> List.find (\<lambda>kv. fst kv = key) kvs = Some (key, v)"
  by (induction kvs) (auto split: if_splits)

lemma find_map: "List.find P (map f xs) = map_option f (List.find (\<lambda>x. P (f x)) xs)"
  by (induction xs) auto

lemma find_cong_set: "(\<And>x. x \<in> set xs \<Longrightarrow> P x = Q x) \<Longrightarrow> List.find P xs = List.find Q xs"
  by (induction xs) auto

lemma lower_hex_no_space: "is_lower_hex c \<Longrightarrow> \<not> is_space c \<and> c \<noteq> CHR 0x0D"
  by (auto simp: is_lower_hex_def is_ascii_digit_def is_space_def)

lemma render_set_chars: "list_all is_lower_hex (render_set w)" "render_set w \<noteq> []"
proof -
  have p: "parse_set (render_set w) = Some w" using parse_set_iff by blast
  then show "list_all is_lower_hex (render_set w)" by (auto simp: parse_set_def split: if_splits)
  from p show "render_set w \<noteq> []" by (auto simp: parse_set_def)
qed

lemma dropWhile_none: "list_all (\<lambda>x. \<not> P x) xs \<Longrightarrow> dropWhile P xs = xs"
  by (cases xs) auto

lemma trim_value: "trim (strip_return (tab # render_set w)) = render_set w"
proof -
  have chars: "c \<in> set (render_set w) \<Longrightarrow> \<not> is_space c \<and> c \<noteq> CHR 0x0D" for c
    using render_set_chars(1) lower_hex_no_space by (auto simp: list_all_iff)
  have "strip_return (tab # render_set w) = tab # render_set w"
  proof (rule strip_return_other)
    fix m
    have "last (tab # render_set w) \<noteq> CHR 0x0D" using chars render_set_chars(2) by (simp add: last_in_set)
    then show "tab # render_set w \<noteq> m @ [CHR 0x0D]" by (metis last_snoc)
  qed
  moreover have "dropWhile is_space (tab # render_set w) = render_set w"
    using chars by (simp add: is_space_def dropWhile_none list_all_iff)
  moreover have "dropWhile is_space (rev (render_set w)) = rev (render_set w)"
    using chars by (simp add: dropWhile_none list_all_iff)
  ultimately show ?thesis by (simp add: trim_def)
qed

lemma disposition_field_value:
  assumes "list_all wf_line kvs" and "line_values key kvs = [tab # render_set w]" and "CHR '':'' \<notin> set key"
  shows "disposition_field (status_text kvs) (key @ '':'') = Some w"
proof -
  let ?line = "\<lambda>kv. line_text (fst kv, strip_return (snd kv))"
  have prefix: "strip_prefix (key @ '':'') (?line kv) = (if fst kv = key then Some (strip_return (snd kv)) else None)"
    if "kv \<in> set kvs" for kv
    using that assms(1) key_char_no_colon colon_prefix [OF assms(3)] by (auto simp: list_all_iff wf_line_def)
  have "List.find (\<lambda>kv. strip_prefix (key @ '':'') (?line kv) \<noteq> None) kvs = List.find (\<lambda>kv. fst kv = key) kvs"
    using prefix by (intro find_cong_set) simp
  also have "\<dots> = Some (key, tab # render_set w)" by (rule find_value [OF assms(2)])
  finally have found: "List.find (\<lambda>l. strip_prefix (key @ '':'') l \<noteq> None) (text_lines (status_text kvs))
      = Some (?line (key, tab # render_set w))"
    by (simp add: status_lines [OF assms(1)] find_map)
  have "map_option word_of_int (from_str_radix (2 ^ 64) 16 (render_set w)) = Some w"
    using parse_set_iff [of "render_set w" w] by (simp add: parse_set_def split: if_splits)
  then show ?thesis
    using found colon_prefix [OF assms(3,3)] by (simp add: disposition_field_def trim_value)
qed

text \<open>
  The two readers agree. On every text that the status parser accepts, the shorter reader that the
  single-step code uses finds SIGTRAP's disposition and gives the bits of the parsed sets.
\<close>

theorem disposition_agrees:
  assumes "parse text = Inr st"
  shows "parse_sigtrap_disposition text =
    Some (has_signal (set_ignored (status_sets st)) SIGTRAP, has_signal (set_caught (status_sets st)) SIGTRAP)"
proof -
  from assms obtain kvs acc where k: "text = status_text kvs" "list_all wf_line kvs" "lines_read kvs no_fields acc"
      "finish_parse acc = Inr st" by (auto simp: parse_iff)
  let ?ws = "sets_list (status_sets st)"
  have "\<forall>i<5. settle (line_value parse_set) None (line_values (set_keys ! i) kvs) (map Some ?ws ! i)"
    using k(3,4) by (auto simp: lines_read_def no_fields_def finish_parse_iff)
  then have "map (\<lambda>k. line_values k kvs) set_keys = map (\<lambda>w. [tab # render_set w]) ?ws"
    using five_settled [of kvs ?ws] by (simp add: sets_list_def)
  then have v: "line_values ''SigIgn'' kvs = [tab # render_set (set_ignored (status_sets st))]"
      "line_values ''SigCgt'' kvs = [tab # render_set (set_caught (status_sets st))]"
    by (simp_all add: set_keys_def sets_list_def)
  have bit: "SIGTRAP_BIT = signal_set_bit SIGTRAP"
    by (simp add: SIGTRAP_BIT_def signal_set_bit_def SIGTRAP_def)
  show ?thesis
    using disposition_field_value [OF k(2) v(1)] disposition_field_value [OF k(2) v(2)] has_signal_and(1)
    by (simp add: parse_sigtrap_disposition_def k(1) bit)
qed

text \<open>A sleeping traced thread that catches SIGTRAP and blocks SIGUSR1.\<close>

definition sample_status :: string where
  "sample_status = status_text
     [(''Name'', tab # ''sh''), (''State'', tab # ''S (sleeping)''), (''TracerPid'', tab # ''4711''),
      (''SigPnd'', tab # ''0000000000000000''), (''ShdPnd'', tab # ''0000000000000000''),
      (''SigBlk'', tab # ''0000000000000200''), (''SigIgn'', tab # ''0000000000000004''),
      (''SigCgt'', tab # ''0000000000000010'')]"

lemma sample_status_parses:
  "parse sample_status = Inr \<lparr>status_sets = \<lparr>set_pending = 0, set_shared_pending = 0, set_blocked = 0x200,
     set_ignored = 4, set_caught = 0x10\<rparr>, status_state = CHR ''S'', status_tracer = 4711\<rparr>"
  by code_simp

theorem disposition_agrees_witness: "parse_sigtrap_disposition sample_status = Some (False, True)"
  using disposition_agrees [OF sample_status_parses] by (simp add: has_signal_def SIGTRAP_def bit_iff_odd)

end
