(* ===== verification/Trap_Instruction.thy ===== *)
theory Trap_Instruction
  imports Trap_State
begin

text \<open>
  The parts of \<^verbatim>\<open>reverie-ptrace/src/sigtrap_state.rs\<close> that look at a step: the kind of an injected
  system call, the mask a \<^verbatim>\<open>rt_sigprocmask\<close> leaves, and whether the instruction at an address raises a
  SIGTRAP of its own. The scan of the instruction asks for bytes one at a time; the bytes come from
  aligned words that are read only when needed and kept for the scan.
\<close>

section \<open>Steps over system calls\<close>

text \<open>System call numbers of x86-64.\<close>

definition SYS_rt_sigprocmask :: u32 where "SYS_rt_sigprocmask = 14"
definition SYS_rt_sigreturn_nr :: u32 where "SYS_rt_sigreturn_nr = 15"
definition SYS_clone :: u32 where "SYS_clone = 56"
definition SYS_fork :: u32 where "SYS_fork = 57"
definition SYS_vfork :: u32 where "SYS_vfork = 58"
definition SYS_clone3 :: u32 where "SYS_clone3 = 435"

datatype StepKind = KeepsMask | SetsMask | SwapsMask | Clones | Sigreturn

definition step_kind :: "u32 \<Rightarrow> bool \<Rightarrow> StepKind" where
  "step_kind nr swaps_mask =
     (if swaps_mask then SwapsMask
      else if nr = SYS_rt_sigprocmask then SetsMask
      else if nr = SYS_clone \<or> nr = SYS_clone3 \<or> nr = SYS_fork \<or> nr = SYS_vfork then Clones
      else if nr = SYS_rt_sigreturn_nr then Sigreturn
      else KeepsMask)"

definition SIG_BLOCK :: i32 where "SIG_BLOCK = 0"
definition SIG_UNBLOCK :: i32 where "SIG_UNBLOCK = 1"
definition SIG_SETMASK :: i32 where "SIG_SETMASK = 2"

definition mask_after_sigprocmask :: "u64 \<Rightarrow> i32 \<Rightarrow> u64 option \<Rightarrow> u64" where
  "mask_after_sigprocmask before how sigs =
     (case sigs of
        None \<Rightarrow> before
      | Some w \<Rightarrow>
          (let w = w AND BLOCKABLE_SIGNAL_BITS in
           if how = SIG_BLOCK then before OR w
           else if how = SIG_UNBLOCK then before AND NOT w
           else if how = SIG_SETMASK then w
           else before))"

section \<open>The instruction scan\<close>

definition legacy_prefix :: "u8 \<Rightarrow> bool" where
  "legacy_prefix b \<longleftrightarrow>
     b \<in> {0x26, 0x2e, 0x36, 0x3e, 0x64, 0x65, 0x66, 0x67, 0xf0, 0xf2, 0xf3} \<or> 0x40 \<le> b \<and> b \<le> 0x4f"

text \<open>The source of bytes has a state of its own, threaded through the scan.\<close>

fun raises_scan :: "('s \<Rightarrow> nat \<Rightarrow> u8 option \<times> 's) \<Rightarrow> 's \<Rightarrow> nat list \<Rightarrow> bool" where
  "raises_scan byte_at s [] = False"
| "raises_scan byte_at s (i # is) =
     (case byte_at s i of
        (None, _) \<Rightarrow> False
      | (Some b, s') \<Rightarrow>
          if legacy_prefix b then raises_scan byte_at s' is
          else if b = 0xcc \<or> b = 0xf1 then True
          else if b = 0xcd \<and> i < 14 then fst (byte_at s' (i + 1)) = Some 0x03
          else False)"

definition instruction_raises_sigtrap_from :: "('s \<Rightarrow> nat \<Rightarrow> u8 option \<times> 's) \<Rightarrow> 's \<Rightarrow> bool" where
  "instruction_raises_sigtrap_from byte_at s = raises_scan byte_at s [0..<15]"

definition instruction_raises_sigtrap :: "u8 list \<Rightarrow> bool" where
  "instruction_raises_sigtrap bytes =
     instruction_raises_sigtrap_from (\<lambda>s i. (if i < length bytes then Some (bytes ! i) else None, s)) ()"

definition to_ne_bytes :: "u64 \<Rightarrow> u8 list" where
  "to_ne_bytes w = map (\<lambda>j. ucast (drop_bit (8 * j) w)) [0..<8]"

lemma length_to_ne_bytes [simp]: "length (to_ne_bytes w) = 8"
  by (simp add: to_ne_bytes_def)

text \<open>The cache holds whole words; a byte beyond it makes the next word be read.\<close>

function fetch :: "(u64 \<Rightarrow> u64 option) \<Rightarrow> u64 \<Rightarrow> nat \<Rightarrow> u8 list \<Rightarrow> u8 option \<times> u8 list" where
  "fetch read_word start needed cache =
     (if needed < length cache then (Some (cache ! needed), cache)
      else if length cache = 24 then (None, cache)
      else
        case checked_add start (of_nat (length cache)) of
          None \<Rightarrow> (None, cache)
        | Some address \<Rightarrow>
            (case read_word address of
               None \<Rightarrow> (None, cache)
             | Some w \<Rightarrow> fetch read_word start needed (cache @ to_ne_bytes w)))"
  by pat_completeness auto
termination
  by (relation "measure (\<lambda>(_, _, needed, cache). needed + 1 - length cache)") auto

declare fetch.simps [simp del]

definition instruction_raises_sigtrap_with_words :: "u64 \<Rightarrow> (u64 \<Rightarrow> u64 option) \<Rightarrow> bool" where
  "instruction_raises_sigtrap_with_words rip read_word =
     (let start = rip AND NOT 7; skip = unat (rip - start) in
      instruction_raises_sigtrap_from (\<lambda>cache offset. fetch read_word start (skip + offset) cache) [])"

section \<open>The bytes the scan sees\<close>

text \<open>
  What is at an offset from the aligned start: the byte of the word that holds it, if that word and
  every word before it are at an address and readable.
\<close>

definition readable :: "(u64 \<Rightarrow> u64 option) \<Rightarrow> u64 \<Rightarrow> nat \<Rightarrow> bool" where
  "readable read_word start j \<longleftrightarrow>
     checked_add start (of_nat (8 * j)) \<noteq> None \<and> read_word (start + of_nat (8 * j)) \<noteq> None"

definition word_at :: "(u64 \<Rightarrow> u64 option) \<Rightarrow> u64 \<Rightarrow> nat \<Rightarrow> u8 list" where
  "word_at read_word start j = to_ne_bytes (the (read_word (start + of_nat (8 * j))))"

definition code_byte :: "(u64 \<Rightarrow> u64 option) \<Rightarrow> u64 \<Rightarrow> nat \<Rightarrow> u8 option" where
  "code_byte read_word start k =
     (if \<forall>j \<le> k div 8. readable read_word start j then Some (word_at read_word start (k div 8) ! (k mod 8))
      else None)"

definition cached :: "(u64 \<Rightarrow> u64 option) \<Rightarrow> u64 \<Rightarrow> u8 list \<Rightarrow> bool" where
  "cached read_word start cache \<longleftrightarrow>
     (\<exists>m \<le> 3. cache = concat (map (word_at read_word start) [0..<m])
        \<and> (\<forall>j < m. readable read_word start j))"

lemma length_words [simp]: "length (concat (map (word_at r s) [0..<m])) = 8 * m"
  by (induction m) (simp_all add: word_at_def)

lemma nth_words: "k < 8 * m \<Longrightarrow> concat (map (word_at r s) [0..<m]) ! k = word_at r s (k div 8) ! (k mod 8)"
proof (induction m)
  case (Suc m)
  show ?case
  proof (cases "k < 8 * m")
    case False
    with Suc.prems have "k div 8 = m" by auto
    moreover from this have "k - 8 * m = k mod 8" by (metis minus_mult_div_eq_mod)
    ultimately show ?thesis using False by (simp add: nth_append)
  qed (use Suc in \<open>simp add: nth_append\<close>)
qed simp

lemma checked_add_Some: "checked_add a b = Some c \<Longrightarrow> c = a + b"
  by (auto simp: checked_add_def split: if_splits)

lemma fetch_exact:
  assumes "cached r start cache" and "needed < 24"
  shows "fst (fetch r start needed cache) = code_byte r start needed
    \<and> cached r start (snd (fetch r start needed cache))"
  using assms
proof (induction r start needed cache rule: fetch.induct)
  case (1 r start needed cache)
  then obtain m where m: "m \<le> 3" "cache = concat (map (word_at r start) [0..<m])"
      "\<forall>j < m. readable r start j" by (auto simp: cached_def)
  then have len: "length cache = 8 * m" by simp
  show ?case
  proof (cases "needed < length cache")
    case True
    then have "needed div 8 < m" using len by auto
    then have "code_byte r start needed = Some (cache ! needed)"
      using True m by (simp add: code_byte_def nth_words)
    then show ?thesis using True 1(2) by (subst fetch.simps, subst (2) fetch.simps) simp
  next
    case False
    have "m \<noteq> 3" using False len 1(3) by auto
    have beyond: "m \<le> needed div 8" using False len by auto
    show ?thesis
    proof (cases "readable r start m")
      case True
      then obtain a where a: "checked_add start (of_nat (length cache)) = Some a"
        using len by (auto simp: readable_def)
      then have "a = start + of_nat (8 * m)" using len checked_add_Some by metis
      then obtain w where w: "r a = Some w" and aw: "to_ne_bytes w = word_at r start m"
        using True by (auto simp: readable_def word_at_def)
      have "cached r start (cache @ to_ne_bytes w)"
        unfolding cached_def
        by (rule exI [of _ "Suc m"]) (use m aw True \<open>m \<noteq> 3\<close> in \<open>auto simp: less_Suc_eq\<close>)
      moreover have "length cache \<noteq> 24" using len \<open>m \<noteq> 3\<close> by simp
      ultimately show ?thesis
        using 1(1) [OF False _ a w] False a w 1(3) by (subst fetch.simps, subst (2) fetch.simps) simp
    next
      case unread: False
      then have "code_byte r start needed = None" using beyond by (auto simp: code_byte_def)
      moreover have "checked_add start (of_nat (length cache)) = None
          \<or> (\<exists>a. checked_add start (of_nat (length cache)) = Some a \<and> r a = None)"
        using unread len checked_add_Some [of start "of_nat (length cache)"]
        by (cases "checked_add start (of_nat (length cache))") (auto simp: readable_def)
      moreover have "length cache \<noteq> 24" using len \<open>m \<noteq> 3\<close> by simp
      ultimately show ?thesis
        using False 1(2) by (subst fetch.simps, subst (2) fetch.simps) auto
    qed
  qed
qed

section \<open>What the scan decides\<close>

text \<open>The grammar: prefixes, then an opcode that traps, within 15 bytes.\<close>

definition trapping :: "(nat \<Rightarrow> u8 option) \<Rightarrow> nat \<Rightarrow> bool" where
  "trapping code k \<longleftrightarrow>
     (\<exists>n. k \<le> n \<and> n < 15 \<and> (\<forall>j. k \<le> j \<and> j < n \<longrightarrow> (\<exists>b. code j = Some b \<and> legacy_prefix b))
        \<and> (code n = Some 0xcc \<or> code n = Some 0xf1
            \<or> code n = Some 0xcd \<and> n < 14 \<and> code (n + 1) = Some 0x03))"

lemma opcodes_are_no_prefixes: "\<not> legacy_prefix 0xcc" "\<not> legacy_prefix 0xf1" "\<not> legacy_prefix 0xcd"
  by (simp_all add: legacy_prefix_def)

lemma first_step:
  fixes k m :: nat
  assumes "k < m"
  shows "(\<exists>n. k \<le> n \<and> n < m \<and> (\<forall>j. k \<le> j \<and> j < n \<longrightarrow> P j) \<and> Q n)
    \<longleftrightarrow> Q k \<or> P k \<and> (\<exists>n. Suc k \<le> n \<and> n < m \<and> (\<forall>j. Suc k \<le> j \<and> j < n \<longrightarrow> P j) \<and> Q n)"
    (is "?L \<longleftrightarrow> Q k \<or> P k \<and> ?R")
proof
  assume ?L
  then obtain n where n: "k \<le> n" "n < m" "\<And>j. k \<le> j \<Longrightarrow> j < n \<Longrightarrow> P j" "Q n" by blast
  show "Q k \<or> P k \<and> ?R"
  proof (cases "n = k")
    case False
    with n have "P k" and "Suc k \<le> n" by auto
    with n show ?thesis by (intro disjI2 conjI exI [of _ n]) auto
  qed (use n in simp)
next
  assume "Q k \<or> P k \<and> ?R"
  then show ?L
  proof (elim disjE conjE exE)
    assume "Q k" then show ?L using assms by (intro exI [of _ k]) auto
  next
    fix n assume "P k" and "Suc k \<le> n" "n < m" "\<forall>j. Suc k \<le> j \<and> j < n \<longrightarrow> P j" "Q n"
    moreover from this have "P j" if "k \<le> j" "j < n" for j using that by (cases "j = k") auto
    ultimately show ?L by (intro exI [of _ n]) auto
  qed
qed

lemma trapping_step:
  assumes "k < 15"
  shows "trapping code k \<longleftrightarrow>
     (case code k of
        None \<Rightarrow> False
      | Some b \<Rightarrow>
          if legacy_prefix b then trapping code (Suc k)
          else b = 0xcc \<or> b = 0xf1 \<or> b = 0xcd \<and> k < 14 \<and> code (k + 1) = Some 0x03)"
  unfolding trapping_def first_step [OF assms] using opcodes_are_no_prefixes
  by (auto split: option.split)

text \<open>A stateful source that agrees with a fixed code gives the scan of that code.\<close>

lemma raises_scan_exact:
  assumes "\<And>s i. I s \<Longrightarrow> i < 15 \<Longrightarrow> fst (byte_at s i) = code i \<and> I (snd (byte_at s i))"
    and "I s" and "k \<le> 15"
  shows "raises_scan byte_at s [k..<15] \<longleftrightarrow> trapping code k"
  using assms(2,3)
proof (induction "15 - k" arbitrary: k s)
  case 0
  then show ?case by (simp add: trapping_def)
next
  case (Suc n)
  then have k: "k < 15" "[k..<15] = k # [Suc k..<15]" by (simp_all add: upt_conv_Cons)
  obtain r s' where r: "byte_at s k = (r, s')" by fastforce
  then have code: "code k = r" and s': "I s'" using assms(1) [OF Suc.prems(1) k(1)] by auto
  have rest: "raises_scan byte_at s' [Suc k..<15] \<longleftrightarrow> trapping code (Suc k)"
    using Suc.hyps s' k(1) by simp
  have after: "k < 14 \<Longrightarrow> fst (byte_at s' (k + 1)) = code (k + 1)" using assms(1) [OF s'] by simp
  show ?case
    unfolding k(2) using r code rest after trapping_step [OF k(1), of code]
    by (auto split: option.splits)
qed

lemma low_bits: "unat (rip - (rip AND NOT 7)) < 8" for rip :: u64
proof -
  have "rip - (rip AND NOT 7) = rip AND NOT (rip AND NOT 7)"
    by (rule disjunctive_diff) (simp add: bit_simps)
  also have "\<dots> = rip AND 7"
    by (rule bit_word_eqI) (auto simp: bit_simps)
  finally show ?thesis using word_and_le1 [of rip 7] by (simp add: word_le_nat_alt)
qed

text \<open>
  C30: The scan over cached words is the scan of the instruction. For every address and every memory,
  reading aligned words only as they are needed decides the same as looking at the bytes one by one:
  the answer is yes exactly if, within 15 bytes, a run of legacy and REX prefixes is followed by
  \<^verbatim>\<open>int3\<close>, \<^verbatim>\<open>int1\<close> or \<^verbatim>\<open>int 3\<close>, all of it readable. The scan always ends.
\<close>

theorem words_decide_instruction:
  "instruction_raises_sigtrap_with_words rip read_word \<longleftrightarrow>
     trapping (\<lambda>i. code_byte read_word (rip AND NOT 7) (unat (rip - (rip AND NOT 7)) + i)) 0"
proof -
  let ?start = "rip AND NOT 7"
  have "cached read_word ?start []" unfolding cached_def by (rule exI [of _ 0]) simp
  then show ?thesis
    unfolding instruction_raises_sigtrap_with_words_def instruction_raises_sigtrap_from_def Let_def
    using low_bits [of rip] fetch_exact [of read_word ?start]
    by (intro raises_scan_exact [where I = "cached read_word ?start"]) simp_all
qed

lemma bit_blockable: "bit BLOCKABLE_SIGNAL_BITS n \<longleftrightarrow> n < 64 \<and> n \<noteq> 8 \<and> n \<noteq> 18"
  unfolding BLOCKABLE_SIGNAL_BITS_def
  by (simp only: bit_not_iff bit_or_iff bit_push_bit_iff bit_1_iff possible_bit_word) auto

text \<open>
  A mask set by \<^verbatim>\<open>rt_sigprocmask\<close> never blocks SIGKILL or SIGSTOP. The mask afterwards has exactly
  the signals the request asks for: added, removed or replaced, with the two that cannot be blocked
  left as they were by an addition or removal and clear after a replacement; an unknown request and a
  missing set change nothing.
\<close>

theorem sigprocmask_bits:
  "bit (mask_after_sigprocmask before how sigs) n \<longleftrightarrow>
     (case sigs of
        None \<Rightarrow> bit before n
      | Some w \<Rightarrow>
          (let asked = bit w n \<and> n \<noteq> 8 \<and> n \<noteq> 18 in
           if how = SIG_BLOCK then bit before n \<or> asked
           else if how = SIG_UNBLOCK then bit before n \<and> \<not> asked
           else if how = SIG_SETMASK then asked
           else bit before n))"
proof (cases "n < 64")
  case True
  then show ?thesis
    by (auto simp: mask_after_sigprocmask_def bit_blockable bit_simps Let_def split: option.split)
next
  case False
  then have "\<not> bit w n" for w :: u64 using bit_imp_le_length [of w n] by auto
  then show ?thesis by (auto simp: Let_def split: option.split)
qed

end
