(* ===== verification/Tool_Heap.thy ===== *)
theory Tool_Heap
  imports Reverie_Prelude
begin

text \<open>
  The allocator for a Tool that runs inside the guest, \<^verbatim>\<open>reverie-inguest/src/guest/alloc.rs\<close>: a
  reusable arena with a list of free blocks that is kept in the arena itself. Memory is a function from
  addresses to bytes; headers and back pointers are 8-byte little-endian words in it. A \<open>usize\<close> is a
  natural number, with the overflow checks of the source written out. The heap's lock serialises the
  operations, so each one is a step on the state; the loops over the free list are partial functions,
  for a list that is not well formed may not end.
\<close>

unbundle bit_operations_syntax

section \<open>Memory\<close>

type_synonym usize = nat
type_synonym memory = "nat \<Rightarrow> u8"

definition usize_add :: "usize \<Rightarrow> usize \<Rightarrow> usize option" where
  "usize_add a b = (if a + b < 2 ^ 64 then Some (a + b) else None)"

definition read_word :: "memory \<Rightarrow> usize \<Rightarrow> usize" where
  "read_word m a = sum_list (map (\<lambda>i. unat (m (a + i)) * 256 ^ i) [0..<8])"

definition write_word :: "usize \<Rightarrow> usize \<Rightarrow> memory \<Rightarrow> memory" where
  "write_word a v m = (\<lambda>x. if a \<le> x \<and> x < a + 8 then of_nat (v div 256 ^ (x - a)) else m x)"

definition copy_bytes :: "usize \<Rightarrow> usize \<Rightarrow> nat \<Rightarrow> memory \<Rightarrow> memory" where
  "copy_bytes source destination n m =
     (\<lambda>x. if destination \<le> x \<and> x < destination + n then m (source + (x - destination)) else m x)"

definition zero_bytes :: "usize \<Rightarrow> nat \<Rightarrow> memory \<Rightarrow> memory" where
  "zero_bytes p n m = (\<lambda>x. if p \<le> x \<and> x < p + n then 0 else m x)"

section \<open>The heap\<close>

definition TOOL_HEAP_BYTES :: usize where "TOOL_HEAP_BYTES = 32 * 1024 * 1024"
definition FREE_LIST_END :: usize where "FREE_LIST_END = 0"
definition BLOCK_SIZE :: usize where "BLOCK_SIZE = 16"
definition BLOCK_ALIGN :: usize where "BLOCK_ALIGN = 8"
definition WORD_SIZE :: usize where "WORD_SIZE = 8"

definition MIN_FREE_SPAN :: usize where
  "MIN_FREE_SPAN = (BLOCK_SIZE + WORD_SIZE + 1 + (BLOCK_ALIGN - 1)) div BLOCK_ALIGN * BLOCK_ALIGN"

record Layout =
  lay_size :: usize
  lay_align :: usize

text \<open>The storage of a span, the scalar state of its heap and the memory it lies in.\<close>

record ToolHeapSpan =
  span_base :: usize
  span_bytes :: usize

record ToolHeap =
  heap_next :: usize
  heap_free :: usize
  heap_mem :: memory

definition heap_new :: "memory \<Rightarrow> ToolHeap" where
  "heap_new m = \<lparr>heap_next = 0, heap_free = FREE_LIST_END, heap_mem = m\<rparr>"

definition align_up_word :: "u64 \<Rightarrow> u64 \<Rightarrow> u64 option" where
  "align_up_word v alignment = map_option (\<lambda>a. a AND NOT (alignment - 1)) (checked_add v (alignment - 1))"

definition align_up :: "usize \<Rightarrow> usize \<Rightarrow> usize option" where
  "align_up v alignment = map_option unat (align_up_word (of_nat v) (of_nat alignment))"

definition layout_end :: "ToolHeapSpan \<Rightarrow> usize \<Rightarrow> Layout \<Rightarrow> (usize \<times> usize) option" where
  "layout_end sp block_offset layout =
     Option.bind (usize_add (span_base sp) block_offset) (\<lambda>block_address.
     Option.bind (usize_add block_address BLOCK_SIZE) (\<lambda>header_end.
     Option.bind (usize_add header_end WORD_SIZE) (\<lambda>payload_start.
     Option.bind (align_up payload_start (max (lay_align layout) WORD_SIZE)) (\<lambda>payload_address.
     Option.bind (usize_add payload_address (max (lay_size layout) 1)) (\<lambda>payload_end.
     Option.bind (align_up (payload_end - span_base sp) BLOCK_ALIGN) (\<lambda>block_end.
     Some (payload_address, block_end)))))))"

text \<open>The header of the block at an offset: its span, then the offset of the next free block.\<close>

definition block_span :: "ToolHeapSpan \<Rightarrow> ToolHeap \<Rightarrow> usize \<Rightarrow> usize" where
  "block_span sp h offset = read_word (heap_mem h) (span_base sp + offset)"

definition block_next :: "ToolHeapSpan \<Rightarrow> ToolHeap \<Rightarrow> usize \<Rightarrow> usize" where
  "block_next sp h offset = read_word (heap_mem h) (span_base sp + offset + 8)"

definition set_word :: "usize \<Rightarrow> usize \<Rightarrow> ToolHeap \<Rightarrow> ToolHeap" where
  "set_word a v h = h\<lparr>heap_mem := write_word a v (heap_mem h)\<rparr>"

definition set_span :: "ToolHeapSpan \<Rightarrow> usize \<Rightarrow> usize \<Rightarrow> ToolHeap \<Rightarrow> ToolHeap" where
  "set_span sp offset v = set_word (span_base sp + offset) v"

definition set_next :: "ToolHeapSpan \<Rightarrow> usize \<Rightarrow> usize \<Rightarrow> ToolHeap \<Rightarrow> ToolHeap" where
  "set_next sp offset v = set_word (span_base sp + offset + 8) v"

definition write_block :: "ToolHeapSpan \<Rightarrow> usize \<Rightarrow> usize \<Rightarrow> usize \<Rightarrow> ToolHeap \<Rightarrow> ToolHeap" where
  "write_block sp offset span nxt h = set_next sp offset nxt (set_span sp offset span h)"

text \<open>The link to a block: the head of the list, or the next field of the block before it.\<close>

definition set_link :: "ToolHeapSpan \<Rightarrow> usize \<Rightarrow> usize \<Rightarrow> ToolHeap \<Rightarrow> ToolHeap" where
  "set_link sp previous v h =
     (if previous = FREE_LIST_END then h\<lparr>heap_free := v\<rparr> else set_next sp previous v h)"

section \<open>Allocation\<close>

definition fits :: "ToolHeapSpan \<Rightarrow> usize \<Rightarrow> usize \<Rightarrow> Layout \<Rightarrow> (usize \<times> usize \<times> usize) option" where
  "fits sp current span layout =
     Option.bind (usize_add current span) (\<lambda>block_end.
     Option.bind (layout_end sp current layout) (\<lambda>(pointer, e).
     if e \<le> block_end then Some (pointer, e, block_end) else None))"

text \<open>
  The walk along the free list: \<open>Some None\<close> if it ends without a fit, \<open>None\<close> if it does not end.
\<close>

partial_function (option) first_fit ::
    "ToolHeapSpan \<Rightarrow> Layout \<Rightarrow> ToolHeap \<Rightarrow> usize \<Rightarrow> usize \<Rightarrow>
     (usize \<times> usize \<times> (usize \<times> usize \<times> usize)) option option" where
  "first_fit sp layout h previous current =
     (if current = FREE_LIST_END then Some None
      else
        case fits sp current (block_span sp h current) layout of
          Some f \<Rightarrow> Some (Some (previous, current, f))
        | None \<Rightarrow> first_fit sp layout h current (block_next sp h current))"

definition take_block ::
    "ToolHeapSpan \<Rightarrow> usize \<Rightarrow> usize \<Rightarrow> usize \<times> usize \<times> usize \<Rightarrow> ToolHeap \<Rightarrow> ToolHeap" where
  "take_block sp previous current f h =
     (case f of (pointer, e, block_end) \<Rightarrow>
        let nxt = block_next sp h current;
            (h1, replacement) =
              (if block_end - e \<ge> MIN_FREE_SPAN
               then (set_span sp current (e - current) (write_block sp e (block_end - e) nxt h), e)
               else (h, nxt))
        in set_word (pointer - WORD_SIZE) current (set_link sp previous replacement h1))"

definition bump :: "ToolHeapSpan \<Rightarrow> Layout \<Rightarrow> ToolHeap \<Rightarrow> usize option \<times> ToolHeap" where
  "bump sp layout h =
     (case align_up (max (heap_next h) 1) BLOCK_ALIGN of
        None \<Rightarrow> (None, h)
      | Some block_offset \<Rightarrow>
          (case layout_end sp block_offset layout of
             None \<Rightarrow> (None, h)
           | Some (pointer, e) \<Rightarrow>
               if e > span_bytes sp then (None, h)
               else
                 (Some pointer,
                  (set_word (pointer - WORD_SIZE) block_offset
                     (write_block sp block_offset (e - block_offset) FREE_LIST_END h))\<lparr>heap_next := e\<rparr>)))"

text \<open>A pointer, or \<open>None\<close> for the null pointer; the whole is \<open>None\<close> if the walk does not end.\<close>

definition allocate :: "ToolHeapSpan \<Rightarrow> Layout \<Rightarrow> ToolHeap \<Rightarrow> (usize option \<times> ToolHeap) option" where
  "allocate sp layout h =
     (case first_fit sp layout h FREE_LIST_END (heap_free h) of
        None \<Rightarrow> None
      | Some (Some (previous, current, f)) \<Rightarrow> Some (Some (fst f), take_block sp previous current f h)
      | Some None \<Rightarrow> Some (bump sp layout h))"

section \<open>Deallocation\<close>

partial_function (option) find_place ::
    "ToolHeapSpan \<Rightarrow> ToolHeap \<Rightarrow> usize \<Rightarrow> usize \<Rightarrow> usize \<Rightarrow> (usize \<times> usize) option" where
  "find_place sp h block_offset previous nxt =
     (if nxt \<noteq> FREE_LIST_END \<and> nxt < block_offset
      then find_place sp h block_offset nxt (block_next sp h nxt)
      else Some (previous, nxt))"

definition merge_previous :: "ToolHeapSpan \<Rightarrow> usize \<Rightarrow> usize \<Rightarrow> usize \<Rightarrow> ToolHeap \<Rightarrow> usize \<times> ToolHeap" where
  "merge_previous sp previous block_offset nxt h =
     (if previous \<noteq> FREE_LIST_END \<and> usize_add previous (block_span sp h previous) = Some block_offset
      then
        (case usize_add (block_span sp h previous) (block_span sp h block_offset) of
           Some s \<Rightarrow> (previous, set_next sp previous nxt (set_span sp previous s h))
         | None \<Rightarrow> (block_offset, h))
      else (block_offset, h))"

definition merge_next :: "ToolHeapSpan \<Rightarrow> usize \<Rightarrow> usize \<Rightarrow> ToolHeap \<Rightarrow> ToolHeap" where
  "merge_next sp merged nxt h =
     (if nxt \<noteq> FREE_LIST_END \<and> usize_add merged (block_span sp h merged) = Some nxt
      then
        (case usize_add (block_span sp h merged) (block_span sp h nxt) of
           Some s \<Rightarrow> (let h1 = set_span sp merged s h in set_next sp merged (block_next sp h1 nxt) h1)
         | None \<Rightarrow> h)
      else h)"

definition deallocate :: "ToolHeapSpan \<Rightarrow> usize \<Rightarrow> ToolHeap \<Rightarrow> ToolHeap option" where
  "deallocate sp pointer h =
     (let block_offset = read_word (heap_mem h) (pointer - WORD_SIZE) in
      map_option (\<lambda>(previous, nxt).
        let h1 = set_link sp previous block_offset (set_next sp block_offset nxt h);
            (merged, h2) = merge_previous sp previous block_offset nxt h1
        in merge_next sp merged nxt h2)
      (find_place sp h block_offset FREE_LIST_END (heap_free h)))"

definition contains_pointer :: "ToolHeapSpan \<Rightarrow> usize \<Rightarrow> bool" where
  "contains_pointer sp pointer \<longleftrightarrow> span_base sp \<le> pointer \<and> pointer < span_base sp + span_bytes sp"

section \<open>The allocators\<close>

text \<open>The loader places the legacy arena at a base address; the fixed one has a constant address.\<close>

definition tool_span :: "usize \<Rightarrow> ToolHeapSpan" where
  "tool_span base = \<lparr>span_base = base, span_bytes = TOOL_HEAP_BYTES\<rparr>"

definition BASE :: usize where "BASE = 0x600000000000"
definition TOOL_BOTTOM :: usize where "TOOL_BOTTOM = BASE + 0x10000000"
definition ARENA_BYTES :: usize where "ARENA_BYTES = 32 * 1024 * 1024"

definition fixed_tool_heap :: "bool \<Rightarrow> ToolHeapSpan option" where
  "fixed_tool_heap published =
     (if published then Some \<lparr>span_base = TOOL_BOTTOM, span_bytes = ARENA_BYTES\<rparr> else None)"

definition from_size_align :: "usize \<Rightarrow> usize \<Rightarrow> Layout option" where
  "from_size_align bytes alignment =
     (if list_ex (\<lambda>k. alignment = 2 ^ k) [0..<64] \<and> bytes + (alignment - 1) < 2 ^ 63
      then Some \<lparr>lay_size = bytes, lay_align = alignment\<rparr> else None)"

definition with_mem :: "(memory \<Rightarrow> memory) \<Rightarrow> ToolHeap \<Rightarrow> ToolHeap" where
  "with_mem f h = h\<lparr>heap_mem := f (heap_mem h)\<rparr>"

definition zeroed :: "Layout \<Rightarrow> usize option \<times> ToolHeap \<Rightarrow> usize option \<times> ToolHeap" where
  "zeroed layout r =
     (case r of
        (None, h) \<Rightarrow> (None, h)
      | (Some pointer, h) \<Rightarrow> (Some pointer, with_mem (zero_bytes pointer (lay_size layout)) h))"

text \<open>A move to a new block of the same heap; a failed allocation leaves the source live.\<close>

definition realloc_within ::
    "ToolHeapSpan \<Rightarrow> usize \<Rightarrow> Layout \<Rightarrow> usize \<Rightarrow> ToolHeap \<Rightarrow> (usize option \<times> ToolHeap) option" where
  "realloc_within sp pointer old new_size h =
     (case from_size_align new_size (lay_align old) of
        None \<Rightarrow> Some (None, h)
      | Some new_layout \<Rightarrow>
          (case allocate sp new_layout h of
             None \<Rightarrow> None
           | Some (None, h1) \<Rightarrow> Some (None, h1)
           | Some (Some replacement, h1) \<Rightarrow>
               map_option (\<lambda>h2. (Some replacement, h2))
                 (deallocate sp pointer
                    (with_mem (copy_bytes pointer replacement (min (lay_size old) new_size)) h1))))"

text \<open>A foreign pointer ends the process with status 127 before any header is read.\<close>

datatype 'a owned = Exit_Group int | Value 'a

definition private_alloc :: "usize \<Rightarrow> Layout \<Rightarrow> ToolHeap \<Rightarrow> (usize option \<times> ToolHeap) option" where
  "private_alloc base layout h = allocate (tool_span base) layout h"

definition private_alloc_zeroed :: "usize \<Rightarrow> Layout \<Rightarrow> ToolHeap \<Rightarrow> (usize option \<times> ToolHeap) option" where
  "private_alloc_zeroed base layout h = map_option (zeroed layout) (allocate (tool_span base) layout h)"

definition private_dealloc :: "usize \<Rightarrow> usize \<Rightarrow> ToolHeap \<Rightarrow> ToolHeap owned option" where
  "private_dealloc base pointer h =
     (if \<not> contains_pointer (tool_span base) pointer then Some (Exit_Group 127)
      else map_option Value (deallocate (tool_span base) pointer h))"

definition private_realloc ::
    "usize \<Rightarrow> usize \<Rightarrow> Layout \<Rightarrow> usize \<Rightarrow> ToolHeap \<Rightarrow> (usize option \<times> ToolHeap) owned option" where
  "private_realloc base pointer old new_size h =
     (if \<not> contains_pointer (tool_span base) pointer then Some (Exit_Group 127)
      else map_option Value (realloc_within (tool_span base) pointer old new_size h))"

definition owned_heap :: "bool \<Rightarrow> usize \<Rightarrow> ToolHeapSpan owned" where
  "owned_heap published address =
     (case fixed_tool_heap published of
        None \<Rightarrow> Exit_Group 127
      | Some heap \<Rightarrow> if \<not> contains_pointer heap address then Exit_Group 127 else Value heap)"

definition fixed_alloc :: "bool \<Rightarrow> Layout \<Rightarrow> ToolHeap \<Rightarrow> (usize option \<times> ToolHeap) option" where
  "fixed_alloc published layout h =
     (case fixed_tool_heap published of None \<Rightarrow> Some (None, h) | Some heap \<Rightarrow> allocate heap layout h)"

definition fixed_alloc_zeroed :: "bool \<Rightarrow> Layout \<Rightarrow> ToolHeap \<Rightarrow> (usize option \<times> ToolHeap) option" where
  "fixed_alloc_zeroed published layout h = map_option (zeroed layout) (fixed_alloc published layout h)"

definition fixed_dealloc :: "bool \<Rightarrow> usize \<Rightarrow> ToolHeap \<Rightarrow> ToolHeap owned option" where
  "fixed_dealloc published pointer h =
     (case owned_heap published pointer of
        Exit_Group code \<Rightarrow> Some (Exit_Group code)
      | Value heap \<Rightarrow> map_option Value (deallocate heap pointer h))"

definition fixed_realloc ::
    "bool \<Rightarrow> usize \<Rightarrow> Layout \<Rightarrow> usize \<Rightarrow> ToolHeap \<Rightarrow> (usize option \<times> ToolHeap) owned option" where
  "fixed_realloc published pointer old new_size h =
     (case owned_heap published pointer of
        Exit_Group code \<Rightarrow> Some (Exit_Group code)
      | Value heap \<Rightarrow> map_option Value (realloc_within heap pointer old new_size h))"

text \<open>
  The allocator of a guest library. The system's allocator is a parameter: its operations on the whole
  memory and on a state of its own.
\<close>

record 'sys System =
  sys_alloc :: "Layout \<Rightarrow> memory \<times> 'sys \<Rightarrow> usize option \<times> memory \<times> 'sys"
  sys_dealloc :: "usize \<Rightarrow> Layout \<Rightarrow> memory \<times> 'sys \<Rightarrow> memory \<times> 'sys"
  sys_realloc :: "usize \<Rightarrow> Layout \<Rightarrow> usize \<Rightarrow> memory \<times> 'sys \<Rightarrow> usize option \<times> memory \<times> 'sys"

record 'sys GuestHeap =
  dispatch_depth :: usize
  tool_heap :: ToolHeap
  system :: 'sys

definition enter_dispatch :: "'sys GuestHeap \<Rightarrow> 'sys GuestHeap" where
  "enter_dispatch g = g\<lparr>dispatch_depth := dispatch_depth g + 1\<rparr>"

definition drop_dispatch :: "'sys GuestHeap \<Rightarrow> 'sys GuestHeap" where
  "drop_dispatch g = g\<lparr>dispatch_depth := dispatch_depth g - 1\<rparr>"

definition dispatch_active :: "'sys GuestHeap \<Rightarrow> bool" where
  "dispatch_active g \<longleftrightarrow> dispatch_depth g \<noteq> 0"

definition on_heap :: "'sys GuestHeap \<Rightarrow> usize option \<times> ToolHeap \<Rightarrow> usize option \<times> 'sys GuestHeap" where
  "on_heap g r = (fst r, g\<lparr>tool_heap := snd r\<rparr>)"

definition on_system :: "'sys GuestHeap \<Rightarrow> memory \<times> 'sys \<Rightarrow> 'sys GuestHeap" where
  "on_system g ms = g\<lparr>tool_heap := with_mem (\<lambda>_. fst ms) (tool_heap g), system := snd ms\<rparr>"

abbreviation system_state :: "'sys GuestHeap \<Rightarrow> memory \<times> 'sys" where
  "system_state g \<equiv> (heap_mem (tool_heap g), system g)"

definition guest_alloc :: "'sys System \<Rightarrow> usize \<Rightarrow> Layout \<Rightarrow> 'sys GuestHeap \<Rightarrow> (usize option \<times> 'sys GuestHeap) option" where
  "guest_alloc sys base layout g =
     (if dispatch_active g then map_option (on_heap g) (allocate (tool_span base) layout (tool_heap g))
      else case sys_alloc sys layout (system_state g) of (r, ms) \<Rightarrow> Some (r, on_system g ms))"

definition guest_alloc_zeroed ::
    "'sys System \<Rightarrow> usize \<Rightarrow> Layout \<Rightarrow> 'sys GuestHeap \<Rightarrow> (usize option \<times> 'sys GuestHeap) option" where
  "guest_alloc_zeroed sys base layout g =
     map_option (\<lambda>(r, g1). on_heap g1 (zeroed layout (r, tool_heap g1))) (guest_alloc sys base layout g)"

definition guest_dealloc :: "'sys System \<Rightarrow> usize \<Rightarrow> usize \<Rightarrow> Layout \<Rightarrow> 'sys GuestHeap \<Rightarrow> 'sys GuestHeap option" where
  "guest_dealloc sys base pointer layout g =
     (if contains_pointer (tool_span base) pointer
      then map_option (\<lambda>h. g\<lparr>tool_heap := h\<rparr>) (deallocate (tool_span base) pointer (tool_heap g))
      else if dispatch_active g then Some g
      else Some (on_system g (sys_dealloc sys pointer layout (system_state g))))"

definition guest_realloc ::
    "'sys System \<Rightarrow> usize \<Rightarrow> usize \<Rightarrow> Layout \<Rightarrow> usize \<Rightarrow> 'sys GuestHeap \<Rightarrow> (usize option \<times> 'sys GuestHeap) option" where
  "guest_realloc sys base pointer old new_size g =
     (if contains_pointer (tool_span base) pointer
      then map_option (on_heap g) (realloc_within (tool_span base) pointer old new_size (tool_heap g))
      else if \<not> dispatch_active g
      then case sys_realloc sys pointer old new_size (system_state g) of (r, ms) \<Rightarrow> Some (r, on_system g ms)
      else
        case from_size_align new_size (lay_align old) of
          None \<Rightarrow> Some (None, g)
        | Some new_layout \<Rightarrow>
            map_option (\<lambda>(r, h1). on_heap g (case r of
                None \<Rightarrow> (None, h1)
              | Some replacement \<Rightarrow>
                  (Some replacement, with_mem (copy_bytes pointer replacement (min (lay_size old) new_size)) h1)))
              (allocate (tool_span base) new_layout (tool_heap g)))"

end
