(* ===== verification/Tool_Heap_Blocks.thy ===== *)
theory Tool_Heap_Blocks
  imports Tool_Heap
begin

text \<open>
  The heap of \<open>Tool_Heap\<close> seen as a list of blocks: words of memory, the arithmetic of a layout, the
  blocks that tile the used part of the arena, and the free list as a chain through the free ones.
\<close>

section \<open>Words of memory\<close>

lemma digit_sum: "sum_list (map (\<lambda>i. (v div 256 ^ i mod 256) * 256 ^ i) [0..<n]) = v mod 256 ^ n" for v :: nat
proof (induction n)
  case (Suc n)
  have "v mod 256 ^ Suc n = v mod (256 ^ n * 256)" by (simp add: mult.commute)
  also have "\<dots> = 256 ^ n * (v div 256 ^ n mod 256) + v mod 256 ^ n" by (rule mod_mult2_eq)
  finally show ?case using Suc by (simp add: mult.commute)
qed simp

lemma read_write_same [simp]: "v < 2 ^ 64 \<Longrightarrow> read_word (write_word a v m) a = v"
proof -
  assume v: "v < 2 ^ 64"
  have "read_word (write_word a v m) a = sum_list (map (\<lambda>i. (v div 256 ^ i mod 256) * 256 ^ i) [0..<8])"
    unfolding read_word_def write_word_def
    by (intro arg_cong [where f = sum_list] map_cong) (auto simp: unat_of_nat)
  also have "\<dots> = v" using v digit_sum [of v 8] by simp
  finally show ?thesis .
qed

lemma read_word_cong: "(\<And>x. a \<le> x \<Longrightarrow> x < a + 8 \<Longrightarrow> m x = m' x) \<Longrightarrow> read_word m a = read_word m' a"
  unfolding read_word_def by (intro arg_cong [where f = sum_list] map_cong) auto

lemma read_write_other [simp]: "a + 8 \<le> b \<or> b + 8 \<le> a \<Longrightarrow> read_word (write_word a v m) b = read_word m b"
  by (rule read_word_cong) (auto simp: write_word_def)

section \<open>Layouts\<close>

text \<open>What \<^verbatim>\<open>Layout::from_size_align\<close> admits.\<close>

definition layout_ok :: "Layout \<Rightarrow> bool" where
  "layout_ok l \<longleftrightarrow> (\<exists>k. lay_align l = 2 ^ k) \<and> lay_size l + (lay_align l - 1) < 2 ^ 63"

lemma align_mask:
  fixes w :: u64
  assumes "k < 64"
  shows "unat (w AND NOT (2 ^ k - 1)) = unat w div 2 ^ k * 2 ^ k"
proof -
  have mask: "w AND NOT (2 ^ k - 1) = push_bit k (drop_bit k w)"
    by (rule bit_word_eqI) (use assms in \<open>auto simp: bit_simps mask_eq_exp_minus_1 [symmetric]\<close>)
  have "unat (push_bit k (drop_bit k w)) = unat (drop_bit k w) * 2 ^ k mod 2 ^ 64"
    by (subst unsigned_push_bit_eq) (simp add: push_bit_eq_mult take_bit_eq_mod)
  also have "\<dots> = unat w div 2 ^ k * 2 ^ k mod 2 ^ 64" by (subst unat_drop_bit_eq) (simp only: drop_bit_eq_div)
  also have "\<dots> = unat w div 2 ^ k * 2 ^ k"
  proof (rule mod_less)
    have "unat w div 2 ^ k * 2 ^ k \<le> unat w" by (rule div_times_less_eq_dividend)
    also have "unat w < 2 ^ 64" using unsigned_less [of w, where ?'a = nat] by simp
    finally show "unat w div 2 ^ k * 2 ^ k < 2 ^ 64" .
  qed
  finally show ?thesis using mask by simp
qed

lemma align_up_eq:
  assumes "k < 64" and "v < 2 ^ 64"
  shows "align_up v (2 ^ k) =
    (if v + (2 ^ k - 1) < 2 ^ 64 then Some ((v + (2 ^ k - 1)) div 2 ^ k * 2 ^ k) else None)"
proof -
  have p: "(2 :: nat) ^ k < 2 ^ 64" using assms(1) by (rule power_strict_increasing) simp
  have v: "unat (of_nat v :: u64) = v" using assms(2) by (simp add: unat_of_nat)
  have a: "unat (2 ^ k - 1 :: u64) = 2 ^ k - 1"
  proof -
    have "(2 ^ k - 1 :: u64) = of_nat (2 ^ k - 1)" by (simp add: of_nat_diff)
    then have "unat (2 ^ k - 1 :: u64) = (2 ^ k - 1) mod 2 ^ 64" by (simp add: unat_of_nat del: of_nat_diff)
    also have "\<dots> = 2 ^ k - 1" using p by (intro mod_less) auto
    finally show ?thesis .
  qed
  have w: "(of_nat (2 ^ k) :: u64) = 2 ^ k" by simp
  show ?thesis
    unfolding align_up_def align_up_word_def w checked_add_def
    using v a assms align_mask [OF assms(1), of "of_nat v + (2 ^ k - 1)"]
    by (auto simp: unat_word_ariths)
qed

lemma round_up_bounds:
  fixes v a :: nat
  assumes "0 < a"
  shows "v \<le> (v + (a - 1)) div a * a" and "(v + (a - 1)) div a * a < v + a"
proof -
  have "(v + (a - 1)) div a * a + (v + (a - 1)) mod a = v + (a - 1)" by (rule div_mult_mod_eq)
  moreover have "(v + (a - 1)) mod a < a" using assms by simp
  ultimately show "v \<le> (v + (a - 1)) div a * a" "(v + (a - 1)) div a * a < v + a"
    using assms by linarith+
qed

lemma align_up_Some:
  assumes "align_up v (2 ^ k) = Some a" and "k < 64" and "v < 2 ^ 64"
  shows "v \<le> a \<and> a < v + 2 ^ k \<and> a mod 2 ^ k = 0 \<and> a < 2 ^ 64"
proof -
  have a: "a = (v + (2 ^ k - 1)) div 2 ^ k * 2 ^ k" "v + (2 ^ k - 1) < 2 ^ 64"
    using assms align_up_eq [OF assms(2,3)] by (auto split: if_splits)
  moreover have "a \<le> v + (2 ^ k - 1)" unfolding a(1) by (rule div_times_less_eq_dividend)
  ultimately show ?thesis using round_up_bounds [of "2 ^ k" v] by simp
qed

text \<open>The storage: a range of addresses that starts at a multiple of eight.\<close>

definition span_ok :: "ToolHeapSpan \<Rightarrow> bool" where
  "span_ok sp \<longleftrightarrow> span_base sp mod 8 = 0 \<and> span_base sp + span_bytes sp < 2 ^ 64"

lemma sizes [simp]: "BLOCK_SIZE = 16" "BLOCK_ALIGN = 8" "WORD_SIZE = 8" "MIN_FREE_SPAN = 32" "FREE_LIST_END = 0"
  by (simp_all add: BLOCK_SIZE_def BLOCK_ALIGN_def WORD_SIZE_def MIN_FREE_SPAN_def FREE_LIST_END_def)

lemma usize_add_Some: "usize_add a b = Some c \<longleftrightarrow> c = a + b \<and> a + b < 2 ^ 64"
  by (auto simp: usize_add_def)

lemma layout_exponent:
  assumes "layout_ok l"
  obtains k where "max (lay_align l) 8 = 2 ^ k" "k < 64" "lay_align l dvd 2 ^ k" "8 dvd (2 :: nat) ^ k"
proof -
  obtain j where j: "lay_align l = 2 ^ j" "lay_size l + (2 ^ j - 1) < 2 ^ 63"
    using assms by (auto simp: layout_ok_def)
  have "j < 64"
  proof (rule ccontr)
    assume "\<not> j < 64"
    then have "(2 :: nat) ^ 64 \<le> 2 ^ j" by (intro power_increasing) auto
    then show False using j(2) by simp
  qed
  have "max ((2 :: nat) ^ j) 8 = 2 ^ max j 3"
  proof (cases "3 \<le> j")
    case True
    then have "(2 :: nat) ^ 3 \<le> 2 ^ j" by (intro power_increasing) auto
    then show ?thesis using True by (simp add: max_def)
  next
    case False
    then have "(2 :: nat) ^ j \<le> 2 ^ 3" by (intro power_increasing) auto
    then show ?thesis using False by (simp add: max_def)
  qed
  moreover have "8 dvd (2 :: nat) ^ max j 3" using le_imp_power_dvd [of 3 "max j 3" "2 :: nat"] by simp
  moreover have "lay_align l dvd 2 ^ max j 3" using j(1) by (simp add: le_imp_power_dvd)
  ultimately show thesis using that [of "max j 3"] j(1) \<open>j < 64\<close> by simp
qed

lemma layout_end_facts:
  assumes "span_ok sp" and "layout_ok l" and "layout_end sp off l = Some (p, e)" and "off mod 8 = 0"
  shows "span_base sp + off + 24 \<le> p" "p mod 8 = 0" "p mod lay_align l = 0"
    "p + lay_size l \<le> span_base sp + e" "e mod 8 = 0" "off + 32 \<le> e"
proof -
  let ?b = "span_base sp"
  obtain k where k: "max (lay_align l) 8 = 2 ^ k" "k < 64" "lay_align l dvd 2 ^ k" "8 dvd (2 :: nat) ^ k"
    using layout_exponent [OF assms(2)] .
  from assms(3) k(1) obtain q where
    start: "?b + off + 24 < 2 ^ 64" and p: "align_up (?b + off + 24) (2 ^ k) = Some p" and
    q: "p + max (lay_size l) 1 = q" "q < 2 ^ 64" and e: "align_up (q - ?b) (2 ^ 3) = Some e"
    by (auto simp: layout_end_def usize_add_Some bind_eq_Some_conv ac_simps)
  note pf = align_up_Some [OF p k(2) start]
  then show lo: "?b + off + 24 \<le> p" by simp
  have "2 ^ k dvd p" using pf by auto
  then show "p mod 8 = 0" "p mod lay_align l = 0" using k(3,4) by (auto elim: dvd_trans)
  have "q - ?b < 2 ^ 64" using q(2) by simp
  note ef = align_up_Some [OF e _ this]
  then have ge: "q - ?b \<le> e" and "e mod 8 = 0" by simp_all
  then show "e mod 8 = 0" by simp
  show "p + lay_size l \<le> ?b + e" using ge q(1) lo by simp
  have "off + 25 \<le> e" using ge q(1) lo by simp
  then show "off + 32 \<le> e" using \<open>e mod 8 = 0\<close> assms(4) by presburger
qed

section \<open>Blocks\<close>

text \<open>
  A block of the arena: its offset and span, and for a live one the payload's address and the number
  of bytes that were asked for.
\<close>

record block =
  blk_off :: nat
  blk_span :: nat
  blk_live :: "(nat \<times> nat) option"

abbreviation is_free :: "block \<Rightarrow> bool" where "is_free b \<equiv> blk_live b = None"

fun tiles :: "nat \<Rightarrow> block list \<Rightarrow> nat \<Rightarrow> bool" where
  "tiles a [] e \<longleftrightarrow> a = e"
| "tiles a (b # bs) e \<longleftrightarrow> blk_off b = a \<and> tiles (a + blk_span b) bs e"

definition block_ok :: "ToolHeapSpan \<Rightarrow> memory \<Rightarrow> block \<Rightarrow> bool" where
  "block_ok sp m b \<longleftrightarrow>
     blk_off b mod 8 = 0 \<and> blk_span b mod 8 = 0 \<and> 32 \<le> blk_span b
     \<and> read_word m (span_base sp + blk_off b) = blk_span b
     \<and> (case blk_live b of
          None \<Rightarrow> True
        | Some (p, n) \<Rightarrow> span_base sp + blk_off b + 24 \<le> p \<and> p + n \<le> span_base sp + blk_off b + blk_span b
            \<and> read_word m (p - 8) = blk_off b)"

definition frees :: "block list \<Rightarrow> nat list" where
  "frees bs = map blk_off (filter is_free bs)"

text \<open>The free list: the offsets in order, each the next of the one before, ended by zero.\<close>

fun chain :: "(nat \<Rightarrow> nat) \<Rightarrow> nat \<Rightarrow> nat list \<Rightarrow> bool" where
  "chain nx x [] \<longleftrightarrow> x = 0"
| "chain nx x (y # ys) \<longleftrightarrow> x = y \<and> chain nx (nx y) ys"

fun coalesced :: "block list \<Rightarrow> bool" where
  "coalesced (b # c # bs) \<longleftrightarrow> \<not> (is_free b \<and> is_free c) \<and> coalesced (c # bs)"
| "coalesced _ \<longleftrightarrow> True"

definition heap_end :: "ToolHeap \<Rightarrow> nat" where
  "heap_end h = max 8 (heap_next h)"

text \<open>
  The heap's state as a list of blocks: they tile the arena from offset 8 to the cursor, every header
  and back pointer is right, and the free list runs through the free blocks in order of address.
  Between operations no two free blocks are neighbours either.
\<close>

definition heap_tiled :: "ToolHeapSpan \<Rightarrow> ToolHeap \<Rightarrow> block list \<Rightarrow> bool" where
  "heap_tiled sp h bs \<longleftrightarrow>
     span_ok sp \<and> heap_next h mod 8 = 0 \<and> heap_next h \<le> span_bytes sp
     \<and> tiles 8 bs (heap_end h) \<and> list_all (block_ok sp (heap_mem h)) bs
     \<and> chain (block_next sp h) (heap_free h) (frees bs)"

definition heap_ok :: "ToolHeapSpan \<Rightarrow> ToolHeap \<Rightarrow> block list \<Rightarrow> bool" where
  "heap_ok sp h bs \<longleftrightarrow> heap_tiled sp h bs \<and> coalesced bs"

subsection \<open>Tiles\<close>

lemma tiles_le: "tiles a bs e \<Longrightarrow> a \<le> e"
  by (induction bs arbitrary: a) force+

lemma tiles_append: "tiles a (bs @ cs) e \<longleftrightarrow> (\<exists>m. tiles a bs m \<and> tiles m cs e)"
  by (induction bs arbitrary: a) auto

lemma tiles_range: "tiles a bs e \<Longrightarrow> b \<in> set bs \<Longrightarrow> a \<le> blk_off b \<and> blk_off b + blk_span b \<le> e"
proof (induction bs arbitrary: a)
  case (Cons c bs)
  then show ?case using tiles_le [of "a + blk_span c" bs e] by force
qed simp

lemma tiles_split:
  assumes "tiles a (pre @ b # post) e"
  shows "tiles a pre (blk_off b)" "tiles (blk_off b + blk_span b) post e"
    and "c \<in> set pre \<Longrightarrow> a \<le> blk_off c \<and> blk_off c + blk_span c \<le> blk_off b"
    and "c \<in> set post \<Longrightarrow> blk_off b + blk_span b \<le> blk_off c \<and> blk_off c + blk_span c \<le> e"
  using assms tiles_range by (auto simp: tiles_append)

lemma frees_append [simp]: "frees (bs @ cs) = frees bs @ frees cs"
  by (simp add: frees_def)

lemma frees_Cons [simp]: "frees (b # bs) = (if is_free b then blk_off b # frees bs else frees bs)"
  by (simp add: frees_def)

lemma frees_Nil [simp]: "frees [] = []"
  by (simp add: frees_def)

lemma in_frees: "x \<in> set (frees bs) \<longleftrightarrow> (\<exists>b \<in> set bs. is_free b \<and> blk_off b = x)"
  by (auto simp: frees_def)

lemma frees_split:
  "frees bs = xs @ x # ys \<Longrightarrow>
     \<exists>pre b post. bs = pre @ b # post \<and> is_free b \<and> blk_off b = x \<and> frees pre = xs \<and> frees post = ys"
proof (induction bs arbitrary: xs)
  case (Cons c bs)
  show ?case
  proof (cases "is_free c \<and> xs = []")
    case True
    then show ?thesis using Cons.prems by (intro exI [of _ "[]"] exI [of _ c] exI [of _ bs]) auto
  next
    case False
    then obtain zs where "frees bs = zs @ x # ys" "xs = (if is_free c then blk_off c # zs else zs)"
      using Cons.prems by (cases xs) (auto split: if_splits)
    then obtain pre b post where "bs = pre @ b # post" "is_free b" "blk_off b = x" "frees pre = zs" "frees post = ys"
      using Cons.IH by blast
    then show ?thesis using \<open>xs = _\<close> by (intro exI [of _ "c # pre"] exI [of _ b] exI [of _ post]) auto
  qed
qed simp

subsection \<open>Frames\<close>

lemma block_ok_frame:
  assumes "block_ok sp m b"
    and "\<And>x. span_base sp + blk_off b \<le> x \<Longrightarrow> x < span_base sp + blk_off b + blk_span b \<Longrightarrow> m' x = m x"
  shows "block_ok sp m' b"
proof -
  have "read_word m' (span_base sp + blk_off b) = read_word m (span_base sp + blk_off b)"
    using assms by (intro read_word_cong) (auto simp: block_ok_def)
  moreover have "read_word m' (p - 8) = read_word m (p - 8)" if "blk_live b = Some (p, n)" for p n
    using assms that by (intro read_word_cong) (auto simp: block_ok_def)
  ultimately show ?thesis using assms(1) by (auto simp: block_ok_def split: option.splits)
qed

text \<open>A free block only needs its span; the next field may change.\<close>

lemma block_ok_frame_free:
  assumes "block_ok sp m b" and "is_free b"
    and "\<And>x. span_base sp + blk_off b \<le> x \<Longrightarrow> x < span_base sp + blk_off b + 8 \<Longrightarrow> m' x = m x"
  shows "block_ok sp m' b"
proof -
  have "read_word m' (span_base sp + blk_off b) = read_word m (span_base sp + blk_off b)"
    using assms by (intro read_word_cong) auto
  then show ?thesis using assms(1,2) by (simp add: block_ok_def)
qed

lemma chain_cong: "(\<And>y. y \<in> set ys \<Longrightarrow> nx y = nx' y) \<Longrightarrow> chain nx x ys \<longleftrightarrow> chain nx' x ys"
  by (induction ys arbitrary: x) auto

text \<open>Changing one link replaces the rest of the list.\<close>

lemma chain_relink:
  assumes "chain nx x (xs @ ys)" and "chain nx' r zs" and "\<And>y. y \<in> set xs \<Longrightarrow> nx' y = (if y = last xs then r else nx y)"
    and "distinct xs"
  shows "chain nx' (if xs = [] then r else x) (xs @ zs)"
  using assms
proof (induction xs arbitrary: x)
  case (Cons y xs)
  show ?case
  proof (cases "xs = []")
    case True
    then show ?thesis using Cons.prems by auto
  next
    case False
    have "chain nx' (if xs = [] then r else nx y) (xs @ zs)"
      using Cons.prems False by (intro Cons.IH) auto
    moreover have "nx' y = nx y" using Cons.prems(3) [of y] Cons.prems(4) False by auto
    ultimately show ?thesis using Cons.prems(1) False by simp
  qed
qed simp

end
