(* ===== verification/Tool_Heap_Ops.thy ===== *)
theory Tool_Heap_Ops
  imports Tool_Heap_Blocks
begin

text \<open>
  The operations of the heap on its list of blocks: a change of neighbouring blocks in place, the two
  walks along the free list, and what allocation and deallocation do to the list.
\<close>

section \<open>Changing neighbours in place\<close>

lemma tiles_sorted: "tiles a bs e \<Longrightarrow> list_all (\<lambda>b. 0 < blk_span b) bs \<Longrightarrow> sorted_wrt (<) (map blk_off bs)"
proof (induction bs arbitrary: a)
  case (Cons b bs)
  then have "a + blk_span b \<le> blk_off c" if "c \<in> set bs" for c using tiles_range that by fastforce
  then show ?case using Cons by fastforce
qed simp

lemma sorted_frees: "sorted_wrt (<) (map blk_off bs) \<Longrightarrow> sorted_wrt (<) (frees bs)"
  by (simp add: frees_def sorted_wrt_map sorted_wrt_filter)

lemma sorted_wrt_less_distinct: "sorted_wrt (<) xs \<Longrightarrow> distinct xs" for xs :: "nat list"
  by (induction xs) auto

lemma tiled_spans: "heap_tiled sp h bs \<Longrightarrow> list_all (\<lambda>b. 0 < blk_span b) bs"
  by (auto simp: heap_tiled_def list_all_iff block_ok_def)

lemma tiled_sorted: "heap_tiled sp h bs \<Longrightarrow> sorted_wrt (<) (frees bs)"
  using tiled_spans tiles_sorted sorted_frees by (metis heap_tiled_def)

lemma tiles_disjoint:
  assumes "tiles a bs e" and "c \<in> set bs" and "d \<in> set bs" and "blk_off c \<noteq> blk_off d"
  shows "blk_off c + blk_span c \<le> blk_off d \<or> blk_off d + blk_span d \<le> blk_off c"
  using assms
proof (induction bs arbitrary: a)
  case (Cons b bs)
  then show ?case using tiles_range [of "a + blk_span b" bs e] by auto
qed simp

lemma heap_replace:
  assumes ok: "heap_tiled sp h (pre @ mid @ post)"
    and tiles_mid: "tiles o1 mid o2" "mid \<noteq> []" and tiles_new: "tiles o1 new o2"
    and same_next: "heap_next h' = heap_next h"
    and frame: "\<And>x. x < span_base sp + o1 \<or> span_base sp + o2 \<le> x \<Longrightarrow>
      frees pre = [] \<or> x < span_base sp + last (frees pre) + 8 \<or> span_base sp + last (frees pre) + 16 \<le> x \<Longrightarrow>
      heap_mem h' x = heap_mem h x"
    and link: "if frees pre = [] then heap_free h' = r
      else heap_free h' = heap_free h \<and> block_next sp h' (last (frees pre)) = r"
    and new_ok: "list_all (block_ok sp (heap_mem h')) new"
    and rest: "chain (block_next sp h') r (frees new @ frees post)"
  shows "heap_tiled sp h' (pre @ new @ post)"
proof -
  let ?B = "span_base sp" and ?m = "heap_mem h" and ?m' = "heap_mem h'" and ?xs = "frees pre"
  from ok have tl: "tiles 8 (pre @ mid @ post) (heap_end h)" and
    blocks: "list_all (block_ok sp ?m) (pre @ mid @ post)" and
    ch: "chain (block_next sp h) (heap_free h) (?xs @ frees mid @ frees post)"
    by (simp_all add: heap_tiled_def)
  have start: "\<And>o3. tiles o3 mid o4 \<Longrightarrow> o3 = o1" for o4 using tiles_mid by (cases mid) auto
  have "\<And>o4. tiles o1 mid o4 \<Longrightarrow> o4 = o2"
  proof -
    have "tiles a bs e \<Longrightarrow> tiles a bs e' \<Longrightarrow> e = e'" for a bs e e'
      by (induction bs arbitrary: a) auto
    then show "\<And>o4. tiles o1 mid o4 \<Longrightarrow> o4 = o2" using tiles_mid(1) by blast
  qed
  with tl start have tp: "tiles 8 pre o1" and tq: "tiles o2 post (heap_end h)"
    by (auto simp: tiles_append)
  have le: "o1 \<le> o2" by (rule tiles_le [OF tiles_mid(1)])
  have pre_range: "c \<in> set pre \<Longrightarrow> blk_off c + blk_span c \<le> o1" for c using tiles_range [OF tp] by blast
  have post_range: "c \<in> set post \<Longrightarrow> o2 \<le> blk_off c" for c using tiles_range [OF tq] by blast
  have big: "c \<in> set (pre @ post) \<Longrightarrow> block_ok sp ?m c \<and> 32 \<le> blk_span c" for c
    using blocks by (auto simp: list_all_iff block_ok_def)
  have last_block: "\<exists>d \<in> set pre. is_free d \<and> blk_off d = last ?xs" if "?xs \<noteq> []"
    using that last_in_set [OF that] by (simp add: in_frees)
  have outside: "?m' x = ?m x" if "c \<in> set pre" "blk_off c \<noteq> last ?xs \<or> ?xs = []" 
      "?B + blk_off c \<le> x" "x < ?B + blk_off c + blk_span c" for c x
  proof (rule frame)
    show "x < ?B + o1 \<or> ?B + o2 \<le> x" using that pre_range by force
    show "?xs = [] \<or> x < ?B + last ?xs + 8 \<or> ?B + last ?xs + 16 \<le> x"
    proof (cases "?xs = []")
      case False
      then obtain d where d: "d \<in> set pre" "blk_off d = last ?xs" using last_block by blast
      then have "blk_off c + blk_span c \<le> blk_off d \<or> blk_off d + blk_span d \<le> blk_off c"
        using tiles_disjoint [OF tp that(1) d(1)] that(2) False by auto
      then show ?thesis using d big [of d] that(3,4) by auto
    qed simp
  qed
  have pre_ok: "block_ok sp ?m' c" if c: "c \<in> set pre" for c
  proof (cases "?xs \<noteq> [] \<and> blk_off c = last ?xs")
    case False
    have "block_ok sp ?m c" using big c by simp
    then show ?thesis by (rule block_ok_frame) (use False outside [OF c] in auto)
  next
    case True
    then obtain d where d: "d \<in> set pre" "is_free d" "blk_off d = blk_off c" using last_block by auto
    have "c = d"
    proof (rule ccontr)
      assume "c \<noteq> d"
      have "distinct (map blk_off pre)"
        using sorted_wrt_less_distinct tiles_sorted [OF tp] big by (simp add: list_all_iff) (metis Un_iff less_le_trans zero_less_numeral)
      then show False using c d \<open>c \<noteq> d\<close> by (simp add: distinct_map inj_on_def)
    qed
    then have "is_free c" using d by simp
    then show ?thesis
    proof (rule block_ok_frame_free [rotated])
      show "block_ok sp ?m c" using big c by simp
      fix x assume "?B + blk_off c \<le> x" "x < ?B + blk_off c + 8"
      then show "?m' x = ?m x" using True pre_range [OF c] big [of c] c by (intro frame) auto
    qed
  qed
  have post_free: "?m' x = ?m x" if "c \<in> set post" "?B + blk_off c \<le> x" for c x
  proof (rule frame)
    show "x < ?B + o1 \<or> ?B + o2 \<le> x" using that post_range by force
    show "?xs = [] \<or> x < ?B + last ?xs + 8 \<or> ?B + last ?xs + 16 \<le> x"
      using that last_block pre_range post_range big le by fastforce
  qed
  have post_ok: "block_ok sp ?m' c" if "c \<in> set post" for c
  proof -
    have "block_ok sp ?m c" using big that by simp
    then show ?thesis by (rule block_ok_frame) (use post_free [OF that] in auto)
  qed
  have pre_next: "block_next sp h' y = (if y = last ?xs then r else block_next sp h y)" if "y \<in> set ?xs" for y
  proof (cases "y = last ?xs")
    case False
    from that obtain c where c: "c \<in> set pre" "blk_off c = y" by (auto simp: in_frees)
    have "read_word ?m' (?B + y + 8) = read_word ?m (?B + y + 8)"
      using c False big [of c] outside [OF c(1)] by (intro read_word_cong) auto
    then show ?thesis using False by (simp add: block_next_def)
  qed (use link that in \<open>auto split: if_splits\<close>)
  have "distinct ?xs"
    using sorted_wrt_less_distinct tiled_sorted [OF ok] by (simp add: sorted_wrt_append)
  then have "chain (block_next sp h') (if ?xs = [] then r else heap_free h) (?xs @ frees new @ frees post)"
    using chain_relink [OF ch rest pre_next] by blast
  moreover have "heap_free h' = (if ?xs = [] then r else heap_free h)" using link by (auto split: if_splits)
  moreover have "tiles 8 (pre @ new @ post) (heap_end h')"
    using tp tiles_new tq same_next by (auto simp: tiles_append heap_end_def)
  moreover have "list_all (block_ok sp ?m') (pre @ new @ post)"
    using pre_ok post_ok new_ok by (auto simp: list_all_iff)
  ultimately show ?thesis using ok same_next by (simp add: heap_tiled_def)
qed

section \<open>The walks\<close>

fun pick :: "(nat \<Rightarrow> 'f option) \<Rightarrow> nat \<Rightarrow> nat list \<Rightarrow> (nat \<times> nat \<times> 'f) option" where
  "pick f previous [] = None"
| "pick f previous (x # xs) = (case f x of Some r \<Rightarrow> Some (previous, x, r) | None \<Rightarrow> pick f x xs)"

lemma first_fit_chain:
  "chain (block_next sp h) x xs \<Longrightarrow> 0 \<notin> set xs \<Longrightarrow>
     first_fit sp l h previous x = Some (pick (\<lambda>y. fits sp y (block_span sp h y) l) previous xs)"
proof (induction xs arbitrary: previous x)
  case Nil
  then show ?case by (subst first_fit.simps) simp
next
  case (Cons y ys)
  then show ?case by (subst first_fit.simps) (auto split: option.split)
qed

lemma pick_Some:
  "pick f previous xs = Some (q, x, r) \<Longrightarrow>
     \<exists>ys zs. xs = ys @ x # zs \<and> q = last (previous # ys) \<and> f x = Some r \<and> list_all (\<lambda>y. f y = None) ys"
proof (induction xs arbitrary: previous)
  case (Cons y xs)
  show ?case
  proof (cases "f y")
    case None
    with Cons obtain ys zs where "xs = ys @ x # zs" "q = last (y # ys)" "f x = Some r" "list_all (\<lambda>y. f y = None) ys"
      by force
    then show ?thesis using None by (intro exI [of _ "y # ys"] exI [of _ zs]) auto
  next
    case (Some r')
    then show ?thesis using Cons.prems by (intro exI [of _ "[]"] exI [of _ xs]) auto
  qed
qed simp

lemma pick_None: "pick f previous xs = None \<longleftrightarrow> list_all (\<lambda>y. f y = None) xs"
  by (induction xs arbitrary: previous) (auto split: option.splits)

definition first_or_end :: "nat list \<Rightarrow> nat" where
  "first_or_end xs = (case xs of [] \<Rightarrow> 0 | x # _ \<Rightarrow> x)"

lemma chain_first: "chain nx x xs \<Longrightarrow> x = first_or_end xs"
  by (cases xs) (auto simp: first_or_end_def)

lemma find_place_chain:
  "chain (block_next sp h) x (xs @ ys) \<Longrightarrow> 0 \<notin> set xs \<Longrightarrow> list_all (\<lambda>y. y < t) xs \<Longrightarrow> list_all (\<lambda>y. t \<le> y) ys \<Longrightarrow>
     find_place sp h t previous x = Some (last (previous # xs), first_or_end ys)"
proof (induction xs arbitrary: previous x)
  case Nil
  then have "x = first_or_end ys" using chain_first by simp
  with Nil show ?case by (subst find_place.simps) (cases ys, auto simp: first_or_end_def)
next
  case (Cons y xs)
  then show ?case by (subst find_place.simps) auto
qed

lemma chain_rest: "chain nx x (xs @ y # ys) \<Longrightarrow> chain nx (nx y) ys"
  by (induction xs arbitrary: x) auto

section \<open>Memory of an operation\<close>

lemma set_word_simps [simp]:
  "heap_mem (set_word a v h) = write_word a v (heap_mem h)"
  "heap_next (set_word a v h) = heap_next h" "heap_free (set_word a v h) = heap_free h"
  by (simp_all add: set_word_def)

lemma set_link_simps:
  "heap_next (set_link sp q v h) = heap_next h"
  "heap_free (set_link sp q v h) = (if q = 0 then v else heap_free h)"
  "heap_mem (set_link sp q v h) = (if q = 0 then heap_mem h else write_word (span_base sp + q + 8) v (heap_mem h))"
  by (simp_all add: set_link_def set_next_def)

lemma write_word_outside: "x < a \<or> a + 8 \<le> x \<Longrightarrow> write_word a v m x = m x"
  by (auto simp: write_word_def)

lemma tiled_bounds:
  assumes "heap_tiled sp h bs" and "b \<in> set bs"
  shows "8 \<le> blk_off b" "blk_off b + blk_span b \<le> span_bytes sp" "blk_off b + blk_span b < 2 ^ 64"
    "32 \<le> blk_span b" "blk_off b mod 8 = 0" "blk_span b mod 8 = 0" "block_ok sp (heap_mem h) b"
proof -
  from assms have ok: "block_ok sp (heap_mem h) b" by (auto simp: heap_tiled_def list_all_iff)
  then show "32 \<le> blk_span b" "blk_off b mod 8 = 0" "blk_span b mod 8 = 0" "block_ok sp (heap_mem h) b"
    by (auto simp: block_ok_def)
  have r: "8 \<le> blk_off b \<and> blk_off b + blk_span b \<le> heap_end h"
    using assms tiles_range by (auto simp: heap_tiled_def)
  then show "8 \<le> blk_off b" by simp
  have "heap_end h \<le> span_bytes sp"
    using r ok assms(1) by (auto simp: heap_end_def heap_tiled_def block_ok_def max_def split: if_splits)
  then show "blk_off b + blk_span b \<le> span_bytes sp" using r by simp
  then show "blk_off b + blk_span b < 2 ^ 64" using assms(1) by (auto simp: heap_tiled_def span_ok_def)
qed

lemma frees_nonzero: "heap_tiled sp h bs \<Longrightarrow> 0 \<notin> set (frees bs)"
  using tiled_bounds(1) by (fastforce simp: in_frees)

lemma coalesced_Cons: "coalesced (b # bs) \<longleftrightarrow> coalesced bs \<and> (bs = [] \<or> \<not> (is_free b \<and> is_free (hd bs)))"
  by (cases bs) auto

lemma coalesced_append:
  "coalesced (bs @ cs) \<longleftrightarrow>
     coalesced bs \<and> coalesced cs \<and> (bs = [] \<or> cs = [] \<or> \<not> (is_free (last bs) \<and> is_free (hd cs)))"
  by (induction bs) (auto simp: coalesced_Cons)

section \<open>Allocation on blocks\<close>

definition carve :: "Layout \<Rightarrow> usize \<times> usize \<times> usize \<Rightarrow> block \<Rightarrow> block list" where
  "carve l f b =
     (case f of (p, e, block_end) \<Rightarrow>
        if block_end - e \<ge> 32
        then [b\<lparr>blk_span := e - blk_off b, blk_live := Some (p, lay_size l)\<rparr>,
              \<lparr>blk_off = e, blk_span = block_end - e, blk_live = None\<rparr>]
        else [b\<lparr>blk_live := Some (p, lay_size l)\<rparr>])"

lemma fits_facts:
  assumes "fits sp off s l = Some (p, e, e')"
  shows "e' = off + s" "layout_end sp off l = Some (p, e)" "e \<le> off + s"
  using assms by (auto simp: fits_def bind_eq_Some_conv usize_add_Some split: if_splits)

lemma take_block_frame:
  assumes "span_ok sp" and "layout_ok l" and fit: "fits sp off s l = Some f" and "off mod 8 = 0"
    and x: "x < span_base sp + off \<or> span_base sp + (off + s) \<le> x"
      "xs = [] \<or> x < span_base sp + last xs + 8 \<or> span_base sp + last xs + 16 \<le> x"
  shows "heap_mem (take_block sp (last (0 # xs)) off f h) x = heap_mem h x"
proof -
  obtain p e e' where f: "f = (p, e, e')" by (cases f)
  note ff = fits_facts [OF fit [unfolded f]]
  note le = layout_end_facts [OF assms(1,2) ff(2) assms(4)]
  have same: "heap_mem (set_link sp (last (0 # xs)) v h1) x = heap_mem h1 x" for v h1
    using x(2) by (cases "xs = []") (auto simp: set_link_simps intro!: write_word_outside)
  have p: "x < p - 8 \<or> p - 8 + 8 \<le> x" using x(1) le ff(3) by auto
  show ?thesis
  proof (cases "e' - e \<ge> 32")
    case True
    then have "e + 32 \<le> off + s" using ff by simp
    then show ?thesis using True x(1) le p same
      by (auto simp: take_block_def f set_span_def write_block_def set_next_def write_word_outside)
  next
    case False
    then show ?thesis using p same by (simp add: take_block_def f write_word_outside)
  qed
qed

lemma take_block_tiled:
  assumes ok: "heap_tiled sp h (pre @ b # post)" and free: "is_free b" and l: "layout_ok l"
    and fit: "fits sp (blk_off b) (blk_span b) l = Some f"
  shows "heap_tiled sp (take_block sp (last (0 # frees pre)) (blk_off b) f h) (pre @ carve l f b @ post)"
proof -
  let ?B = "span_base sp" and ?o = "blk_off b" and ?s = "blk_span b" and ?q = "last (0 # frees pre)"
  obtain p e e' where f: "f = (p, e, e')" by (cases f)
  note ff = fits_facts [OF fit [unfolded f]]
  have bb: "b \<in> set (pre @ b # post)" by simp
  note bounds = tiled_bounds [OF ok bb]
  have sp: "span_ok sp" using ok by (simp add: heap_tiled_def)
  note le = layout_end_facts [OF sp l ff(2) bounds(5)]
  let ?nxt = "block_next sp h ?o"
  have tb: "tiles 8 (pre @ b # post) (heap_end h)" using ok by (simp add: heap_tiled_def)
  have ch: "chain (block_next sp h) (heap_free h) (frees pre @ ?o # frees post)"
    using ok free by (simp add: heap_tiled_def)
  have nxt: "chain (block_next sp h) ?nxt (frees post)" using chain_rest [OF ch] .
  have nxt_small: "?nxt < 2 ^ 64"
  proof (cases "frees post")
    case Nil
    then show ?thesis using nxt by simp
  next
    case (Cons x xs)
    then obtain c where "c \<in> set post" "blk_off c = x" by (metis in_frees list.set_intros(1))
    then have "x < 2 ^ 64" using tiled_bounds(3) [OF ok, of c] by auto
    then show ?thesis using nxt Cons by simp
  qed
  have q_pre: "?q = 0 \<longleftrightarrow> frees pre = []"
  proof (cases "frees pre = []")
    case False
    then have "last (frees pre) \<in> set (frees pre)" by simp
    then show ?thesis using frees_nonzero [OF ok] False by (metis Un_iff frees_append last_ConsR set_append)
  qed simp
  have q_range: "?q + 32 \<le> ?o" if ne: "frees pre \<noteq> []"
  proof -
    from ne obtain c where c: "c \<in> set pre" "blk_off c = ?q"
      using last_in_set [OF ne] by (auto simp: in_frees)
    then show ?thesis using tiles_split(3) [OF tb c(1)] tiled_bounds(4) [OF ok, of c] by auto
  qed
  have post_range: "x \<in> set (frees post) \<Longrightarrow> ?o + ?s \<le> x" for x
    using tiles_split(4) [OF tb] by (auto simp: in_frees)
  show ?thesis
  proof (cases "e' - e \<ge> 32")
    case split: True
    then have room: "e + 32 \<le> ?o + ?s" using ff by simp
    let ?h1 = "set_span sp ?o (e - ?o) (write_block sp e (e' - e) ?nxt h)"
    let ?h' = "set_word (p - 8) ?o (set_link sp ?q e ?h1)"
    have h': "take_block sp ?q ?o f h = ?h'" using split by (simp add: take_block_def f)
    let ?new = "[b\<lparr>blk_span := e - ?o, blk_live := Some (p, lay_size l)\<rparr>,
        \<lparr>blk_off = e, blk_span = e' - e, blk_live = None\<rparr>]"
    have new: "carve l f b = ?new" using split by (simp add: carve_def f)
    have "heap_tiled sp ?h' (pre @ ?new @ post)"
    proof (rule heap_replace [where mid = "[b]" and ?o1.0 = ?o and ?o2.0 = "?o + ?s" and r = e])
      show "heap_tiled sp h (pre @ [b] @ post)" using ok by simp
    next
      show "tiles ?o ?new (?o + ?s)" using ff(1) room le by simp
    next
      fix x assume "x < ?B + ?o \<or> ?B + (?o + ?s) \<le> x"
        "frees pre = [] \<or> x < ?B + last (frees pre) + 8 \<or> ?B + last (frees pre) + 16 \<le> x"
      then show "heap_mem ?h' x = heap_mem h x"
        unfolding h' [symmetric] using take_block_frame [OF sp l fit bounds(5)] by simp
    next
      show "if frees pre = [] then heap_free ?h' = e
        else heap_free ?h' = heap_free h \<and> block_next sp ?h' (last (frees pre)) = e"
        using q_pre q_range le ff(1) room bounds
        by (auto simp: set_link_simps set_span_def write_block_def set_next_def block_next_def)
    next
      show "list_all (block_ok sp (heap_mem ?h')) ?new"
        using le ff(1) room bounds q_range q_pre
        by (auto simp: block_ok_def set_link_simps set_span_def write_block_def set_next_def mod_eq_0_iff_dvd intro!: dvd_diff_nat)
    next
      have "block_next sp ?h' x = block_next sp h x" if "x \<in> set (frees post)" for x
        using post_range [OF that] le ff(1) room bounds q_range q_pre
        by (auto simp: block_next_def set_link_simps set_span_def write_block_def set_next_def)
      then have "chain (block_next sp ?h') ?nxt (frees post)" by (rule chain_cong [THEN iffD2, OF _ nxt])
      moreover have "block_next sp ?h' e = ?nxt"
        using le ff(1) room bounds q_range q_pre nxt_small
        by (auto simp: block_next_def set_link_simps set_span_def write_block_def set_next_def)
      ultimately show "chain (block_next sp ?h') e (frees ?new @ frees post)" by simp
    qed (simp_all add: set_link_simps set_span_def write_block_def set_next_def)
    then show ?thesis using h' new by simp
  next
    case whole: False
    let ?h' = "set_word (p - 8) ?o (set_link sp ?q ?nxt h)"
    have h': "take_block sp ?q ?o f h = ?h'" using whole by (simp add: take_block_def f)
    let ?new = "[b\<lparr>blk_live := Some (p, lay_size l)\<rparr>]"
    have new: "carve l f b = ?new" using whole by (simp add: carve_def f)
    have "heap_tiled sp ?h' (pre @ ?new @ post)"
    proof (rule heap_replace [where mid = "[b]" and ?o1.0 = ?o and ?o2.0 = "?o + ?s" and r = ?nxt])
      show "heap_tiled sp h (pre @ [b] @ post)" using ok by simp
    next
      fix x assume "x < ?B + ?o \<or> ?B + (?o + ?s) \<le> x"
        "frees pre = [] \<or> x < ?B + last (frees pre) + 8 \<or> ?B + last (frees pre) + 16 \<le> x"
      then show "heap_mem ?h' x = heap_mem h x"
        unfolding h' [symmetric] using take_block_frame [OF sp l fit bounds(5)] by simp
    next
      show "if frees pre = [] then heap_free ?h' = ?nxt
        else heap_free ?h' = heap_free h \<and> block_next sp ?h' (last (frees pre)) = ?nxt"
        using q_pre q_range le ff bounds nxt_small by (auto simp: set_link_simps block_next_def)
    next
      show "list_all (block_ok sp (heap_mem ?h')) ?new"
        using le ff bounds q_range q_pre by (auto simp: block_ok_def set_link_simps)
    next
      have "block_next sp ?h' x = block_next sp h x" if "x \<in> set (frees post)" for x
        using post_range [OF that] le ff bounds q_range q_pre by (auto simp: block_next_def set_link_simps)
      then have "chain (block_next sp ?h') ?nxt (frees post)" by (rule chain_cong [THEN iffD2, OF _ nxt])
      then show "chain (block_next sp ?h') ?nxt (frees ?new @ frees post)" by simp
    qed (simp_all add: set_link_simps)
    then show ?thesis using h' new by simp
  qed
qed

end
