(* ===== verification/Tool_Heap_Live.thy ===== *)
theory Tool_Heap_Live
  imports Tool_Heap_Ops "HOL-Library.Multiset"
begin

text \<open>
  What the heap's operations promise: allocation is first fit over the list of blocks, deallocation
  frees a block and joins it with its free neighbours, and both leave every live payload alone.
\<close>

section \<open>Live payloads\<close>

definition lives :: "block list \<Rightarrow> (nat \<times> nat) list" where
  "lives bs = map (the \<circ> blk_live) (filter (\<lambda>b. \<not> is_free b) bs)"

lemma lives_simps [simp]:
  "lives [] = []" "lives (bs @ cs) = lives bs @ lives cs"
  "lives (b # bs) = (case blk_live b of None \<Rightarrow> lives bs | Some a \<Rightarrow> a # lives bs)"
  by (auto simp: lives_def split: option.split)

lemma in_lives: "a \<in> set (lives bs) \<longleftrightarrow> (\<exists>b \<in> set bs. blk_live b = Some a)"
  by (force simp: lives_def)

text \<open>The bytes of some payloads are the same in two memories, and so is all that is not the arena.\<close>

definition kept :: "ToolHeapSpan \<Rightarrow> memory \<Rightarrow> memory \<Rightarrow> (nat \<times> nat) list \<Rightarrow> bool" where
  "kept sp m m' ps \<longleftrightarrow>
     (\<forall>(p, n) \<in> set ps. \<forall>x. p \<le> x \<and> x < p + n \<longrightarrow> m' x = m x)
     \<and> (\<forall>x. \<not> contains_pointer sp x \<longrightarrow> m' x = m x)"

lemma kept_refl [simp]: "kept sp m m ps"
  by (auto simp: kept_def)

lemma kept_trans: "kept sp m m' ps \<Longrightarrow> kept sp m' m'' ps \<Longrightarrow> kept sp m m'' ps"
  unfolding kept_def by fastforce

lemma kept_subset: "kept sp m m' ps \<Longrightarrow> set qs \<subseteq> set ps \<Longrightarrow> kept sp m m' qs"
  unfolding kept_def by blast

lemma live_range:
  assumes "heap_tiled sp h bs" and "b \<in> set bs" and "blk_live b = Some (p, n)"
  shows "span_base sp + blk_off b + 24 \<le> p" "p + n \<le> span_base sp + blk_off b + blk_span b"
    "read_word (heap_mem h) (p - 8) = blk_off b"
  using tiled_bounds(7) [OF assms(1,2)] assms(3) by (auto simp: block_ok_def)

lemma live_bounds:
  assumes ok: "heap_tiled sp h bs" and "(p, n) \<in> set (lives bs)"
  shows "span_base sp + 32 \<le> p \<and> p + n \<le> span_base sp + heap_end h"
proof -
  from assms(2) obtain b where b: "b \<in> set bs" "blk_live b = Some (p, n)" by (auto simp: in_lives)
  have "tiles 8 bs (heap_end h)" using ok by (simp add: heap_tiled_def)
  from tiles_range [OF this b(1)] live_range [OF ok b] show ?thesis by simp
qed

lemma tiled_kept:
  assumes ok: "heap_tiled sp h (pre @ mid @ post)"
    and tp: "tiles 8 pre o1" and tq: "tiles o2 post e" and le: "o1 \<le> o2" "o2 \<le> span_bytes sp"
    and frame: "\<And>x. x < span_base sp + o1 \<or> span_base sp + o2 \<le> x \<Longrightarrow>
      frees pre = [] \<or> x < span_base sp + last (frees pre) + 8 \<or> span_base sp + last (frees pre) + 16 \<le> x \<Longrightarrow>
      m' x = heap_mem h x"
  shows "kept sp (heap_mem h) m' (lives (pre @ post))"
proof -
  have "m' x = heap_mem h x" if a: "(p, n) \<in> set (lives (pre @ post))" and x: "p \<le> x" "x < p + n" for p n x
  proof -
    from a obtain c where c: "c \<in> set pre \<or> c \<in> set post" "blk_live c = Some (p, n)" by (auto simp: in_lives)
    then have "c \<in> set (pre @ mid @ post)" by auto
    note r = live_range [OF ok this c(2)]
    have side: "c \<in> set pre \<and> blk_off c + blk_span c \<le> o1 \<or> c \<in> set post \<and> o2 \<le> blk_off c"
      using c(1) tiles_range [OF tp] tiles_range [OF tq] by blast
    show ?thesis
    proof (rule frame)
      show "x < span_base sp + o1 \<or> span_base sp + o2 \<le> x" using side r x by auto
      show "frees pre = [] \<or> x < span_base sp + last (frees pre) + 8 \<or> span_base sp + last (frees pre) + 16 \<le> x"
      proof (cases "frees pre = []")
        case False
        then obtain d where d: "d \<in> set pre" "blk_off d = last (frees pre)" using last_in_set in_frees by metis
        have "32 \<le> blk_span d" using tiled_bounds(4) [OF ok, of d] d by simp
        moreover have "blk_off d + blk_span d \<le> o1" using tiles_range [OF tp d(1)] by simp
        moreover have "blk_off c = blk_off d \<or> blk_off c + blk_span c \<le> blk_off d \<or> blk_off d + blk_span d \<le> blk_off c"
          if "c \<in> set pre" using tiles_disjoint [OF tp that d(1)] by blast
        ultimately show ?thesis using side r x d(2) le(1) by auto
      qed simp
    qed
  qed
  moreover have "m' x = heap_mem h x" if x: "\<not> contains_pointer sp x" for x
  proof (rule frame)
    show "x < span_base sp + o1 \<or> span_base sp + o2 \<le> x" using x le by (auto simp: contains_pointer_def)
    show "frees pre = [] \<or> x < span_base sp + last (frees pre) + 8 \<or> span_base sp + last (frees pre) + 16 \<le> x"
    proof (cases "frees pre = []")
      case False
      then obtain d where d: "d \<in> set pre" "blk_off d = last (frees pre)" using last_in_set in_frees by metis
      then show ?thesis using tiled_bounds(2,4) [OF ok, of d] x by (auto simp: contains_pointer_def)
    qed simp
  qed
  ultimately show ?thesis by (auto simp: kept_def)
qed

section \<open>Allocation\<close>

text \<open>First fit over the blocks, and a fresh block at the end when none fits.\<close>

fun place :: "ToolHeapSpan \<Rightarrow> Layout \<Rightarrow> block list \<Rightarrow> (usize \<times> block list) option" where
  "place sp l [] = None"
| "place sp l (b # bs) =
     (case (if is_free b then fits sp (blk_off b) (blk_span b) l else None) of
        Some f \<Rightarrow> Some (fst f, carve l f b @ bs)
      | None \<Rightarrow> map_option (\<lambda>(p, cs). (p, b # cs)) (place sp l bs))"

definition fresh_block :: "usize \<Rightarrow> usize \<Rightarrow> Layout \<Rightarrow> usize \<Rightarrow> block" where
  "fresh_block off e l p = \<lparr>blk_off = off, blk_span = e - off, blk_live = Some (p, lay_size l)\<rparr>"

definition allocate_spec :: "ToolHeapSpan \<Rightarrow> Layout \<Rightarrow> usize \<Rightarrow> block list \<Rightarrow> usize option \<times> block list" where
  "allocate_spec sp l off bs =
     (case place sp l bs of
        Some (p, cs) \<Rightarrow> (Some p, cs)
      | None \<Rightarrow>
          (case layout_end sp off l of
             None \<Rightarrow> (None, bs)
           | Some (p, e) \<Rightarrow> if e \<le> span_bytes sp then (Some p, bs @ [fresh_block off e l p]) else (None, bs)))"

lemma place_at:
  "list_all (\<lambda>b. is_free b \<longrightarrow> fits sp (blk_off b) (blk_span b) l = None) pre \<Longrightarrow>
     place sp l (pre @ bs) = map_option (\<lambda>(p, cs). (p, pre @ cs)) (place sp l bs)"
  by (cases "place sp l bs"; induction pre) (auto split: option.split)

lemma place_none:
  "list_all (\<lambda>b. is_free b \<longrightarrow> fits sp (blk_off b) (blk_span b) l = None) bs \<Longrightarrow> place sp l bs = None"
  using place_at [of sp l bs "[]"] by simp

lemma block_span_eq: "heap_tiled sp h bs \<Longrightarrow> b \<in> set bs \<Longrightarrow> block_span sp h (blk_off b) = blk_span b"
  using tiled_bounds(7) by (simp add: block_span_def block_ok_def)

text \<open>A fresh block goes after all the others.\<close>

lemma heap_extend:
  assumes ok: "heap_tiled sp h bs" and "heap_next h' = e" "e mod 8 = 0" "e \<le> span_bytes sp" "heap_end h + 32 \<le> e"
    and free: "heap_free h' = heap_free h"
    and frame: "\<And>x. x < span_base sp + heap_end h \<Longrightarrow> heap_mem h' x = heap_mem h x"
    and b: "blk_off b = heap_end h" "blk_span b = e - heap_end h" "block_ok sp (heap_mem h') b" "\<not> is_free b"
  shows "heap_tiled sp h' (bs @ [b])"
proof -
  have tl: "tiles 8 bs (heap_end h)" using ok by (simp add: heap_tiled_def)
  have range: "c \<in> set bs \<Longrightarrow> blk_off c + blk_span c \<le> heap_end h" for c using tiles_range [OF tl] by blast
  have blocks: "block_ok sp (heap_mem h') c" if "c \<in> set bs" for c
    by (rule block_ok_frame [OF tiled_bounds(7) [OF ok that]]) (use range [OF that] frame in auto)
  have "block_next sp h' y = block_next sp h y" if "y \<in> set (frees bs)" for y
  proof -
    from that obtain c where c: "c \<in> set bs" "blk_off c = y" by (auto simp: in_frees)
    show ?thesis unfolding block_next_def
      using c range [OF c(1)] tiled_bounds(4) [OF ok c(1)] by (intro read_word_cong frame) auto
  qed
  moreover have "chain (block_next sp h) (heap_free h) (frees bs)" using ok by (simp add: heap_tiled_def)
  ultimately have "chain (block_next sp h') (heap_free h) (frees bs)" using chain_cong [of "frees bs"] by blast
  moreover have "heap_end h' = e" using assms(2,5) by (simp add: heap_end_def)
  ultimately show ?thesis using assms blocks tl
    by (auto simp: heap_tiled_def list_all_iff tiles_append)
qed

lemma cursor_aligned:
  assumes "heap_tiled sp h bs"
  shows "align_up (max (heap_next h) 1) 8 = Some (heap_end h)
    \<or> align_up (max (heap_next h) 1) 8 = None \<and> layout_end sp (heap_end h) l = None"
proof -
  have m: "heap_next h mod 8 = 0" "heap_next h < 2 ^ 64"
    using assms by (auto simp: heap_tiled_def span_ok_def)
  let ?v = "max (heap_next h) 1"
  have e: "(?v + 7) div 8 * 8 = heap_end h" using m(1) by (simp add: heap_end_def max_def) presburger
  have "?v < 2 ^ 64" using m(2) by simp
  from align_up_eq [of 3, OF _ this] e
  have "align_up ?v 8 = (if ?v + 7 < 2 ^ 64 then Some (heap_end h) else None)" by simp
  moreover have "layout_end sp (heap_end h) l = None" if "\<not> ?v + 7 < 2 ^ 64"
    using that by (auto simp: layout_end_def heap_end_def usize_add_def max_def split: if_splits)
  ultimately show ?thesis by (auto split: if_splits)
qed

lemma bump_none:
  assumes "heap_tiled sp h bs" and "\<And>p e. layout_end sp (heap_end h) l = Some (p, e) \<Longrightarrow> span_bytes sp < e"
  shows "bump sp l h = (None, h)"
  using cursor_aligned [OF assms(1), of l] assms(2) by (auto simp: bump_def split: option.split)

lemma bump_some:
  assumes ok: "heap_tiled sp h bs" and l: "layout_ok l"
    and e: "layout_end sp (heap_end h) l = Some (p, e)" "e \<le> span_bytes sp"
  defines "h' \<equiv> snd (bump sp l h)"
  shows "bump sp l h = (Some p, h')" and "heap_tiled sp h' (bs @ [fresh_block (heap_end h) e l p])"
    and "\<And>x. x < span_base sp + heap_end h \<or> span_base sp + e \<le> x \<Longrightarrow> heap_mem h' x = heap_mem h x"
proof -
  let ?B = "span_base sp" and ?o = "heap_end h"
  have sp: "span_ok sp" and m: "heap_next h mod 8 = 0" using ok by (auto simp: heap_tiled_def)
  then have o8: "?o mod 8 = 0" by (auto simp: heap_end_def max_def)
  note le = layout_end_facts [OF sp l e(1) o8]
  have small: "e < 2 ^ 64" using e(2) sp by (auto simp: span_ok_def)
  have al: "align_up (max (heap_next h) 1) 8 = Some ?o" using cursor_aligned [OF ok, of l] e(1) by auto
  let ?h1 = "set_word (p - 8) ?o (write_block sp ?o (e - ?o) 0 h)"
  have b: "bump sp l h = (Some p, ?h1\<lparr>heap_next := e\<rparr>)" using al e by (simp add: bump_def)
  then have h': "h' = ?h1\<lparr>heap_next := e\<rparr>" by (simp add: h'_def)
  show "bump sp l h = (Some p, h')" using b h' by simp
  show frame: "heap_mem h' x = heap_mem h x" if "x < ?B + ?o \<or> ?B + e \<le> x" for x
    using that le by (auto simp: h' write_block_def set_next_def set_span_def write_word_outside)
  show "heap_tiled sp h' (bs @ [fresh_block ?o e l p])"
  proof (rule heap_extend [OF ok, where e = e])
    show "block_ok sp (heap_mem h') (fresh_block ?o e l p)"
      using le o8 small
      by (auto simp: h' block_ok_def fresh_block_def write_block_def set_next_def set_span_def mod_eq_0_iff_dvd
          intro!: dvd_diff_nat)
  qed (use le e frame in \<open>simp_all add: h' fresh_block_def write_block_def set_next_def set_span_def\<close>)
qed

lemma place_Some:
  "place sp l bs = Some (p, cs) \<Longrightarrow> \<exists>pre b post f. bs = pre @ b # post \<and> is_free b
     \<and> fits sp (blk_off b) (blk_span b) l = Some f \<and> p = fst f \<and> cs = pre @ carve l f b @ post
     \<and> list_all (\<lambda>c. is_free c \<longrightarrow> fits sp (blk_off c) (blk_span c) l = None) pre"
proof (induction bs arbitrary: cs)
  case (Cons b bs)
  show ?case
  proof (cases "if is_free b then fits sp (blk_off b) (blk_span b) l else None")
    case (Some f)
    then show ?thesis using Cons.prems
      by (intro exI [of _ "[]"] exI [of _ b] exI [of _ bs] exI [of _ f]) (auto split: if_splits)
  next
    case None
    then obtain ds where ds: "place sp l bs = Some (p, ds)" "cs = b # ds" using Cons.prems by auto
    from Cons.IH [OF ds(1)] obtain pre c post f where "bs = pre @ c # post" "is_free c"
      "fits sp (blk_off c) (blk_span c) l = Some f" "p = fst f" "ds = pre @ carve l f c @ post"
      "list_all (\<lambda>c. is_free c \<longrightarrow> fits sp (blk_off c) (blk_span c) l = None) pre" by blast
    then show ?thesis using None ds(2)
      by (intro exI [of _ "b # pre"] exI [of _ c] exI [of _ post] exI [of _ f]) (auto split: if_splits)
  qed
qed simp

lemma place_None:
  "place sp l bs = None \<Longrightarrow> list_all (\<lambda>b. is_free b \<longrightarrow> fits sp (blk_off b) (blk_span b) l = None) bs"
  by (induction bs) (auto split: option.splits if_splits)

lemma pick_at:
  "list_all (\<lambda>y. f y = None) ys \<Longrightarrow> f x = Some r \<Longrightarrow> pick f q (ys @ x # zs) = Some (last (q # ys), x, r)"
  by (induction ys arbitrary: q) auto

lemma frees_no_fit:
  assumes "heap_tiled sp h bs" and "set cs \<subseteq> set bs"
    and "list_all (\<lambda>b. is_free b \<longrightarrow> fits sp (blk_off b) (blk_span b) l = None) cs"
  shows "list_all (\<lambda>y. fits sp y (block_span sp h y) l = None) (frees cs)"
proof -
  have "block_span sp h (blk_off b) = blk_span b" if "b \<in> set cs" for b
    using block_span_eq [OF assms(1)] assms(2) that by blast
  then show ?thesis using assms(3) by (auto simp: list_all_iff in_frees)
qed

lemma carve_coalesced: "coalesced (pre @ b # post) \<Longrightarrow> is_free b \<Longrightarrow> coalesced (pre @ carve l f b @ post)"
  by (cases f) (auto simp: carve_def coalesced_append coalesced_Cons)

lemma carve_lives: "lives (carve l f b) = [(fst f, lay_size l)]"
  by (cases f) (auto simp: carve_def)

lemma allocate_place:
  assumes ok: "heap_ok sp h bs" and l: "layout_ok l" and pl: "place sp l bs = Some (p, cs)"
  shows "\<exists>h'. allocate sp l h = Some (Some p, h') \<and> heap_ok sp h' cs \<and> kept sp (heap_mem h) (heap_mem h') (lives bs)"
proof -
  from place_Some [OF pl] obtain pre b post f where bs: "bs = pre @ b # post" and b: "is_free b"
    "fits sp (blk_off b) (blk_span b) l = Some f" and p: "p = fst f" and cs: "cs = pre @ carve l f b @ post"
    and nf: "list_all (\<lambda>c. is_free c \<longrightarrow> fits sp (blk_off c) (blk_span c) l = None) pre" by blast
  have t: "heap_tiled sp h (pre @ b # post)" and co: "coalesced (pre @ b # post)"
    using ok bs by (simp_all add: heap_ok_def)
  let ?q = "last (0 # frees pre)" and ?o = "blk_off b"
  let ?h' = "take_block sp ?q ?o f h"
  have ch: "chain (block_next sp h) (heap_free h) (frees pre @ ?o # frees post)"
    using t b by (simp add: heap_tiled_def)
  have nz: "0 \<notin> set (frees pre @ ?o # frees post)" using frees_nonzero [OF t] b(1) by simp
  have none: "list_all (\<lambda>y. fits sp y (block_span sp h y) l = None) (frees pre)"
    using frees_no_fit [OF t _ nf] by auto
  have some: "fits sp ?o (block_span sp h ?o) l = Some f" using b(2) block_span_eq [OF t, of b] by simp
  have walk: "first_fit sp l h 0 (heap_free h) = Some (Some (?q, ?o, f))"
    using first_fit_chain [OF ch nz] pick_at [OF none some] by simp
  have tl: "tiles 8 (pre @ b # post) (heap_end h)" and sp: "span_ok sp" using t by (simp_all add: heap_tiled_def)
  have b8: "?o mod 8 = 0" using tiled_bounds(5) [OF t, of b] by simp
  have "kept sp (heap_mem h) (heap_mem ?h') (lives (pre @ post))"
  proof (rule tiled_kept [where mid = "[b]"])
    show "tiles 8 pre ?o" "tiles (?o + blk_span b) post (heap_end h)" using tiles_split [OF tl] by auto
  next
    fix x assume "x < span_base sp + ?o \<or> span_base sp + (?o + blk_span b) \<le> x"
      "frees pre = [] \<or> x < span_base sp + last (frees pre) + 8 \<or> span_base sp + last (frees pre) + 16 \<le> x"
    then show "heap_mem ?h' x = heap_mem h x"
      by (rule take_block_frame [OF sp l b(2) b8])
  qed (use t tiled_bounds(2) [OF t, of b] in simp_all)
  moreover have "lives (pre @ post) = lives bs" using b(1) bs by simp
  moreover have "heap_ok sp ?h' cs"
    using take_block_tiled [OF t b(1) l b(2)] carve_coalesced [OF co b(1)] cs by (simp add: heap_ok_def)
  ultimately show ?thesis using walk p by (auto simp: allocate_def)
qed

lemma allocate_bump:
  assumes ok: "heap_ok sp h bs" and l: "layout_ok l" and pl: "place sp l bs = None"
  shows "\<exists>h'. allocate sp l h = Some (fst (allocate_spec sp l (heap_end h) bs), h')
    \<and> heap_ok sp h' (snd (allocate_spec sp l (heap_end h) bs)) \<and> kept sp (heap_mem h) (heap_mem h') (lives bs)
    \<and> (fst (allocate_spec sp l (heap_end h) bs) = None \<longrightarrow> h' = h)"
proof -
  have t: "heap_tiled sp h bs" and co: "coalesced bs" using ok by (simp_all add: heap_ok_def)
  have "chain (block_next sp h) (heap_free h) (frees bs)" using t by (simp add: heap_tiled_def)
  moreover have "list_all (\<lambda>y. fits sp y (block_span sp h y) l = None) (frees bs)"
    using frees_no_fit [OF t _ place_None [OF pl]] by simp
  ultimately have "first_fit sp l h 0 (heap_free h) = Some None"
    using first_fit_chain [OF _ frees_nonzero [OF t]] by (simp add: pick_None)
  then have al: "allocate sp l h = Some (bump sp l h)" by (simp add: allocate_def)
  show ?thesis
  proof (cases "\<exists>p e. layout_end sp (heap_end h) l = Some (p, e) \<and> e \<le> span_bytes sp")
    case False
    then have "allocate_spec sp l (heap_end h) bs = (None, bs)"
      using pl by (auto simp: allocate_spec_def split: option.split)
    moreover have "bump sp l h = (None, h)" by (rule bump_none [OF t]) (use False in force)
    ultimately show ?thesis using al ok by simp
  next
    case True
    then obtain p e where e: "layout_end sp (heap_end h) l = Some (p, e)" "e \<le> span_bytes sp" by blast
    note b = bump_some [OF t l e]
    have spec: "allocate_spec sp l (heap_end h) bs = (Some p, bs @ [fresh_block (heap_end h) e l p])"
      using pl e by (simp add: allocate_spec_def)
    have "kept sp (heap_mem h) (heap_mem (snd (bump sp l h))) (lives bs)"
      using b(3) live_bounds [OF t] e(2) by (fastforce simp: kept_def contains_pointer_def)
    moreover have "coalesced (bs @ [fresh_block (heap_end h) e l p])"
      using co by (simp add: coalesced_append fresh_block_def)
    ultimately show ?thesis using al b(2) spec
      by (intro exI [of _ "snd (bump sp l h)"]) (simp add: heap_ok_def b(1) [symmetric])
  qed
qed

lemma allocate_ok:
  assumes "heap_ok sp h bs" and "layout_ok l"
  shows "\<exists>h'. allocate sp l h = Some (fst (allocate_spec sp l (heap_end h) bs), h')
    \<and> heap_ok sp h' (snd (allocate_spec sp l (heap_end h) bs)) \<and> kept sp (heap_mem h) (heap_mem h') (lives bs)
    \<and> (fst (allocate_spec sp l (heap_end h) bs) = None \<longrightarrow> h' = h)"
proof (cases "place sp l bs")
  case None
  then show ?thesis by (rule allocate_bump [OF assms])
next
  case (Some r)
  then show ?thesis using allocate_place [OF assms] by (cases r) (auto simp: allocate_spec_def)
qed

lemma allocate_spec_Some:
  assumes ok: "heap_tiled sp h bs" and l: "layout_ok l" and spec: "allocate_spec sp l (heap_end h) bs = (Some p, cs)"
  shows "p mod lay_align l = 0" and "mset (lives cs) = add_mset (p, lay_size l) (mset (lives bs))"
proof -
  have sp: "span_ok sp" and "heap_end h mod 8 = 0"
    using ok by (auto simp: heap_tiled_def heap_end_def max_def)
  note fresh = layout_end_facts(3) [OF sp l _ this(2)]
  have "p mod lay_align l = 0 \<and> mset (lives cs) = add_mset (p, lay_size l) (mset (lives bs))"
  proof (cases "place sp l bs")
    case None
    then show ?thesis using spec fresh
      by (auto simp: allocate_spec_def fresh_block_def split: option.splits if_splits)
  next
    case (Some r)
    then have "place sp l bs = Some (p, cs)" using spec by (auto simp: allocate_spec_def split: prod.splits)
    from place_Some [OF this] obtain pre b post f where b: "bs = pre @ b # post" "is_free b"
      "fits sp (blk_off b) (blk_span b) l = Some f" "p = fst f" "cs = pre @ carve l f b @ post" by blast
    obtain e e' where f: "f = (p, e, e')" using b(4) by (cases f) auto
    have "blk_off b mod 8 = 0" using tiled_bounds(5) [OF ok, of b] b(1) by simp
    then show ?thesis using layout_end_facts(3) [OF sp l fits_facts(2) [OF b(3) [unfolded f]]] b carve_lives by simp
  qed
  then show "p mod lay_align l = 0" "mset (lives cs) = add_mset (p, lay_size l) (mset (lives bs))" by simp_all
qed

section \<open>Deallocation\<close>

text \<open>Free neighbours are joined.\<close>

fun coalesce :: "block list \<Rightarrow> block list" where
  "coalesce (b # c # bs) =
     (if is_free b \<and> is_free c then coalesce (b\<lparr>blk_span := blk_span b + blk_span c\<rparr> # bs)
      else b # coalesce (c # bs))"
| "coalesce bs = bs"

definition release :: "usize \<Rightarrow> block list \<Rightarrow> block list" where
  "release p bs = coalesce (map (\<lambda>b. if map_option fst (blk_live b) = Some p then b\<lparr>blk_live := None\<rparr> else b) bs)"

lemma coalesce_id: "coalesced bs \<Longrightarrow> coalesce bs = bs"
  by (induction bs rule: coalesce.induct) auto

lemma coalesce_hd: "bs \<noteq> [] \<Longrightarrow> coalesce bs \<noteq> [] \<and> is_free (hd (coalesce bs)) = is_free (hd bs)"
  by (induction bs rule: coalesce.induct) auto

lemma coalesce_coalesced: "coalesced (coalesce bs)"
proof (induction bs rule: coalesce.induct)
  case (1 b c bs)
  then show ?case using coalesce_hd [of "c # bs"] by (auto simp: coalesced_Cons)
qed auto

lemma coalesce_skip: "coalesced (pre @ [c]) \<Longrightarrow> coalesce (pre @ c # ds) = pre @ coalesce (c # ds)"
proof (induction pre)
  case (Cons a pre)
  then show ?case by (cases pre) auto
qed simp

lemma lives_coalesce: "lives (coalesce bs) = lives bs"
  by (induction bs rule: coalesce.induct) (auto split: option.split)

lemma chain_at: "chain nx x (xs @ y # ys) \<Longrightarrow> (if xs = [] then x = y else nx (last xs) = y)"
  by (induction xs arbitrary: x) auto

lemma chain_end: "chain nx x (xs @ ys) \<Longrightarrow> chain nx (first_or_end ys) ys"
  by (induction xs arbitrary: x) (auto dest: chain_first)

lemma first_small:
  assumes "heap_tiled sp h (bs @ post)"
  shows "first_or_end (frees post) < 2 ^ 64"
proof (cases "frees post")
  case (Cons x xs)
  then have "x \<in> set (frees post)" by simp
  then obtain c where "c \<in> set post" "blk_off c = x" by (auto simp: in_frees)
  then show ?thesis using tiled_bounds(3) [OF assms, of c] Cons by (auto simp: first_or_end_def)
qed (simp add: first_or_end_def)

lemma release_tiled:
  assumes ok: "heap_tiled sp h (pre @ b # post)" and live: "blk_live b = Some a"
  defines "h1 \<equiv> set_link sp (last (0 # frees pre)) (blk_off b) (set_next sp (blk_off b) (first_or_end (frees post)) h)"
  shows "heap_tiled sp h1 (pre @ b\<lparr>blk_live := None\<rparr> # post)" "kept sp (heap_mem h) (heap_mem h1) (lives (pre @ post))"
proof -
  let ?B = "span_base sp" and ?o = "blk_off b" and ?s = "blk_span b" and ?xs = "frees pre"
  let ?nx = "first_or_end (frees post)"
  have bb: "b \<in> set (pre @ b # post)" by simp
  note bounds = tiled_bounds [OF ok bb]
  have tl: "tiles 8 (pre @ b # post) (heap_end h)"
    and ch: "chain (block_next sp h) (heap_free h) (?xs @ frees post)"
    using ok live by (simp_all add: heap_tiled_def)
  have pre_at: "c \<in> set pre \<Longrightarrow> blk_off c + 32 \<le> ?o" for c
    using tiles_split(3) [OF tl, of c] tiled_bounds(4) [OF ok, of c] by auto
  have q_range: "last ?xs \<noteq> 0 \<and> last ?xs + 32 \<le> ?o" if ne: "?xs \<noteq> []"
  proof -
    obtain c where "c \<in> set pre" "blk_off c = last ?xs" using last_in_set [OF ne] in_frees by metis
    then show ?thesis using pre_at [of c] tiled_bounds(1) [OF ok, of c] by auto
  qed
  have post_at: "x \<in> set (frees post) \<Longrightarrow> ?o + ?s \<le> x" for x
    using tiles_split(4) [OF tl] by (auto simp: in_frees)
  have nx_small: "?nx < 2 ^ 64" using first_small [of sp h "pre @ [b]" post] ok by simp
  have frame: "heap_mem h1 x = heap_mem h x" if "x < ?B + ?o \<or> ?B + (?o + ?s) \<le> x"
      "?xs = [] \<or> x < ?B + last ?xs + 8 \<or> ?B + last ?xs + 16 \<le> x" for x
    using that bounds(4) by (auto simp: h1_def set_link_simps set_next_def write_word_outside)
  show "heap_tiled sp h1 (pre @ b\<lparr>blk_live := None\<rparr> # post)"
  proof -
    let ?b = "b\<lparr>blk_live := None\<rparr>"
    have "heap_tiled sp h1 (pre @ [?b] @ post)"
    proof (rule heap_replace [where mid = "[b]" and ?o1.0 = ?o and ?o2.0 = "?o + ?s" and r = ?o])
      show "if ?xs = [] then heap_free h1 = ?o
        else heap_free h1 = heap_free h \<and> block_next sp h1 (last ?xs) = ?o"
        using q_range bounds(3) by (auto simp: h1_def set_link_simps set_next_def block_next_def)
      show "list_all (block_ok sp (heap_mem h1)) [?b]"
        using bounds q_range by (auto simp: block_ok_def h1_def set_link_simps set_next_def)
      have same: "block_next sp h x = block_next sp h1 x" if "x \<in> set (frees post)" for x
        using post_at [OF that] bounds(4) frame unfolding block_next_def
        by (intro read_word_cong frame [symmetric]) (use q_range in auto)
      have "chain (block_next sp h) ?nx (frees post)" using chain_end [OF ch] .
      then have "chain (block_next sp h1) ?nx (frees post)" by (rule chain_cong [THEN iffD1, rotated]) (rule same)
      moreover have "block_next sp h1 ?o = ?nx"
        using q_range nx_small by (auto simp: h1_def set_link_simps set_next_def block_next_def)
      ultimately show "chain (block_next sp h1) ?o (frees [?b] @ frees post)" by simp
    qed (use ok frame in \<open>auto simp: h1_def set_link_simps set_next_def\<close>)
    then show ?thesis by simp
  qed
  show "kept sp (heap_mem h) (heap_mem h1) (lives (pre @ post))"
  proof (rule tiled_kept [where mid = "[b]" and ?o1.0 = ?o and ?o2.0 = "?o + ?s"])
    show "tiles 8 pre ?o" "tiles (?o + ?s) post (heap_end h)" using tiles_split [OF tl] by auto
  qed (use ok frame bounds(2) in auto)
qed

text \<open>The later of two free neighbours is given to the earlier.\<close>

lemma merge_tiled:
  assumes ok: "heap_tiled sp h (pre @ c # d # post)" and free: "is_free c" "is_free d"
  defines "h1 \<equiv> set_next sp (blk_off c) (first_or_end (frees post)) (set_span sp (blk_off c) (blk_span c + blk_span d) h)"
  shows "heap_tiled sp h1 (pre @ c\<lparr>blk_span := blk_span c + blk_span d\<rparr> # post)"
    and "kept sp (heap_mem h) (heap_mem h1) (lives (pre @ post))"
proof -
  let ?B = "span_base sp" and ?o = "blk_off c" and ?s = "blk_span c + blk_span d" and ?xs = "frees pre"
  let ?nx = "first_or_end (frees post)" and ?c = "c\<lparr>blk_span := blk_span c + blk_span d\<rparr>"
  note cb = tiled_bounds [OF ok, of c, simplified]
  note db = tiled_bounds [OF ok, of d, simplified]
  have tl: "tiles 8 (pre @ c # d # post) (heap_end h)"
    and ch: "chain (block_next sp h) (heap_free h) (?xs @ ?o # blk_off d # frees post)"
    using ok free by (simp_all add: heap_tiled_def)
  have d: "blk_off d = ?o + blk_span c" and tp: "tiles 8 pre ?o" and tq: "tiles (?o + ?s) post (heap_end h)"
    using tl by (auto simp: tiles_append ac_simps)
  have nx_small: "?nx < 2 ^ 64" using first_small [of sp h "pre @ [c, d]" post] ok by simp
  have frame: "heap_mem h1 x = heap_mem h x" if "x < ?B + ?o \<or> ?B + (?o + ?s) \<le> x" for x
    using that cb(4) by (auto simp: h1_def set_span_def set_next_def write_word_outside)
  have "heap_tiled sp h1 (pre @ [?c] @ post)"
  proof (rule heap_replace [where mid = "[c, d]" and ?o1.0 = ?o and ?o2.0 = "?o + ?s" and r = ?o])
    have "block_next sp h1 y = block_next sp h y" if "y \<in> set ?xs" for y
    proof -
      from that obtain e where e: "e \<in> set pre" "blk_off e = y" by (auto simp: in_frees)
      have "blk_off e + blk_span e \<le> ?o" using tiles_range [OF tp e(1)] by simp
      then show ?thesis using tiled_bounds(4) [OF ok, of e] e unfolding block_next_def
        by (intro read_word_cong frame) auto
    qed
    then show "if ?xs = [] then heap_free h1 = ?o else heap_free h1 = heap_free h \<and> block_next sp h1 (last ?xs) = ?o"
      using chain_at [OF ch] by (auto simp: h1_def set_span_def set_next_def)
    show "list_all (block_ok sp (heap_mem h1)) [?c]"
      using cb db d free by (auto simp: block_ok_def h1_def set_span_def set_next_def)
    have same: "block_next sp h y = block_next sp h1 y" if "y \<in> set (frees post)" for y
    proof -
      from that obtain e where e: "e \<in> set post" "blk_off e = y" by (auto simp: in_frees)
      show ?thesis using tiles_range [OF tq e(1)] e unfolding block_next_def
        by (intro read_word_cong frame [symmetric]) auto
    qed
    have "chain (block_next sp h) ?nx (frees post)" using chain_end [of _ _ "?xs @ [?o, blk_off d]"] ch by simp
    then have "chain (block_next sp h1) ?nx (frees post)" by (rule chain_cong [THEN iffD1, rotated]) (rule same)
    moreover have "block_next sp h1 ?o = ?nx"
      using nx_small by (simp add: h1_def set_span_def set_next_def block_next_def)
    ultimately show "chain (block_next sp h1) ?o (frees [?c] @ frees post)" using free by simp
  qed (use ok frame d in \<open>auto simp: h1_def set_span_def set_next_def\<close>)
  then show "heap_tiled sp h1 (pre @ ?c # post)" by simp
  show "kept sp (heap_mem h) (heap_mem h1) (lives (pre @ post))"
    by (rule tiled_kept [where mid = "[c, d]", OF _ tp tq]) (use ok frame d db(2) in auto)
qed

text \<open>The two tests for a neighbour: the offsets touch exactly when the next block is the free one.\<close>

lemma frees_last:
  assumes "frees pre \<noteq> []"
  obtains p1 c p2 where "pre = p1 @ c # p2" "is_free c" "blk_off c = last (frees pre)" "frees p2 = []"
  using frees_split [of pre "butlast (frees pre)" "last (frees pre)" "[]"] assms by auto

lemma frees_first:
  assumes "frees post \<noteq> []"
  obtains p1 d p2 where "post = p1 @ d # p2" "is_free d" "blk_off d = first_or_end (frees post)" "frees p1 = []"
  using frees_split [of post "[]" "hd (frees post)" "tl (frees post)"] assms
  by (cases "frees post") (auto simp: first_or_end_def)

lemma tiles_touch: "tiles a bs a \<Longrightarrow> list_all (\<lambda>b. 0 < blk_span b) bs \<Longrightarrow> bs = []"
  by (cases bs) (use tiles_le in fastforce)+

definition join_left :: "block list \<Rightarrow> block \<Rightarrow> block list \<times> block" where
  "join_left pre b =
     (if pre \<noteq> [] \<and> is_free (last pre) then (butlast pre, (last pre)\<lparr>blk_span := blk_span (last pre) + blk_span b\<rparr>)
      else (pre, b))"

definition join_right :: "block \<Rightarrow> block list \<Rightarrow> block \<times> block list" where
  "join_right b post =
     (case post of
        d # ds \<Rightarrow> if is_free d then (b\<lparr>blk_span := blk_span b + blk_span d\<rparr>, ds) else (b, post)
      | [] \<Rightarrow> (b, []))"

lemma merge_previous_ok:
  assumes ok: "heap_tiled sp h (pre @ b # post)" and free: "is_free b" and j: "join_left pre b = (pre', m)"
  shows "\<exists>h'. merge_previous sp (last (0 # frees pre)) (blk_off b) (first_or_end (frees post)) h = (blk_off m, h')
    \<and> heap_tiled sp h' (pre' @ m # post) \<and> kept sp (heap_mem h) (heap_mem h') (lives (pre @ post))"
proof (cases "pre \<noteq> [] \<and> is_free (last pre)")
  case True
  then obtain p1 c where pre: "pre = p1 @ [c]" "is_free c" by (metis append_butlast_last_id)
  have ok': "heap_tiled sp h (p1 @ c # b # post)" using ok pre by simp
  then have off: "blk_off b = blk_off c + blk_span c" by (auto simp: heap_tiled_def tiles_append)
  have spans: "block_span sp h (blk_off c) = blk_span c" "block_span sp h (blk_off b) = blk_span b"
    using block_span_eq [OF ok'] by simp_all
  have "8 \<le> blk_off c" "blk_off b + blk_span b < 2 ^ 64"
    using tiled_bounds(1) [OF ok', of c] tiled_bounds(3) [OF ok', of b] by simp_all
  then have "merge_previous sp (last (0 # frees pre)) (blk_off b) (first_or_end (frees post)) h
      = (blk_off c, set_next sp (blk_off c) (first_or_end (frees post)) (set_span sp (blk_off c) (blk_span c + blk_span b) h))"
    using pre off spans by (simp add: merge_previous_def usize_add_def)
  then show ?thesis using merge_tiled [OF ok' pre(2) free] j pre by (auto simp: join_left_def)
next
  case False
  have "\<not> (last (0 # frees pre) \<noteq> 0
      \<and> usize_add (last (0 # frees pre)) (block_span sp h (last (0 # frees pre))) = Some (blk_off b))"
  proof (cases "frees pre = []")
    case ne: False
    then obtain p1 c p2 where c: "pre = p1 @ c # p2" "is_free c" "blk_off c = last (frees pre)" by (rule frees_last)
    have "p2 \<noteq> []" using False c by auto
    moreover have "tiles (blk_off c + blk_span c) p2 (blk_off b)" "list_all (\<lambda>b. 0 < blk_span b) p2"
      using ok c(1) tiled_spans [OF ok] by (auto simp: heap_tiled_def tiles_append)
    ultimately have "blk_off c + blk_span c \<noteq> blk_off b" using tiles_touch by metis
    moreover have "block_span sp h (blk_off c) = blk_span c" using block_span_eq [OF ok] c(1) by simp
    ultimately show ?thesis using ne by (simp add: usize_add_Some c(3) [symmetric])
  qed simp
  then have "merge_previous sp (last (0 # frees pre)) (blk_off b) (first_or_end (frees post)) h = (blk_off b, h)"
    by (auto simp: merge_previous_def)
  then show ?thesis using ok j False by (auto simp: join_left_def)
qed

lemma merge_next_ok:
  assumes ok: "heap_tiled sp h (pre @ m # post)" and free: "is_free m" and j: "join_right m post = (m', post')"
  shows "\<exists>h'. merge_next sp (blk_off m) (first_or_end (frees post)) h = h'
    \<and> heap_tiled sp h' (pre @ m' # post') \<and> kept sp (heap_mem h) (heap_mem h') (lives (pre @ post'))"
proof (cases "post \<noteq> [] \<and> is_free (hd post)")
  case True
  then obtain d ds where post: "post = d # ds" "is_free d" by (cases post) auto
  have ok': "heap_tiled sp h (pre @ m # d # ds)" using ok post by simp
  then have off: "blk_off d = blk_off m + blk_span m" by (auto simp: heap_tiled_def tiles_append)
  have spans: "block_span sp h (blk_off m) = blk_span m" "block_span sp h (blk_off d) = blk_span d"
    using block_span_eq [OF ok'] by simp_all
  have b: "8 \<le> blk_off m" "32 \<le> blk_span m" "blk_off d + blk_span d < 2 ^ 64"
    using tiled_bounds(1,4) [OF ok', of m] tiled_bounds(3) [OF ok', of d] by simp_all
  have "chain (block_next sp h) (heap_free h) ((frees pre @ [blk_off m]) @ blk_off d # frees ds)"
    using ok' free post by (simp add: heap_tiled_def)
  then have "block_next sp h (blk_off d) = first_or_end (frees ds)" using chain_rest chain_first by metis
  moreover have "block_next sp (set_span sp (blk_off m) v h) (blk_off d) = block_next sp h (blk_off d)" for v
    using off b by (simp add: set_span_def block_next_def)
  ultimately have "merge_next sp (blk_off m) (first_or_end (frees post)) h
      = set_next sp (blk_off m) (first_or_end (frees ds)) (set_span sp (blk_off m) (blk_span m + blk_span d) h)"
    using post off spans b by (simp add: merge_next_def usize_add_def first_or_end_def Let_def)
  then show ?thesis using merge_tiled [OF ok' free post(2)] j post by (auto simp: join_right_def)
next
  case False
  let ?nx = "first_or_end (frees post)"
  have "\<not> (?nx \<noteq> 0 \<and> usize_add (blk_off m) (block_span sp h (blk_off m)) = Some ?nx)"
  proof (cases "frees post = []")
    case ne: False
    then obtain p1 d p2 where d: "post = p1 @ d # p2" "is_free d" "blk_off d = ?nx" by (rule frees_first)
    have "p1 \<noteq> []" using False d by auto
    moreover have "tiles (blk_off m + blk_span m) p1 (blk_off d)" "list_all (\<lambda>b. 0 < blk_span b) p1"
      using ok d(1) tiled_spans [OF ok] by (auto simp: heap_tiled_def tiles_append)
    ultimately have "blk_off m + blk_span m \<noteq> blk_off d" using tiles_touch by metis
    then show ?thesis using block_span_eq [OF ok] by (simp add: usize_add_Some d(3) [symmetric])
  qed (simp add: first_or_end_def)
  then have "merge_next sp (blk_off m) ?nx h = h" by (auto simp: merge_next_def)
  then show ?thesis using ok j False by (cases post) (auto simp: join_right_def)
qed

lemma coalesce_joins:
  assumes "coalesced pre" and "coalesced post" and "is_free b"
    and "join_left pre b = (pre', m)" and "join_right m post = (m', post')"
  shows "coalesce (pre @ b # post) = pre' @ m' # post'"
proof -
  have m: "is_free m" using assms(3,4) by (auto simp: join_left_def split: if_splits)
  have "coalesce (pre @ b # post) = pre' @ coalesce (m # post)"
  proof (cases "pre \<noteq> [] \<and> is_free (last pre)")
    case True
    then obtain p1 c where "pre = p1 @ [c]" "is_free c" by (metis append_butlast_last_id)
    then show ?thesis using assms coalesce_skip [of p1 c "b # post"] by (auto simp: join_left_def)
  next
    case False
    then have "coalesced (pre @ [b])" using assms(1) by (auto simp: coalesced_append)
    then show ?thesis using coalesce_skip [of pre b post] assms(4) False by (auto simp: join_left_def)
  qed
  moreover have "coalesce (m # post) = m' # post'"
    using assms(2,5) m
    by (cases post) (auto simp: join_right_def coalesce_id coalesced_Cons split: if_splits)
  ultimately show ?thesis by simp
qed

lemma live_apart:
  assumes ok: "heap_tiled sp h bs" and b: "b \<in> set bs" "blk_live b = Some (p, n)" and c: "c \<in> set bs" "blk_live c = Some (p', n')"
    and "blk_off b \<noteq> blk_off c"
  shows "p + n \<le> p' \<or> p' + n' \<le> p" "p \<noteq> p'"
proof -
  have "tiles 8 bs (heap_end h)" using ok by (simp add: heap_tiled_def)
  from tiles_disjoint [OF this b(1) c(1) assms(6)] live_range [OF ok b] live_range [OF ok c]
  show "p + n \<le> p' \<or> p' + n' \<le> p" "p \<noteq> p'" by auto
qed

lemma release_at:
  assumes ok: "heap_tiled sp h (pre @ b # post)" and live: "blk_live b = Some (p, n)"
  shows "release p (pre @ b # post) = coalesce (pre @ b\<lparr>blk_live := None\<rparr> # post)"
proof -
  have tl: "tiles 8 (pre @ b # post) (heap_end h)" using ok by (simp add: heap_tiled_def)
  have "map_option fst (blk_live c) \<noteq> Some p" if c: "c \<in> set pre \<or> c \<in> set post" for c
  proof
    assume "map_option fst (blk_live c) = Some p"
    then obtain n' where n': "blk_live c = Some (p, n')" by auto
    have "blk_off c \<noteq> blk_off b"
      using c tiles_split(3,4) [OF tl, of c] tiled_bounds(4) [OF ok, of c] tiled_bounds(4) [OF ok, of b] by auto
    then show False using live_apart(2) [OF ok _ live _ n'] c by auto
  qed
  then have "map (\<lambda>b. if map_option fst (blk_live b) = Some p then b\<lparr>blk_live := None\<rparr> else b) cs = cs"
    if "cs = pre \<or> cs = post" for cs using that by (intro map_idI) auto
  then show ?thesis using live by (simp add: release_def)
qed

lemma release_lives:
  assumes "heap_tiled sp h bs" and "(p, n) \<in> set (lives bs)"
  shows "mset (lives bs) = add_mset (p, n) (mset (lives (release p bs)))"
proof -
  from assms(2) obtain b where "b \<in> set bs" "blk_live b = Some (p, n)" by (auto simp: in_lives)
  then obtain pre post where bs: "bs = pre @ b # post" by (metis split_list)
  show ?thesis using release_at [of sp h pre b post p n] assms(1) bs \<open>blk_live b = _\<close> by (simp add: lives_coalesce)
qed

lemma find_place_at:
  assumes ok: "heap_tiled sp h (pre @ b # post)" and live: "\<not> is_free b"
  shows "find_place sp h (blk_off b) 0 (heap_free h) = Some (last (0 # frees pre), first_or_end (frees post))"
proof (rule find_place_chain)
  have tl: "tiles 8 (pre @ b # post) (heap_end h)" using ok by (simp add: heap_tiled_def)
  show "chain (block_next sp h) (heap_free h) (frees pre @ frees post)" using ok live by (auto simp: heap_tiled_def)
  show "0 \<notin> set (frees pre)" using frees_nonzero [OF ok] by simp
  show "list_all (\<lambda>y. blk_off b \<le> y) (frees post)"
    using tiles_split(4) [OF tl] by (fastforce simp: list_all_iff in_frees)
  show "list_all (\<lambda>y. y < blk_off b) (frees pre)"
  proof (unfold list_all_iff, intro ballI)
    fix y assume "y \<in> set (frees pre)"
    then obtain c where "c \<in> set pre" "blk_off c = y" by (auto simp: in_frees)
    then show "y < blk_off b" using tiles_split(3) [OF tl, of c] tiled_bounds(4) [OF ok, of c] by auto
  qed
qed

lemma deallocate_ok:
  assumes ok: "heap_ok sp h bs" and a: "(p, n) \<in> set (lives bs)"
  shows "\<exists>h'. deallocate sp p h = Some h' \<and> heap_ok sp h' (release p bs)
    \<and> kept sp (heap_mem h) (heap_mem h') (lives (release p bs))"
proof -
  from a obtain b where "b \<in> set bs" and live: "blk_live b = Some (p, n)" by (auto simp: in_lives)
  then obtain pre post where bs: "bs = pre @ b # post" by (metis split_list)
  let ?b = "b\<lparr>blk_live := None\<rparr>" and ?nx = "first_or_end (frees post)" and ?q = "last (0 # frees pre)"
  have t: "heap_tiled sp h (pre @ b # post)" and co: "coalesced pre" "coalesced post"
    using ok bs by (auto simp: heap_ok_def coalesced_append coalesced_Cons)
  obtain pre' m where jl: "join_left pre ?b = (pre', m)" by fastforce
  obtain m' post' where jr: "join_right m post = (m', post')" by fastforce
  let ?h1 = "set_link sp ?q (blk_off b) (set_next sp (blk_off b) ?nx h)"
  note r = release_tiled [OF t live]
  have rb: "heap_tiled sp ?h1 (pre @ ?b # post)" using r(1) .
  from merge_previous_ok [OF rb _ jl] obtain h2 where
    h2: "merge_previous sp ?q (blk_off b) ?nx ?h1 = (blk_off m, h2)" "heap_tiled sp h2 (pre' @ m # post)"
    "kept sp (heap_mem ?h1) (heap_mem h2) (lives (pre @ post))" by auto
  have m: "is_free m" using jl by (auto simp: join_left_def split: if_splits)
  from merge_next_ok [OF h2(2) m jr] obtain h3 where
    h3: "merge_next sp (blk_off m) ?nx h2 = h3" "heap_tiled sp h3 (pre' @ m' # post')"
    "kept sp (heap_mem h2) (heap_mem h3) (lives (pre' @ post'))" by auto
  have rel: "release p bs = pre' @ m' # post'"
    using release_at [OF t live] coalesce_joins [OF co _ jl jr] bs by simp
  have "lives (release p bs) = lives (pre @ post)" using release_at [OF t live] bs by (simp add: lives_coalesce)
  moreover have "lives (release p bs) = lives (pre' @ post')"
    using rel jr m by (auto simp: join_right_def split: list.splits if_splits)
  ultimately have "kept sp (heap_mem h) (heap_mem h3) (lives (release p bs))"
    using r(2) h2(3) h3(3) by (metis kept_trans)
  moreover have "deallocate sp p h = Some h3"
  proof -
    have "read_word (heap_mem h) (p - WORD_SIZE) = blk_off b" using live_range(3) [OF t _ live] by simp
    moreover have "find_place sp h (blk_off b) FREE_LIST_END (heap_free h) = Some (?q, ?nx)"
      using find_place_at [OF t] live by simp
    ultimately show ?thesis unfolding deallocate_def Let_def by (simp only: option.map prod.case h2(1) h3(1))
  qed
  moreover have "heap_ok sp h3 (release p bs)"
    unfolding heap_ok_def by (rule conjI) (simp add: rel h3(2), simp add: release_def coalesce_coalesced)
  ultimately show ?thesis by blast
qed

end
