(* ===== verification/Tool_Allocator.thy ===== *)
theory Tool_Allocator
  imports Tool_Heap_Live
begin

text \<open>
  The allocators on the Tool's heap, \<^verbatim>\<open>reverie-inguest/src/guest/alloc.rs\<close>: the Tool as a machine
  that allocates, frees and writes its payloads, the private allocator, the fixed one and the one
  that a guest library declares, which uses the system's allocator outside a dispatch.
\<close>

section \<open>The Tool's use of the heap\<close>

text \<open>
  What the Tool may write: inside its payloads and outside the arena, at any address.
\<close>

definition in_payload :: "(nat \<times> nat) list \<Rightarrow> nat \<Rightarrow> bool" where
  "in_payload ps x \<longleftrightarrow> list_ex (\<lambda>(p, n). p \<le> x \<and> x < p + n) ps"

definition tool_writes :: "ToolHeapSpan \<Rightarrow> (nat \<times> nat) list \<Rightarrow> memory \<Rightarrow> memory \<Rightarrow> bool" where
  "tool_writes sp ps m m' \<longleftrightarrow> (\<forall>x. contains_pointer sp x \<longrightarrow> \<not> in_payload ps x \<longrightarrow> m' x = m x)"

lemma in_payload_iff: "in_payload ps x \<longleftrightarrow> (\<exists>(p, n) \<in> set ps. p \<le> x \<and> x < p + n)"
  by (auto simp: in_payload_def list_ex_iff)

lemma payload_block:
  assumes ok: "heap_tiled sp h bs" and b: "b \<in> set bs" "span_base sp + blk_off b \<le> x" "x < span_base sp + blk_off b + blk_span b"
    and x: "in_payload (lives bs) x"
  shows "\<exists>p n. blk_live b = Some (p, n) \<and> p \<le> x"
proof -
  from x obtain p n c where c: "c \<in> set bs" "blk_live c = Some (p, n)" "p \<le> x" "x < p + n"
    by (auto simp: in_payload_iff in_lives)
  have tl: "tiles 8 bs (heap_end h)" using ok by (simp add: heap_tiled_def)
  have "blk_off c = blk_off b"
    using tiles_disjoint [OF tl c(1) b(1)] live_range [OF ok c(1,2)] b c by fastforce
  moreover have "distinct (map blk_off bs)"
    using sorted_wrt_less_distinct tiles_sorted [OF tl tiled_spans [OF ok]] by blast
  ultimately have "c = b" using b(1) c(1) by (simp add: distinct_map inj_on_def)
  then show ?thesis using c by blast
qed

lemma tool_writes_tiled:
  assumes ok: "heap_tiled sp h bs" and w: "tool_writes sp (lives bs) (heap_mem h) m'"
  shows "heap_tiled sp (h\<lparr>heap_mem := m'\<rparr>) bs"
proof -
  let ?B = "span_base sp"
  have word: "read_word m' a = read_word (heap_mem h) a"
    if b: "b \<in> set bs" "?B + blk_off b \<le> a" "a + 8 \<le> ?B + blk_off b + blk_span b"
      and free: "\<And>p n. blk_live b = Some (p, n) \<Longrightarrow> a + 8 \<le> p" for a b
  proof (rule read_word_cong)
    fix x assume x: "a \<le> x" "x < a + 8"
    have "\<not> in_payload (lives bs) x" using payload_block [OF ok b(1), of x] b x free by fastforce
    moreover have "contains_pointer sp x"
      using tiled_bounds(2) [OF ok b(1)] b x by (simp add: contains_pointer_def)
    ultimately show "m' x = heap_mem h x" using w by (simp add: tool_writes_def)
  qed
  have blocks: "block_ok sp m' b" if b: "b \<in> set bs" for b
  proof -
    note ob = tiled_bounds [OF ok b]
    have "read_word m' (?B + blk_off b) = read_word (heap_mem h) (?B + blk_off b)"
      using ob live_range [OF ok b] by (intro word [OF b]) fastforce+
    moreover have "read_word m' (p - 8) = read_word (heap_mem h) (p - 8)" if "blk_live b = Some (p, n)" for p n
      using ob live_range [OF ok b that] that by (intro word [OF b]) auto
    ultimately show ?thesis using ob(7) by (auto simp: block_ok_def split: option.splits)
  qed
  have same: "block_next sp h y = block_next sp (h\<lparr>heap_mem := m'\<rparr>) y" if "y \<in> set (frees bs)" for y
  proof -
    from that obtain b where b: "b \<in> set bs" "is_free b" "blk_off b = y" by (auto simp: in_frees)
    have "read_word m' (?B + y + 8) = read_word (heap_mem h) (?B + y + 8)"
      using b(2,3) tiled_bounds(4) [OF ok b(1)] by (intro word [OF b(1)]) auto
    then show ?thesis by (simp add: block_next_def)
  qed
  have "chain (block_next sp h) (heap_free h) (frees bs)" using ok by (simp add: heap_tiled_def)
  then have "chain (block_next sp (h\<lparr>heap_mem := m'\<rparr>)) (heap_free h) (frees bs)"
    by (rule chain_cong [THEN iffD1, rotated]) (rule same)
  then show ?thesis using ok blocks by (auto simp: heap_tiled_def list_all_iff heap_end_def)
qed

text \<open>The machine: the heap with the payloads the Tool holds.\<close>

inductive tool_step :: "ToolHeapSpan \<Rightarrow> ToolHeap \<times> (nat \<times> nat) list \<Rightarrow> ToolHeap \<times> (nat \<times> nat) list \<Rightarrow> bool"
  for sp where
  allocated:
    "layout_ok l \<Longrightarrow> allocate sp l h = Some (Some p, h') \<Longrightarrow> tool_step sp (h, ps) (h', (p, lay_size l) # ps)"
| exhausted: "layout_ok l \<Longrightarrow> allocate sp l h = Some (None, h') \<Longrightarrow> tool_step sp (h, ps) (h', ps)"
| deallocated:
    "(p, n) \<in> set ps \<Longrightarrow> deallocate sp p h = Some h' \<Longrightarrow> tool_step sp (h, ps) (h', remove1 (p, n) ps)"
| wrote: "tool_writes sp ps (heap_mem h) m' \<Longrightarrow> tool_step sp (h, ps) (h\<lparr>heap_mem := m'\<rparr>, ps)"

definition tool_start :: "ToolHeapSpan \<Rightarrow> ToolHeap \<times> (nat \<times> nat) list \<Rightarrow> bool" where
  "tool_start sp s \<longleftrightarrow> span_ok sp \<and> (\<exists>m. s = (heap_new m, []))"

definition tool_inv :: "ToolHeapSpan \<Rightarrow> ToolHeap \<times> (nat \<times> nat) list \<Rightarrow> bool" where
  "tool_inv sp s \<longleftrightarrow> (\<exists>bs. heap_ok sp (fst s) bs \<and> mset (snd s) = mset (lives bs))"

lemma heap_new_ok: "span_ok sp \<Longrightarrow> heap_ok sp (heap_new m) []"
  by (simp add: heap_ok_def heap_tiled_def heap_new_def heap_end_def)

lemma tool_writes_mset: "mset ps = mset qs \<Longrightarrow> tool_writes sp ps m m' = tool_writes sp qs m m'"
  using mset_eq_setD [of ps qs] by (simp add: tool_writes_def in_payload_iff)

lemma allocate_returns:
  assumes "heap_ok sp h bs" and "layout_ok l" and "allocate sp l h = Some (r, h')"
  obtains cs where "allocate_spec sp l (heap_end h) bs = (r, cs)" "heap_ok sp h' cs"
    "kept sp (heap_mem h) (heap_mem h') (lives bs)" "r = None \<longrightarrow> h' = h \<and> cs = bs"
proof -
  obtain cs where cs: "allocate_spec sp l (heap_end h) bs = (r, cs)" "heap_ok sp h' cs"
    "kept sp (heap_mem h) (heap_mem h') (lives bs)" "r = None \<longrightarrow> h' = h"
    using allocate_ok [OF assms(1,2)] assms(3) by (cases "allocate_spec sp l (heap_end h) bs") auto
  moreover have "r = None \<longrightarrow> cs = bs" using cs(1) by (auto simp: allocate_spec_def split: option.splits if_splits)
  ultimately show thesis using that by blast
qed

lemma tool_inv_step:
  assumes "tool_inv sp s" and "tool_step sp s t"
  shows "tool_inv sp t"
  using assms(2,1)
proof (cases rule: tool_step.cases)
  case (allocated l h p h' ps)
  then obtain bs where bs: "heap_ok sp h bs" "mset ps = mset (lives bs)" using assms(1) by (auto simp: tool_inv_def)
  obtain cs where cs: "allocate_spec sp l (heap_end h) bs = (Some p, cs)" "heap_ok sp h' cs"
    by (rule allocate_returns [OF bs(1) allocated(3,4)])
  have "heap_tiled sp h bs" using bs(1) by (simp add: heap_ok_def)
  from allocate_spec_Some(2) [OF this allocated(3) cs(1)] bs cs(2) allocated(2) show ?thesis by (auto simp: tool_inv_def)
next
  case (exhausted l h h' ps)
  then obtain bs where bs: "heap_ok sp h bs" "mset ps = mset (lives bs)" using assms(1) by (auto simp: tool_inv_def)
  have "heap_ok sp h' bs" by (rule allocate_returns [OF bs(1) exhausted(3,4)]) simp
  then show ?thesis using bs exhausted(2) by (auto simp: tool_inv_def)
next
  case (deallocated p n ps h h')
  then obtain bs where bs: "heap_ok sp h bs" "mset ps = mset (lives bs)" using assms(1) by (auto simp: tool_inv_def)
  then have a: "(p, n) \<in> set (lives bs)" using deallocated(3) mset_eq_setD by blast
  have "heap_tiled sp h bs" using bs(1) by (simp add: heap_ok_def)
  from release_lives [OF this a] bs(2) have "mset (remove1 (p, n) ps) = mset (lives (release p bs))" by simp
  then show ?thesis using deallocate_ok [OF bs(1) a] deallocated(2,4) by (auto simp: tool_inv_def)
next
  case (wrote ps h m')
  then obtain bs where bs: "heap_ok sp h bs" "mset ps = mset (lives bs)" using assms(1) by (auto simp: tool_inv_def)
  then show ?thesis using wrote tool_writes_tiled [of sp h bs m'] tool_writes_mset [OF bs(2)]
    by (auto simp: tool_inv_def heap_ok_def)
qed

interpretation tool: invariant_machine "tool_start sp" "tool_step sp" "tool_inv sp" for sp
proof unfold_locales
  show "tool_start sp s \<Longrightarrow> tool_inv sp s" for s
    by (auto simp: tool_start_def tool_inv_def intro!: exI [of _ "[]"] heap_new_ok)
qed (rule tool_inv_step)

lemma lives_apart:
  assumes ok: "heap_tiled sp h bs"
  shows "distinct (map fst (lives bs))"
    and "\<lbrakk>(p, n) \<in> set (lives bs); (q, k) \<in> set (lives bs); p \<noteq> q\<rbrakk> \<Longrightarrow> p + n \<le> q \<or> q + k \<le> p"
proof -
  have tl: "tiles 8 bs (heap_end h)" using ok by (simp add: heap_tiled_def)
  have dist: "distinct (map blk_off bs)"
    using sorted_wrt_less_distinct tiles_sorted [OF tl tiled_spans [OF ok]] by blast
  have "b = c" if "b \<in> set bs" "c \<in> set bs" "blk_live b = Some (p, n)" "blk_live c = Some (p, k)" for b c p n k
  proof (rule ccontr)
    assume "b \<noteq> c"
    then have "blk_off b \<noteq> blk_off c" using dist that by (auto simp: distinct_map inj_on_def)
    then show False using live_apart(2) [OF ok that(1,3,2,4)] by simp
  qed
  then have "inj_on (fst \<circ> (the \<circ> blk_live)) (set (filter (\<lambda>b. \<not> is_free b) bs))" by (auto simp: inj_on_def)
  moreover have "distinct (filter (\<lambda>b. \<not> is_free b) bs)" using dist by (simp only: distinct_map distinct_filter)
  ultimately show "distinct (map fst (lives bs))" unfolding lives_def map_map by (subst distinct_map) blast
  show "\<lbrakk>(p, n) \<in> set (lives bs); (q, k) \<in> set (lives bs); p \<noteq> q\<rbrakk> \<Longrightarrow> p + n \<le> q \<or> q + k \<le> p"
  proof -
    assume "(p, n) \<in> set (lives bs)" "(q, k) \<in> set (lives bs)" and ne: "p \<noteq> q"
    then obtain b c where b: "b \<in> set bs" "blk_live b = Some (p, n)" and c: "c \<in> set bs" "blk_live c = Some (q, k)"
      by (auto simp: in_lives)
    show ?thesis
    proof (cases "blk_off b = blk_off c")
      case True
      then have "b = c" using dist b(1) c(1) by (auto simp: distinct_map inj_on_def)
      then show ?thesis using b(2) c(2) ne by simp
    qed (use live_apart(1) [OF ok b c] in auto)
  qed
qed

section \<open>The lock\<close>

text \<open>
  Every operation of a heap runs between \<^verbatim>\<open>lock\<close> and the drop of its guard. The threads take steps in any
  order; an exchange on the lock may fail although it is free.
\<close>

datatype lock_phase = Outside | Spinning | Inside

record 't heap_lock =
  locked :: bool
  phase :: "'t \<Rightarrow> lock_phase"

inductive lock_step :: "'t heap_lock \<Rightarrow> 't heap_lock \<Rightarrow> bool" where
  called: "phase k t = Outside \<Longrightarrow> lock_step k (k\<lparr>phase := (phase k)(t := Spinning)\<rparr>)"
| spun: "phase k t = Spinning \<Longrightarrow> lock_step k k"
| acquired:
    "phase k t = Spinning \<Longrightarrow> \<not> locked k \<Longrightarrow> lock_step k (k\<lparr>locked := True, phase := (phase k)(t := Inside)\<rparr>)"
| dropped: "phase k t = Inside \<Longrightarrow> lock_step k (k\<lparr>locked := False, phase := (phase k)(t := Outside)\<rparr>)"

definition lock_start :: "'t heap_lock \<Rightarrow> bool" where
  "lock_start k \<longleftrightarrow> k = \<lparr>locked = False, phase = (\<lambda>_. Outside)\<rparr>"

definition lock_inv :: "'t heap_lock \<Rightarrow> bool" where
  "lock_inv k \<longleftrightarrow> (\<forall>t u. phase k t = Inside \<longrightarrow> locked k \<and> (phase k u = Inside \<longrightarrow> u = t))"

interpretation lock: invariant_machine lock_start lock_step lock_inv
proof unfold_locales
  show "lock_start k \<Longrightarrow> lock_inv k" for k :: "'t heap_lock" by (simp add: lock_start_def lock_inv_def)
  show "lock_inv k \<Longrightarrow> lock_step k k' \<Longrightarrow> lock_inv k'" for k k' :: "'t heap_lock"
    by (erule lock_step.cases) (auto simp: lock_inv_def)
qed

text \<open>At most one thread is inside, so the operations on a heap happen one after the other.\<close>

lemma lock_exclusive:
  assumes "reach lock_start lock_step k" and "phase k t = Inside" and "phase k u = Inside"
  shows "t = u"
  using lock.inv_reach [OF assms(1)] assms(2,3) by (auto simp: lock_inv_def)

section \<open>What the heap promises\<close>

text \<open>
  C31: Allocation is first fit. On a heap whose blocks tile the arena the walk along the free list ends,
  and the result is that of first fit over the list of blocks in order of address, with a fresh block at
  the end if none fits: the new state is again such a heap, with the new blocks. A pointer is aligned and
  adds one payload to the live ones; a null pointer leaves the heap as it was. The bytes of every live
  payload and of all memory outside the arena are unchanged.
\<close>

theorem allocate_first_fit:
  assumes ok: "heap_ok sp h bs" and l: "layout_ok l"
  defines "S \<equiv> allocate_spec sp l (heap_end h) bs"
  shows "\<exists>h'. allocate sp l h = Some (fst S, h') \<and> heap_ok sp h' (snd S) \<and> kept sp (heap_mem h) (heap_mem h') (lives bs)
    \<and> (case fst S of
         None \<Rightarrow> h' = h
       | Some p \<Rightarrow> p mod lay_align l = 0 \<and> mset (lives (snd S)) = add_mset (p, lay_size l) (mset (lives bs)))"
proof -
  have "heap_tiled sp h bs" using ok by (simp add: heap_ok_def)
  note spec = allocate_spec_Some [OF this l]
  obtain h' where h': "allocate sp l h = Some (fst S, h')" "heap_ok sp h' (snd S)"
    "kept sp (heap_mem h) (heap_mem h') (lives bs)" "fst S = None \<longrightarrow> h' = h"
    using allocate_ok [OF ok l, folded S_def] by (elim exE conjE) (rule that)
  show ?thesis
  proof (cases "fst S")
    case None
    then show ?thesis using h' by auto
  next
    case (Some p)
    then have "allocate_spec sp l (heap_end h) bs = (Some p, snd S)" by (simp add: S_def prod_eq_iff)
    from spec [OF this] show ?thesis using h' Some by auto
  qed
qed

text \<open>A small arena and a layout for the examples.\<close>

definition small_span :: ToolHeapSpan where "small_span = \<lparr>span_base = 4096, span_bytes = 256\<rparr>"
definition ten_bytes :: Layout where "ten_bytes = \<lparr>lay_size = 10, lay_align = 16\<rparr>"

lemma small_ok [simp]: "span_ok small_span" "layout_ok ten_bytes"
  by (auto simp: span_ok_def small_span_def layout_ok_def ten_bytes_def intro!: exI [of _ 4])

lemma small_first: "layout_end small_span 8 ten_bytes = Some (4128, 48)"
  using align_up_eq [of 4 4128] align_up_eq [of 3 42]
  by (simp add: layout_end_def usize_add_def small_span_def ten_bytes_def)

lemma small_second: "layout_end small_span 48 ten_bytes = Some (4176, 96)"
  using align_up_eq [of 4 4168] align_up_eq [of 3 90]
  by (simp add: layout_end_def usize_add_def small_span_def ten_bytes_def)

text \<open>The first allocation of a small arena: its header is at offset 8, its payload 24 bytes further.\<close>

theorem allocate_first_fit_witness:
  "\<exists>h'. allocate small_span ten_bytes (heap_new (\<lambda>_. 0)) = Some (Some 4128, h')
     \<and> heap_ok small_span h' [\<lparr>blk_off = 8, blk_span = 40, blk_live = Some (4128, 10)\<rparr>]"
  (is "\<exists>h'. _ \<and> heap_ok _ _ ?bs")
proof -
  let ?h = "heap_new (\<lambda>_. 0)"
  have "heap_end ?h = 8" by (simp add: heap_end_def heap_new_def)
  then have "allocate_spec small_span ten_bytes (heap_end ?h) [] = (Some 4128, ?bs)"
    using small_first by (simp add: allocate_spec_def fresh_block_def small_span_def ten_bytes_def)
  then show ?thesis
    using allocate_first_fit [OF heap_new_ok small_ok(2), of small_span "\<lambda>_. 0"] by auto
qed

text \<open>
  C32: Deallocation gives the block back and joins it with its free neighbours. For every live payload the
  walk ends; afterwards the heap is the one whose list of blocks has that block free and no two free
  neighbours, exactly that payload is no longer live, and all other live payloads and all memory outside
  the arena are unchanged.
\<close>

theorem deallocate_coalesces:
  assumes ok: "heap_ok sp h bs" and a: "(p, n) \<in> set (lives bs)"
  shows "\<exists>h'. deallocate sp p h = Some h' \<and> heap_ok sp h' (release p bs)
    \<and> kept sp (heap_mem h) (heap_mem h') (lives (release p bs))
    \<and> mset (lives bs) = add_mset (p, n) (mset (lives (release p bs)))"
proof -
  have "heap_tiled sp h bs" using ok by (simp add: heap_ok_def)
  from release_lives [OF this a] deallocate_ok [OF ok a] show ?thesis by blast
qed

text \<open>A live block between two free ones: freeing it leaves one free block.\<close>

definition three_blocks :: "block list" where
  "three_blocks =
     [\<lparr>blk_off = 8, blk_span = 32, blk_live = None\<rparr>, \<lparr>blk_off = 40, blk_span = 40, blk_live = Some (4160, 16)\<rparr>,
      \<lparr>blk_off = 80, blk_span = 32, blk_live = None\<rparr>]"

definition three_heap :: ToolHeap where
  "three_heap =
     \<lparr>heap_next = 112, heap_free = 8,
      heap_mem = write_word 4104 32 (write_word 4112 80 (write_word 4136 40 (write_word 4152 40
        (write_word 4176 32 (write_word 4184 0 (\<lambda>_. 0))))))\<rparr>"

lemma three_ok: "heap_ok small_span three_heap three_blocks"
  by (simp add: heap_ok_def heap_tiled_def three_heap_def three_blocks_def heap_end_def span_ok_def block_ok_def
      block_next_def small_span_def)

theorem deallocate_coalesces_witness:
  "\<exists>h'. deallocate small_span 4160 three_heap = Some h'
     \<and> heap_ok small_span h' [\<lparr>blk_off = 8, blk_span = 104, blk_live = None\<rparr>]"
  (is "\<exists>h'. _ \<and> heap_ok _ _ ?bs")
proof -
  have "(4160, 16) \<in> set (lives three_blocks)" by (simp add: three_blocks_def)
  moreover have "release 4160 three_blocks = ?bs" by code_simp
  ultimately show ?thesis using deallocate_coalesces [OF three_ok, of 4160 16] by auto
qed

text \<open>
  C33: The allocator always returns. In every state that a Tool reaches by allocating, freeing what it holds
  and writing its payloads, an allocation with any layout that Rust admits and a deallocation of any payload it
  holds end their walk along the free list.
\<close>

theorem allocator_returns:
  assumes "reach (tool_start sp) (tool_step sp) (h, ps)"
  shows "(layout_ok l \<longrightarrow> allocate sp l h \<noteq> None) \<and> ((p, n) \<in> set ps \<longrightarrow> deallocate sp p h \<noteq> None)"
proof -
  from tool.inv_reach [OF assms] obtain bs where bs: "heap_ok sp h bs" "mset ps = mset (lives bs)"
    by (auto simp: tool_inv_def)
  then have "set ps = set (lives bs)" by (metis set_mset_mset)
  then show ?thesis using allocate_ok [OF bs(1), of l] deallocate_ok [OF bs(1), of p n] by auto
qed

lemma reach_two_payloads:
  "\<exists>h. reach (tool_start small_span) (tool_step small_span) (h, [(4176, 10), (4128, 10)])"
proof -
  let ?h = "heap_new (\<lambda>_. 0)" and ?b = "\<lparr>blk_off = 8, blk_span = 40, blk_live = Some (4128, 10)\<rparr>"
  have "heap_end ?h = 8" by (simp add: heap_end_def heap_new_def)
  then have "allocate_spec small_span ten_bytes (heap_end ?h) [] = (Some 4128, [?b])"
    using small_first by (simp add: allocate_spec_def fresh_block_def small_span_def ten_bytes_def)
  with allocate_ok [OF heap_new_ok small_ok(2), of small_span "\<lambda>_. 0"] obtain h1 where
    h1: "allocate small_span ten_bytes ?h = Some (Some 4128, h1)" "heap_ok small_span h1 [?b]" by auto
  then have "heap_end h1 = 48" by (simp add: heap_ok_def heap_tiled_def)
  then have "fst (allocate_spec small_span ten_bytes (heap_end h1) [?b]) = Some 4176"
    using small_second by (simp add: allocate_spec_def small_span_def)
  with allocate_ok [OF h1(2) small_ok(2)] obtain h2 where
    h2: "allocate small_span ten_bytes h1 = Some (Some 4176, h2)" by auto
  have "reach (tool_start small_span) (tool_step small_span) (?h, [])"
    by (rule reach_start) (auto simp: tool_start_def)
  then have "reach (tool_start small_span) (tool_step small_span) (h1, [(4128, 10)])"
    by (rule reach_step) (use tool_step.allocated [OF small_ok(2) h1(1)] in \<open>simp add: ten_bytes_def\<close>)
  then have "reach (tool_start small_span) (tool_step small_span) (h2, [(4176, 10), (4128, 10)])"
    by (rule reach_step) (use tool_step.allocated [OF small_ok(2) h2] in \<open>simp add: ten_bytes_def\<close>)
  then show ?thesis by blast
qed

theorem allocator_returns_witness:
  "\<exists>h. allocate small_span ten_bytes h \<noteq> None \<and> deallocate small_span 4128 h \<noteq> None"
proof -
  obtain h where h: "reach (tool_start small_span) (tool_step small_span) (h, [(4176, 10), (4128, 10)])"
    using reach_two_payloads by blast
  then show ?thesis using allocator_returns [OF h, of ten_bytes 4128 10] by auto
qed

text \<open>
  C34: Live allocations never overlap. In every state that a Tool reaches, the payloads it holds start at
  different addresses, lie inside the arena, and no two of them share a byte.
\<close>

theorem live_payloads_apart:
  assumes "reach (tool_start sp) (tool_step sp) (h, ps)"
  shows "distinct (map fst ps)
    \<and> (\<forall>(p, n) \<in> set ps. span_base sp \<le> p \<and> p + n \<le> span_base sp + span_bytes sp)
    \<and> (\<forall>(p, n) \<in> set ps. \<forall>(q, k) \<in> set ps. p \<noteq> q \<longrightarrow> p + n \<le> q \<or> q + k \<le> p)"
proof -
  from tool.inv_reach [OF assms] obtain bs where t: "heap_tiled sp h bs" and m: "mset ps = mset (lives bs)"
    by (auto simp: tool_inv_def heap_ok_def)
  have s: "set ps = set (lives bs)" using m by (metis set_mset_mset)
  have "mset (map fst ps) = mset (map fst (lives bs))" using m by simp
  then have "distinct (map fst ps)" using lives_apart(1) [OF t] mset_eq_imp_distinct_iff by blast
  moreover have "span_base sp \<le> p \<and> p + n \<le> span_base sp + span_bytes sp" if a: "(p, n) \<in> set ps" for p n
  proof -
    obtain b where b: "b \<in> set bs" "blk_live b = Some (p, n)" using a s by (auto simp: in_lives)
    then show ?thesis using live_range [OF t b] tiled_bounds(2) [OF t b(1)] by simp
  qed
  moreover have "p + n \<le> q \<or> q + k \<le> p" if "(p, n) \<in> set ps" "(q, k) \<in> set ps" "p \<noteq> q" for p n q k
    using lives_apart(2) [OF t] that s by blast
  ultimately show ?thesis by fast
qed

theorem live_payloads_apart_witness:
  "\<exists>h. reach (tool_start small_span) (tool_step small_span) (h, [(4176, 10), (4128, 10)])
     \<and> (4176 + 10 \<le> (4128 :: nat) \<or> 4128 + 10 \<le> (4176 :: nat))"
proof -
  obtain h where h: "reach (tool_start small_span) (tool_step small_span) (h, [(4176, 10), (4128, 10)])"
    using reach_two_payloads by blast
  then show ?thesis using live_payloads_apart [OF h] by auto
qed

section \<open>Moving an allocation\<close>

lemma from_size_align_Some:
  "from_size_align n a = Some l \<Longrightarrow> layout_ok l \<and> lay_size l = n \<and> lay_align l = a"
  by (auto simp: from_size_align_def layout_ok_def list_ex_iff split: if_splits)

text \<open>A write inside one live payload.\<close>

lemma payload_write:
  assumes ok: "heap_ok sp h bs" and a: "(p, n) \<in> set (lives bs)"
    and w: "\<And>x. x < p \<or> p + n \<le> x \<Longrightarrow> m' x = heap_mem h x"
  shows "heap_ok sp (h\<lparr>heap_mem := m'\<rparr>) bs" "kept sp (heap_mem h) m' (filter (\<lambda>a. fst a \<noteq> p) (lives bs))"
proof -
  have t: "heap_tiled sp h bs" using ok by (simp add: heap_ok_def)
  have "tool_writes sp (lives bs) (heap_mem h) m'"
    unfolding tool_writes_def
  proof (intro allI impI)
    fix x assume "\<not> in_payload (lives bs) x"
    then have "\<not> (p \<le> x \<and> x < p + n)" using a unfolding in_payload_iff by blast
    then show "m' x = heap_mem h x" by (intro w) auto
  qed
  then show "heap_ok sp (h\<lparr>heap_mem := m'\<rparr>) bs" using tool_writes_tiled [OF t] ok by (simp add: heap_ok_def)
  obtain b where b: "b \<in> set bs" "blk_live b = Some (p, n)" using a by (auto simp: in_lives)
  have "m' x = heap_mem h x" if "\<not> contains_pointer sp x" for x
    using that w live_range [OF t b] tiled_bounds(2) [OF t b(1)] by (auto simp: contains_pointer_def)
  moreover have "m' x = heap_mem h x" if "(q, k) \<in> set (lives bs)" "q \<noteq> p" "q \<le> x" "x < q + k" for q k x
    using lives_apart(2) [OF t a that(1)] that w by auto
  ultimately show "kept sp (heap_mem h) m' (filter (\<lambda>a. fst a \<noteq> p) (lives bs))" by (auto simp: kept_def)
qed

text \<open>
  The steps of a move: the new payload, the copy, and the release of the old one.
\<close>

lemma realloc_moves:
  assumes ok: "heap_ok sp h bs" and l: "layout_ok l" and a: "(p, n) \<in> set (lives bs)" and k: "k \<le> n" "k \<le> lay_size l"
    and al: "allocate sp l h = Some (Some q, h1)"
  shows "\<exists>h' bs'. deallocate sp p (with_mem (copy_bytes p q k) h1) = Some h' \<and> heap_ok sp h' bs'
    \<and> add_mset (p, n) (mset (lives bs')) = add_mset (q, lay_size l) (mset (lives bs)) \<and> q mod lay_align l = 0
    \<and> (\<forall>i<k. heap_mem h' (q + i) = heap_mem h (p + i))
    \<and> kept sp (heap_mem h) (heap_mem h') (filter (\<lambda>a. fst a \<noteq> p) (lives bs))"
proof -
  have t: "heap_tiled sp h bs" using ok by (simp add: heap_ok_def)
  obtain cs where cs: "allocate_spec sp l (heap_end h) bs = (Some q, cs)"
    "heap_ok sp h1 cs" and k1: "kept sp (heap_mem h) (heap_mem h1) (lives bs)"
    by (rule allocate_returns [OF ok l al])
  note spec = allocate_spec_Some [OF t l cs(1)]
  have tc: "heap_tiled sp h1 cs" using cs(2) by (simp add: heap_ok_def)
  have set_cs: "set (lives cs) = insert (q, lay_size l) (set (lives bs))"
    using spec(2) by (metis set_mset_add_mset_insert set_mset_mset)
  have "distinct (map fst (lives cs))" by (rule lives_apart(1) [OF tc])
  moreover have "mset (map fst (lives cs)) = mset (q # map fst (lives bs))" using spec(2) by simp
  ultimately have "distinct (q # map fst (lives bs))" by (metis mset_eq_imp_distinct_iff)
  then have q: "q \<noteq> fst r" if "r \<in> set (lives bs)" for r using that by auto
  let ?m2 = "copy_bytes p q k (heap_mem h1)" and ?h2 = "with_mem (copy_bytes p q k) h1"
  have h2: "?h2 = h1\<lparr>heap_mem := ?m2\<rparr>" by (simp add: with_mem_def)
  have w: "?m2 x = heap_mem h1 x" if "x < q \<or> q + lay_size l \<le> x" for x
    using that k(2) by (auto simp: copy_bytes_def)
  have "(q, lay_size l) \<in> set (lives cs)" using set_cs by simp
  note pw = payload_write [OF cs(2) this w, folded h2]
  have ac: "(p, n) \<in> set (lives cs)" using a set_cs by simp
  obtain h' where h': "deallocate sp p ?h2 = Some h'" "heap_ok sp h' (release p cs)"
    "kept sp (heap_mem ?h2) (heap_mem h') (lives (release p cs))" using deallocate_ok [OF pw(1) ac] by blast
  have rel: "mset (lives cs) = add_mset (p, n) (mset (lives (release p cs)))"
    by (rule release_lives [OF tc ac])
  have in_rel: "r \<in> set (lives (release p cs))" if "r \<in> set (lives cs)" "fst r \<noteq> p" for r
    using that rel by (metis fst_conv insertE set_mset_add_mset_insert set_mset_mset)
  have "heap_mem h' (q + i) = heap_mem h (p + i)" if i: "i < k" for i
  proof -
    have "(q, lay_size l) \<in> set (lives (release p cs))" using in_rel set_cs q [OF a] by auto
    then have "heap_mem h' (q + i) = heap_mem ?h2 (q + i)" using h'(3) i k(2) by (fastforce simp: kept_def)
    also have "\<dots> = heap_mem h1 (p + i)" using i by (simp add: with_mem_def copy_bytes_def)
    also have "\<dots> = heap_mem h (p + i)" using k1 a i k(1) by (fastforce simp: kept_def)
    finally show ?thesis .
  qed
  moreover have "kept sp (heap_mem h) (heap_mem h') (filter (\<lambda>a. fst a \<noteq> p) (lives bs))"
  proof -
    let ?F = "filter (\<lambda>a. fst a \<noteq> p) (lives bs)"
    have s1: "kept sp (heap_mem h) (heap_mem h1) ?F" using k1 by (rule kept_subset) auto
    have s2: "kept sp (heap_mem h1) (heap_mem ?h2) ?F"
      using pw(2) unfolding h2 by (simp, elim kept_subset) (use set_cs q in auto)
    have s3: "kept sp (heap_mem ?h2) (heap_mem h') ?F"
      using h'(3) by (rule kept_subset) (use in_rel set_cs in auto)
    show ?thesis by (rule kept_trans [OF kept_trans [OF s1 s2] s3])
  qed
  ultimately show ?thesis using h'(1,2) spec rel by (intro exI [of _ h'] exI [of _ "release p cs"]) auto
qed

lemma realloc_within_ok:
  assumes ok: "heap_ok sp h bs" and a: "(p, lay_size old) \<in> set (lives bs)"
  shows "\<exists>r h' bs'. realloc_within sp p old n h = Some (r, h') \<and> heap_ok sp h' bs'
    \<and> (case r of
         None \<Rightarrow> h' = h \<and> bs' = bs
       | Some q \<Rightarrow> q mod lay_align old = 0
           \<and> add_mset (p, lay_size old) (mset (lives bs')) = add_mset (q, n) (mset (lives bs))
           \<and> (\<forall>i < min (lay_size old) n. heap_mem h' (q + i) = heap_mem h (p + i))
           \<and> kept sp (heap_mem h) (heap_mem h') (filter (\<lambda>a. fst a \<noteq> p) (lives bs)))"
proof (cases "from_size_align n (lay_align old)")
  case None
  then show ?thesis using ok by (intro exI [of _ None] exI [of _ h] exI [of _ bs]) (simp add: realloc_within_def)
next
  case (Some l)
  note l = from_size_align_Some [OF Some]
  obtain r h1 where al: "allocate sp l h = Some (r, h1)" "r = None \<longrightarrow> h1 = h" using allocate_ok [OF ok] l by metis
  show ?thesis
  proof (cases r)
    case None
    then show ?thesis using ok al Some
      by (intro exI [of _ None] exI [of _ h] exI [of _ bs]) (simp add: realloc_within_def)
  next
    case (Some q)
    with al have "allocate sp l h = Some (Some q, h1)" by simp
    from realloc_moves [OF ok _ a _ _ this, of "min (lay_size old) n"] l obtain h' bs' where
      "deallocate sp p (with_mem (copy_bytes p q (min (lay_size old) n)) h1) = Some h'" "heap_ok sp h' bs'"
      "add_mset (p, lay_size old) (mset (lives bs')) = add_mset (q, n) (mset (lives bs))" "q mod lay_align old = 0"
      "\<forall>i < min (lay_size old) n. heap_mem h' (q + i) = heap_mem h (p + i)"
      "kept sp (heap_mem h) (heap_mem h') (filter (\<lambda>a. fst a \<noteq> p) (lives bs))" by auto
    then show ?thesis using \<open>from_size_align n (lay_align old) = Some l\<close> al(1) Some
      by (intro exI [of _ "Some q"] exI [of _ h'] exI [of _ bs']) (simp add: realloc_within_def)
  qed
qed

text \<open>
  C35: A reallocation moves the contents. For a live allocation and its layout the operation returns. A null
  result leaves the heap as it was, with the source still live. A pointer is aligned as before, the first
  bytes, up to the smaller size, are those of the source, the new payload takes the place of the old one
  among the live ones, and no other live payload and nothing outside the arena changes.
\<close>

theorem realloc_keeps_contents:
  assumes ok: "heap_ok sp h bs" and a: "(p, lay_size old) \<in> set (lives bs)"
  shows "\<exists>r h' bs'. realloc_within sp p old n h = Some (r, h') \<and> heap_ok sp h' bs'
    \<and> (case r of
         None \<Rightarrow> h' = h \<and> bs' = bs
       | Some q \<Rightarrow> q mod lay_align old = 0
           \<and> add_mset (p, lay_size old) (mset (lives bs')) = add_mset (q, n) (mset (lives bs))
           \<and> (\<forall>i < min (lay_size old) n. heap_mem h' (q + i) = heap_mem h (p + i))
           \<and> kept sp (heap_mem h) (heap_mem h') (filter (\<lambda>a. fst a \<noteq> p) (lives bs)))"
  by (rule realloc_within_ok [OF assms])

text \<open>Shrinking the live block of the example moves it into the first free block.\<close>

theorem realloc_keeps_contents_witness:
  "\<exists>h'. realloc_within small_span 4160 \<lparr>lay_size = 16, lay_align = 8\<rparr> 4 three_heap = Some (Some 4128, h')
     \<and> heap_mem h' 4131 = heap_mem three_heap 4163"
proof -
  let ?old = "\<lparr>lay_size = 16, lay_align = 8\<rparr>" and ?l = "\<lparr>lay_size = 4, lay_align = 8\<rparr>"
  have f: "from_size_align 4 8 = Some ?l" by (simp add: from_size_align_def upt_rec)
  have "layout_end small_span 8 ?l = Some (4128, 40)"
    using align_up_eq [of 3 4128] align_up_eq [of 3 36] by (simp add: layout_end_def usize_add_def small_span_def)
  then have "fst (allocate_spec small_span ?l (heap_end three_heap) three_blocks) = Some 4128"
    by (simp add: allocate_spec_def three_blocks_def fits_def usize_add_def)
  with allocate_ok [OF three_ok] from_size_align_Some [OF f]
  obtain h1 where h1: "allocate small_span ?l three_heap = Some (Some 4128, h1)" by metis
  have a: "(4160, lay_size ?old) \<in> set (lives three_blocks)" by (simp add: three_blocks_def)
  obtain r h' where r: "realloc_within small_span 4160 ?old 4 three_heap = Some (r, h')"
    and c: "case r of None \<Rightarrow> True | Some q \<Rightarrow> \<forall>i < min (lay_size ?old) 4. heap_mem h' (q + i) = heap_mem three_heap (4160 + i)"
    using realloc_keeps_contents [OF three_ok a, of 4] by (fastforce split: option.splits)
  have "r = Some 4128" using r f h1 by (auto simp: realloc_within_def)
  then show ?thesis using r c by (auto dest!: spec [of _ 3])
qed

section \<open>A dispatch and the system's allocator\<close>

text \<open>The calls a Tool makes, with what the contract of an allocator asks of them.\<close>

datatype guest_call = Alloc Layout | Alloc_Zeroed Layout | Dealloc usize Layout | Realloc usize Layout usize

fun guest_run :: "'sys System \<Rightarrow> usize \<Rightarrow> guest_call \<Rightarrow> 'sys GuestHeap \<Rightarrow> (usize option \<times> 'sys GuestHeap) option" where
  "guest_run sys base (Alloc l) g = guest_alloc sys base l g"
| "guest_run sys base (Alloc_Zeroed l) g = guest_alloc_zeroed sys base l g"
| "guest_run sys base (Dealloc p l) g = map_option (\<lambda>g'. (None, g')) (guest_dealloc sys base p l g)"
| "guest_run sys base (Realloc p l n) g = guest_realloc sys base p l n g"

definition holds :: "usize \<Rightarrow> block list \<Rightarrow> usize \<Rightarrow> Layout \<Rightarrow> bool" where
  "holds base bs p l \<longleftrightarrow> (contains_pointer (tool_span base) p \<longrightarrow> (p, lay_size l) \<in> set (lives bs))"

fun call_ok :: "usize \<Rightarrow> block list \<Rightarrow> guest_call \<Rightarrow> bool" where
  "call_ok base bs (Alloc l) \<longleftrightarrow> layout_ok l"
| "call_ok base bs (Alloc_Zeroed l) \<longleftrightarrow> layout_ok l"
| "call_ok base bs (Dealloc p l) \<longleftrightarrow> holds base bs p l"
| "call_ok base bs (Realloc p l n) \<longleftrightarrow> holds base bs p l"

text \<open>An operation on the arena alone.\<close>

definition arena_only :: "ToolHeapSpan \<Rightarrow> ToolHeap \<Rightarrow> ToolHeap \<Rightarrow> bool" where
  "arena_only sp h h' \<longleftrightarrow>
     (\<exists>bs. heap_ok sp h' bs) \<and> (\<forall>x. \<not> contains_pointer sp x \<longrightarrow> heap_mem h' x = heap_mem h x)"

lemma kept_outside: "heap_ok sp h' bs' \<Longrightarrow> kept sp (heap_mem h) (heap_mem h') ps \<Longrightarrow> arena_only sp h h'"
  by (auto simp: arena_only_def kept_def)

lemma allocate_arena:
  assumes "heap_ok sp h bs" and "layout_ok l"
  shows "\<exists>r h'. allocate sp l h = Some (r, h') \<and> arena_only sp h h'"
  using allocate_ok [OF assms] kept_outside by metis

text \<open>So is an allocation that is then filled, from anywhere, up to its size.\<close>

lemma allocate_filled:
  assumes ok: "heap_ok sp h bs" and l: "layout_ok l" and al: "allocate sp l h = Some (Some p, h1)"
    and w: "\<And>x. x < p \<or> p + lay_size l \<le> x \<Longrightarrow> f (heap_mem h1) x = heap_mem h1 x"
  shows "arena_only sp h (with_mem f h1)"
proof -
  have t: "heap_tiled sp h bs" using ok by (simp add: heap_ok_def)
  obtain cs where cs: "allocate_spec sp l (heap_end h) bs = (Some p, cs)" "heap_ok sp h1 cs"
    and k: "kept sp (heap_mem h) (heap_mem h1) (lives bs)" by (rule allocate_returns [OF ok l al])
  have "(p, lay_size l) \<in> set (lives cs)"
    using allocate_spec_Some(2) [OF t l cs(1)] by (metis set_mset_add_mset_insert set_mset_mset insertI1)
  note pw = payload_write [OF cs(2) this, of "f (heap_mem h1)", OF w]
  then have "heap_ok sp (with_mem f h1) cs" by (simp add: with_mem_def)
  then show ?thesis using k pw(2) unfolding arena_only_def kept_def by (auto simp: with_mem_def)
qed

lemma zeroed_arena:
  assumes ok: "heap_ok sp h bs" and l: "layout_ok l" and al: "allocate sp l h = Some (r, h1)"
  shows "arena_only sp h (snd (zeroed l (r, h1)))"
proof (cases r)
  case None
  then show ?thesis using allocate_arena [OF ok l] al by (auto simp: zeroed_def)
next
  case (Some p)
  have "zero_bytes p (lay_size l) m x = m x" if "x < p \<or> p + lay_size l \<le> x" for m x
    using that by (auto simp: zero_bytes_def)
  then show ?thesis using allocate_filled [OF ok l, of p h1 "zero_bytes p (lay_size l)"] al Some
    by (simp add: zeroed_def)
qed

lemma realloc_arena:
  assumes ok: "heap_ok sp h bs" and "(p, lay_size old) \<in> set (lives bs)"
  shows "\<exists>r h'. realloc_within sp p old n h = Some (r, h') \<and> arena_only sp h h'"
proof -
  obtain r h' bs' where r: "realloc_within sp p old n h = Some (r, h')" "heap_ok sp h' bs'"
    and c: "case r of None \<Rightarrow> h' = h
      | Some q \<Rightarrow> kept sp (heap_mem h) (heap_mem h') (filter (\<lambda>a. fst a \<noteq> p) (lives bs))"
    using realloc_within_ok [OF assms, of n] by (fastforce split: option.splits)
  have "arena_only sp h h'"
  proof (cases r)
    case None
    then show ?thesis using c r(2) by (auto simp: arena_only_def)
  next
    case (Some q)
    then show ?thesis using c kept_outside [OF r(2)] by simp
  qed
  then show ?thesis using r(1) by blast
qed

text \<open>
  C36: A dispatch never enters the system's allocator. While a dispatch is active, on a well-formed heap and for
  calls that keep an allocator's contract, each of the four operations returns, whatever the system's allocator
  would do: its state is unchanged, its operations are not called (any other one gives the same result), the
  nesting of dispatches is unchanged, memory outside the Tool's arena is unchanged, and the heap is well
  formed again.
\<close>

theorem dispatch_isolated:
  assumes active: "dispatch_active g" and ok: "heap_ok (tool_span base) (tool_heap g) bs" and c: "call_ok base bs c"
  shows "\<exists>r g'. guest_run sys base c g = Some (r, g') \<and> guest_run sys' base c g = Some (r, g')
    \<and> system g' = system g \<and> dispatch_depth g' = dispatch_depth g
    \<and> arena_only (tool_span base) (tool_heap g) (tool_heap g')"
proof (cases c)
  case (Alloc l)
  then show ?thesis using allocate_arena [OF ok, of l] c active by (auto simp: guest_alloc_def on_heap_def)
next
  case (Alloc_Zeroed l)
  then obtain r h' where r: "allocate (tool_span base) l (tool_heap g) = Some (r, h')" using allocate_arena [OF ok] c by fastforce
  show ?thesis using zeroed_arena [OF ok _ r] r c active Alloc_Zeroed
    by (auto simp: guest_alloc_zeroed_def guest_alloc_def on_heap_def)
next
  case (Dealloc p l)
  show ?thesis
  proof (cases "contains_pointer (tool_span base) p")
    case True
    then have "(p, lay_size l) \<in> set (lives bs)" using c Dealloc by (simp add: holds_def)
    from deallocate_ok [OF ok this] obtain h' where "deallocate (tool_span base) p (tool_heap g) = Some h'"
      "arena_only (tool_span base) (tool_heap g) h'" using kept_outside by blast
    then show ?thesis using True Dealloc by (simp add: guest_dealloc_def)
  next
    case False
    then show ?thesis using Dealloc active ok by (auto simp: guest_dealloc_def arena_only_def)
  qed
next
  case (Realloc p old n)
  show ?thesis
  proof (cases "contains_pointer (tool_span base) p")
    case True
    then have "(p, lay_size old) \<in> set (lives bs)" using c Realloc by (simp add: holds_def)
    from realloc_arena [OF ok this, of n] show ?thesis
      using True Realloc by (auto simp: guest_realloc_def on_heap_def)
  next
    case foreign: False
    show ?thesis
    proof (cases "from_size_align n (lay_align old)")
      case None
      then show ?thesis using foreign Realloc active ok by (auto simp: guest_realloc_def arena_only_def)
    next
      case (Some l)
      note l = from_size_align_Some [OF Some]
      then obtain r h1 where r: "allocate (tool_span base) l (tool_heap g) = Some (r, h1)"
        "arena_only (tool_span base) (tool_heap g) h1" using allocate_arena [OF ok] by blast
      have "arena_only (tool_span base) (tool_heap g) (with_mem (copy_bytes p q (min (lay_size old) n)) h1)"
        if "r = Some q" for q
        by (rule allocate_filled [OF ok, of l q]) (use l r(1) that in \<open>auto simp: copy_bytes_def\<close>)
      then show ?thesis using foreign Realloc active Some r
        by (cases r) (auto simp: guest_realloc_def on_heap_def)
    qed
  qed
qed

text \<open>A system allocator that hands out nothing, and a Tool that reallocates a pointer of its.\<close>

definition no_system :: "unit System" where
  "no_system = \<lparr>sys_alloc = (\<lambda>_ s. (None, s)), sys_dealloc = (\<lambda>_ _ s. s), sys_realloc = (\<lambda>_ _ _ s. (None, s))\<rparr>"

theorem dispatch_isolated_witness:
  "\<exists>r g'. guest_run no_system 4096 (Realloc 64 ten_bytes 32)
      \<lparr>dispatch_depth = 1, tool_heap = heap_new (\<lambda>_. 7), system = ()\<rparr> = Some (r, g') \<and> heap_mem (tool_heap g') 64 = 7"
  (is "\<exists>r g'. guest_run _ _ ?c ?g = _ \<and> _")
proof -
  have "heap_ok (tool_span 4096) (tool_heap ?g) []"
    by (simp, rule heap_new_ok) (simp add: span_ok_def tool_span_def TOOL_HEAP_BYTES_def)
  moreover have "dispatch_active ?g" by (simp add: dispatch_active_def)
  moreover have out: "\<not> contains_pointer (tool_span 4096) 64" by (simp add: contains_pointer_def tool_span_def)
  moreover from out have "call_ok 4096 [] ?c" by (simp add: holds_def)
  ultimately obtain r g' where "guest_run no_system 4096 ?c ?g = Some (r, g')"
    "arena_only (tool_span 4096) (tool_heap ?g) (tool_heap g')"
    using dispatch_isolated [of ?g 4096 "[]" ?c no_system no_system] by blast
  then show ?thesis using out by (auto simp: arena_only_def heap_new_def)
qed

end
