(* ===== verification/Patch_Reserve.thy ===== *)
theory Patch_Reserve
  imports Tool_Heap_Blocks
begin

text \<open>
  The reserve for instrumentation planning, \<^verbatim>\<open>reverie-liteinst/src/patch_alloc.rs\<close>: a buffer with an atomic
  cursor that any number of threads advance by compare-and-exchange, without a lock. The threads are
  interleaved step by step. A relaxed load, and what a failed exchange observes, may be any value; an exchange
  may fail although the cursor has the expected value, and succeeds only if it has.
\<close>

section \<open>One reservation\<close>

definition PATCH_HEAP_BYTES :: usize where "PATCH_HEAP_BYTES = 32 * 1024 * 1024"

definition reserve :: "usize \<Rightarrow> Layout \<Rightarrow> usize \<Rightarrow> (usize \<times> usize) option" where
  "reserve base layout current =
     Option.bind (Option.bind (usize_add base current) (\<lambda>address. align_up address (lay_align layout))) (\<lambda>aligned_address.
     let offset = aligned_address - base in
     Option.bind (usize_add offset (lay_size layout)) (\<lambda>e.
     if e > PATCH_HEAP_BYTES then None else Some (aligned_address, e)))"

definition patch_contains :: "usize \<Rightarrow> usize \<Rightarrow> bool" where
  "patch_contains base pointer \<longleftrightarrow> base \<le> pointer \<and> pointer < base + PATCH_HEAP_BYTES"

text \<open>The loop without contention.\<close>

definition patch_allocate :: "usize \<Rightarrow> Layout \<Rightarrow> usize \<Rightarrow> usize option \<times> usize" where
  "patch_allocate base layout nxt =
     (case reserve base layout nxt of None \<Rightarrow> (None, nxt) | Some (aligned_address, e) \<Rightarrow> (Some aligned_address, e))"

text \<open>
  The allocator of a preload: reservations during an installation, the Tool's heap otherwise. Both buffers lie
  in one memory, at the base addresses \<open>pbase\<close> and \<open>tbase\<close>.
\<close>

record PatchHeaps =
  installation_depth :: usize
  patch_next :: usize
  patch_tool :: ToolHeap

definition patch_enter :: "PatchHeaps \<Rightarrow> PatchHeaps" where
  "patch_enter st = st\<lparr>installation_depth := installation_depth st + 1\<rparr>"

definition patch_drop :: "PatchHeaps \<Rightarrow> PatchHeaps" where
  "patch_drop st = st\<lparr>installation_depth := installation_depth st - 1\<rparr>"

definition installation_active :: "PatchHeaps \<Rightarrow> bool" where
  "installation_active st \<longleftrightarrow> installation_depth st \<noteq> 0"

definition on_tool :: "PatchHeaps \<Rightarrow> usize option \<times> ToolHeap \<Rightarrow> usize option \<times> PatchHeaps" where
  "on_tool st r = (fst r, st\<lparr>patch_tool := snd r\<rparr>)"

definition private_patch_alloc ::
    "usize \<Rightarrow> usize \<Rightarrow> Layout \<Rightarrow> PatchHeaps \<Rightarrow> (usize option \<times> PatchHeaps) option" where
  "private_patch_alloc pbase tbase layout st =
     (if installation_active st
      then case patch_allocate pbase layout (patch_next st) of (r, nxt) \<Rightarrow> Some (r, st\<lparr>patch_next := nxt\<rparr>)
      else map_option (on_tool st) (private_alloc tbase layout (patch_tool st)))"

definition private_patch_alloc_zeroed ::
    "usize \<Rightarrow> usize \<Rightarrow> Layout \<Rightarrow> PatchHeaps \<Rightarrow> (usize option \<times> PatchHeaps) option" where
  "private_patch_alloc_zeroed pbase tbase layout st =
     map_option (\<lambda>(r, st1). on_tool st1 (zeroed layout (r, patch_tool st1))) (private_patch_alloc pbase tbase layout st)"

definition private_patch_dealloc :: "usize \<Rightarrow> usize \<Rightarrow> usize \<Rightarrow> PatchHeaps \<Rightarrow> PatchHeaps owned option" where
  "private_patch_dealloc pbase tbase pointer st =
     (if patch_contains pbase pointer then Some (Value st)
      else map_option (map_owned (\<lambda>h. st\<lparr>patch_tool := h\<rparr>)) (private_dealloc tbase pointer (patch_tool st)))"

definition private_patch_realloc ::
    "usize \<Rightarrow> usize \<Rightarrow> usize \<Rightarrow> Layout \<Rightarrow> usize \<Rightarrow> PatchHeaps \<Rightarrow> (usize option \<times> PatchHeaps) owned option" where
  "private_patch_realloc pbase tbase pointer old new_size st =
     (if \<not> patch_contains pbase pointer
      then map_option (map_owned (on_tool st)) (private_realloc tbase pointer old new_size (patch_tool st))
      else
        Some (Value
          (case from_size_align new_size (lay_align old) of
             None \<Rightarrow> (None, st)
           | Some layout \<Rightarrow>
               (case patch_allocate pbase layout (patch_next st) of
                  (None, nxt) \<Rightarrow> (None, st\<lparr>patch_next := nxt\<rparr>)
                | (Some replacement, nxt) \<Rightarrow>
                    (Some replacement,
                     st\<lparr>patch_next := nxt,
                        patch_tool := with_mem (copy_bytes pointer replacement (min (lay_size old) new_size))
                          (patch_tool st)\<rparr>)))))"

section \<open>Threads\<close>

text \<open>The cursor, the layout and the value each thread in the loop works with, and what was returned so far.\<close>

record 't patch_state =
  cursor :: usize
  running :: "'t \<Rightarrow> (Layout \<times> usize) option"
  granted :: "(usize \<times> Layout) list"

inductive patch_step :: "usize \<Rightarrow> 't patch_state \<Rightarrow> 't patch_state \<Rightarrow> bool" for base where
  load:
    "running s t = None \<Longrightarrow> layout_ok l \<Longrightarrow>
     patch_step base s (s\<lparr>running := (running s)(t \<mapsto> (l, c))\<rparr>)"
| refused:
    "running s t = Some (l, c) \<Longrightarrow> reserve base l c = None \<Longrightarrow>
     patch_step base s (s\<lparr>running := (running s)(t := None)\<rparr>)"
| exchanged:
    "running s t = Some (l, c) \<Longrightarrow> reserve base l c = Some (a, e) \<Longrightarrow> cursor s = c \<Longrightarrow>
     patch_step base s (s\<lparr>cursor := e, running := (running s)(t := None), granted := (a, l) # granted s\<rparr>)"
| failed:
    "running s t = Some (l, c) \<Longrightarrow> reserve base l c = Some (a, e) \<Longrightarrow>
     patch_step base s (s\<lparr>running := (running s)(t \<mapsto> (l, observed))\<rparr>)"

definition patch_start :: "'t patch_state \<Rightarrow> bool" where
  "patch_start s \<longleftrightarrow> s = \<lparr>cursor = 0, running = (\<lambda>_. None), granted = []\<rparr>"

section \<open>Reservations do not overlap\<close>

lemma reserve_facts:
  assumes "layout_ok l" and "reserve base l c = Some (a, e)"
  shows "base + c \<le> a" "a mod lay_align l = 0" "a + lay_size l = base + e" "e \<le> PATCH_HEAP_BYTES"
proof -
  obtain k where k: "lay_align l = 2 ^ k" "2 ^ k \<le> (2 :: nat) ^ 63" using assms(1) by (auto simp: layout_ok_def)
  then have "k < 64" using power_increasing_iff [of "2 :: nat" k 63] by simp
  from assms(2) k(1) have b: "base + c < 2 ^ 64" "align_up (base + c) (2 ^ k) = Some a"
    "e = a - base + lay_size l" "e \<le> PATCH_HEAP_BYTES"
    by (auto simp: reserve_def Let_def usize_add_Some bind_eq_Some_conv split: if_splits)
  note al = align_up_Some [OF b(2) \<open>k < 64\<close> b(1)]
  show "base + c \<le> a" "a mod lay_align l = 0" "a + lay_size l = base + e" "e \<le> PATCH_HEAP_BYTES"
    using al b(3,4) k(1) by simp_all
qed

definition patch_inv :: "usize \<Rightarrow> 't patch_state \<Rightarrow> bool" where
  "patch_inv base s \<longleftrightarrow>
     cursor s \<le> PATCH_HEAP_BYTES
     \<and> (\<forall>t l c. running s t = Some (l, c) \<longrightarrow> layout_ok l)
     \<and> (\<forall>(a, l) \<in> set (granted s). base \<le> a \<and> a + lay_size l \<le> base + cursor s \<and> a mod lay_align l = 0)
     \<and> sorted_wrt (\<lambda>(a, l) (b, k). b + lay_size k \<le> a) (granted s)"

lemma patch_inv_exchanged:
  assumes inv: "patch_inv base s" and t: "running s t = Some (l, cursor s)" and r: "reserve base l (cursor s) = Some (a, e)"
  shows "patch_inv base (s\<lparr>cursor := e, running := (running s)(t := None), granted := (a, l) # granted s\<rparr>)"
proof -
  have l: "layout_ok l" using inv t by (auto simp: patch_inv_def)
  note f = reserve_facts [OF l r]
  have "b + lay_size k \<le> a" if "(b, k) \<in> set (granted s)" for b k
    using that inv f(1) by (fastforce simp: patch_inv_def)
  then show ?thesis using inv f by (fastforce simp: patch_inv_def)
qed

lemma patch_inv_step: "patch_inv base s \<Longrightarrow> patch_step base s s' \<Longrightarrow> patch_inv base s'"
  by (erule patch_step.cases) (auto intro!: patch_inv_exchanged, auto simp: patch_inv_def)

interpretation patch: invariant_machine patch_start "patch_step base" "patch_inv base" for base
proof unfold_locales
  show "patch_start s \<Longrightarrow> patch_inv base s" for s by (simp add: patch_start_def patch_inv_def)
qed (rule patch_inv_step)

text \<open>A thread that runs alone finishes: it observes the cursor, and the next exchange decides.\<close>

lemma patch_finishes:
  assumes t: "running s t = Some (l, c)"
  shows "\<exists>s'. (patch_step base)\<^sup>*\<^sup>* s s' \<and> running s' = (running s)(t := None)"
proof (cases "reserve base l c")
  case None
  from patch_step.refused [OF t this] show ?thesis by (intro exI [of _ "s\<lparr>running := (running s)(t := None)\<rparr>"]) auto
next
  case (Some r)
  let ?s = "s\<lparr>running := (running s)(t \<mapsto> (l, cursor s))\<rparr>"
  obtain a e where "reserve base l c = Some (a, e)" using Some by (cases r) auto
  then have s1: "patch_step base s ?s" by (rule patch_step.failed [OF t])
  have t1: "running ?s t = Some (l, cursor s)" by simp
  show ?thesis
  proof (cases "reserve base l (cursor s)")
    case None
    from patch_step.refused [OF t1 this] s1 show ?thesis
      by (intro exI [of _ "?s\<lparr>running := (running ?s)(t := None)\<rparr>"]) (auto intro: rtranclp.rtrancl_into_rtrancl)
  next
    case (Some r)
    then obtain a e where "reserve base l (cursor s) = Some (a, e)" by (cases r) auto
    from patch_step.exchanged [OF t1 this] s1 show ?thesis
      by (intro exI [of _ "?s\<lparr>cursor := e, running := (running ?s)(t := None), granted := (a, l) # granted ?s\<rparr>"])
        (auto intro: rtranclp.rtrancl_into_rtrancl)
  qed
qed

text \<open>An uncontended call is the load of the cursor and one exchange.\<close>

lemma patch_allocate_run:
  fixes s :: "'t patch_state"
  assumes "running s t = None" and "layout_ok l"
  shows "\<exists>s'. (patch_step base)\<^sup>*\<^sup>* s s' \<and> running s' = running s \<and> cursor s' = snd (patch_allocate base l (cursor s))
    \<and> map fst (granted s') = (case fst (patch_allocate base l (cursor s)) of None \<Rightarrow> [] | Some a \<Rightarrow> [a]) @ map fst (granted s)"
proof -
  let ?s = "s\<lparr>running := (running s)(t \<mapsto> (l, cursor s))\<rparr>"
  have s1: "patch_step base s ?s" by (rule patch_step.load [OF assms])
  have t1: "running ?s t = Some (l, cursor s)" by simp
  have idle: "(running s)(t := None) = running s" using assms(1) by auto
  show ?thesis
  proof (cases "reserve base l (cursor s)")
    case None
    from patch_step.refused [OF t1 this] s1 None idle show ?thesis
      by (intro exI [of _ "?s\<lparr>running := (running ?s)(t := None)\<rparr>"])
        (auto simp: patch_allocate_def intro: rtranclp.rtrancl_into_rtrancl)
  next
    case (Some r)
    then obtain a e where r: "reserve base l (cursor s) = Some (a, e)" by (cases r) auto
    from patch_step.exchanged [OF t1 r] s1 r idle show ?thesis
      by (intro exI [of _ "?s\<lparr>cursor := e, running := (running ?s)(t := None), granted := (a, l) # granted ?s\<rparr>"])
        (auto simp: patch_allocate_def intro: rtranclp.rtrancl_into_rtrancl)
  qed
qed

text \<open>A reallocation in the reserve copies the contents; the source keeps its bytes, as it is never reclaimed.\<close>

lemma patch_realloc_copies:
  assumes "patch_contains pbase p" and below: "p + lay_size old \<le> pbase + patch_next st"
    and r: "private_patch_realloc pbase tbase p old n st = Some (Value (Some q, st'))"
  shows "\<forall>i < min (lay_size old) n. heap_mem (patch_tool st') (q + i) = heap_mem (patch_tool st) (p + i)"
    and "\<forall>i < lay_size old. heap_mem (patch_tool st') (p + i) = heap_mem (patch_tool st) (p + i)"
proof -
  obtain l e where l: "from_size_align n (lay_align old) = Some l" "reserve pbase l (patch_next st) = Some (q, e)"
    and st': "st' = st\<lparr>patch_next := e, patch_tool := with_mem (copy_bytes p q (min (lay_size old) n)) (patch_tool st)\<rparr>"
    using assms by (auto simp: private_patch_realloc_def patch_allocate_def split: option.splits)
  have "layout_ok l" using l(1) by (auto simp: from_size_align_def layout_ok_def list_ex_iff split: if_splits)
  then have "pbase + patch_next st \<le> q" using reserve_facts(1) l(2) by blast
  then show "\<forall>i < min (lay_size old) n. heap_mem (patch_tool st') (q + i) = heap_mem (patch_tool st) (p + i)"
    "\<forall>i < lay_size old. heap_mem (patch_tool st') (p + i) = heap_mem (patch_tool st) (p + i)"
    using below by (auto simp: st' with_mem_def copy_bytes_def)
qed



end
