(* ===== verification/Gdb_Packet.thy ===== *)
theory Gdb_Packet
  imports Reverie_Prelude
begin

text \<open>
  The wire format of the GDB server, \<^verbatim>\<open>reverie-ptrace/src/gdbstub/hex.rs\<close>, \<^verbatim>\<open>packet.rs\<close> and the receiving
  loop of \<^verbatim>\<open>server.rs\<close>: hexadecimal and escaped strings, the checksum of a frame, and a reader that finds
  frames in a stream that arrives in pieces. The parser of a command is an argument.
\<close>

unbundle bit_operations_syntax

section \<open>Hexadecimal strings\<close>

datatype GdbHexError = NotAscii | Empty | Overflow | InvalidGdbHex | InvalidGdbBinary | InvalidOutput

definition from_hex :: "u8 \<Rightarrow> u8 option" where
  "from_hex c =
     (if 48 \<le> c \<and> c \<le> 57 then Some (c - 48)
      else if 97 \<le> c \<and> c \<le> 102 then Some (c - 97 + 10)
      else if 65 \<le> c \<and> c \<le> 70 then Some (c - 65 + 10)
      else if c = 120 \<or> c = 88 then Some 0
      else None)"

definition to_hex :: "u8 \<Rightarrow> u8 option" where
  "to_hex c = (if c > 15 then None else if c < 10 then Some (c + 48) else Some (c + 65))"

text \<open>An integer type is given by its largest value.\<close>

fun decode_digits :: "nat \<Rightarrow> nat \<Rightarrow> u8 list \<Rightarrow> (GdbHexError, nat) outcome" where
  "decode_digits largest result [] = Ok result"
| "decode_digits largest result (digit # buf) =
     (case from_hex digit of
        None \<Rightarrow> Err NotAscii
      | Some x \<Rightarrow>
          if unat x > largest then Err InvalidOutput
          else if result * 16 > largest then Err Overflow
          else if result * 16 + unat x > largest then Err Overflow
          else decode_digits largest (result * 16 + unat x) buf)"

definition decode_hex :: "nat \<Rightarrow> u8 list \<Rightarrow> (GdbHexError, nat) outcome" where
  "decode_hex largest buf =
     (if buf = [] then Err Empty else if 16 > largest then Err InvalidOutput else decode_digits largest 0 buf)"

text \<open>Pairs of digits. A string that is too short for the loop's bound makes the bound underflow.\<close>

fun hex_pairs :: "u8 list \<Rightarrow> (GdbHexError, u8 list) outcome" where
  "hex_pairs (a # b # buf) =
     (case from_hex a of
        None \<Rightarrow> Err NotAscii
      | Some x \<Rightarrow>
          (case from_hex b of
             None \<Rightarrow> Err NotAscii
           | Some y \<Rightarrow>
               (case hex_pairs buf of Ok res \<Rightarrow> Ok ((16 * x + y) # res) | Err e \<Rightarrow> Err e | Panic \<Rightarrow> Panic)))"
| "hex_pairs _ = Ok []"

definition decode_hex_string :: "u8 list \<Rightarrow> (GdbHexError, u8 list) outcome" where
  "decode_hex_string buf =
     (if length buf mod 2 \<noteq> 0 then Err InvalidGdbHex
      else if length buf = 0 then Panic
      else hex_pairs buf)"

text \<open>The elements that \<^verbatim>\<open>GdbHexString\<close> serialises, and the digits it makes of bytes.\<close>

definition hex_serialize :: "u8 list \<Rightarrow> (GdbHexError, u8 list) outcome" where
  "hex_serialize bytes = (if bytes = [] \<or> length bytes mod 2 \<noteq> 0 then Err InvalidGdbHex else hex_pairs bytes)"

fun hex_visit_bytes :: "u8 list \<Rightarrow> (GdbHexError, u8 list) outcome" where
  "hex_visit_bytes [] = Ok []"
| "hex_visit_bytes (ch # v) =
     (case to_hex (drop_bit 4 ch) of
        None \<Rightarrow> Panic
      | Some hi \<Rightarrow>
          (case to_hex (ch AND 15) of
             None \<Rightarrow> Panic
           | Some lo \<Rightarrow>
               (case hex_visit_bytes v of Ok res \<Rightarrow> Ok (hi # lo # res) | Err e \<Rightarrow> Err e | Panic \<Rightarrow> Panic)))"

section \<open>Escaped strings\<close>

fun decode_binary_string :: "u8 list \<Rightarrow> (GdbHexError, u8 list) outcome" where
  "decode_binary_string [] = Ok []"
| "decode_binary_string (c # buf) =
     (if c = 125 then
        (case buf of
           [] \<Rightarrow> Err InvalidGdbBinary
         | d # rest \<Rightarrow>
             (case decode_binary_string rest of Ok res \<Rightarrow> Ok ((d XOR 32) # res) | Err e \<Rightarrow> Err e | Panic \<Rightarrow> Panic))
      else (case decode_binary_string buf of Ok res \<Rightarrow> Ok (c # res) | Err e \<Rightarrow> Err e | Panic \<Rightarrow> Panic))"

fun binary_visit_bytes :: "u8 list \<Rightarrow> u8 list" where
  "binary_visit_bytes [] = []"
| "binary_visit_bytes (ch # v) =
     (if ch = 35 \<or> ch = 36 \<or> ch = 125 \<or> ch = 42 then 125 # (ch XOR 32) # binary_visit_bytes v
      else ch # binary_visit_bytes v)"

section \<open>Packets\<close>

datatype 'e PacketParseError =
    ChecksumMismatched u8 u8
  | EmptyBuf
  | MissingChecksum
  | PacketTooLarge nat
  | MalformedChecksum
  | CommandError 'e
  | UnexpectedHeader u8
  | DecodeHexError GdbHexError

datatype 'c Packet = Ack | Nack | Interrupt | Command 'c

fun checksum_delimiter :: "u8 list \<Rightarrow> bool \<Rightarrow> nat option \<times> bool" where
  "checksum_delimiter [] escaped = (None, escaped)"
| "checksum_delimiter (b # bytes) escaped =
     (if \<not> escaped \<and> b = 35 then (Some 0, False)
      else map_prod (map_option Suc) (\<lambda>e. e) (checksum_delimiter bytes (\<not> escaped \<and> b = 125)))"

definition decode_packet :: "u8 list \<Rightarrow> ('e PacketParseError, u8 list) outcome" where
  "decode_packet bytes =
     (case fst (checksum_delimiter bytes False) of
        None \<Rightarrow> Err MissingChecksum
      | Some end_of_body \<Rightarrow>
          let body = take end_of_body bytes; tail = drop end_of_body bytes in
          if length tail < 3 then Err MissingChecksum
          else
            (case decode_hex 255 (take 2 (drop 1 tail)) of
               Err _ \<Rightarrow> Err MalformedChecksum
             | Panic \<Rightarrow> Panic
             | Ok checksum \<Rightarrow>
                 let calculated = fold (\<lambda>x a. a + x) (drop 1 body) 0 in
                 if calculated \<noteq> of_nat checksum then Err (ChecksumMismatched (of_nat checksum) calculated)
                 else if end_of_body = 0 then Panic
                 else Ok (drop 1 body)))"

definition packet_try_from ::
    "(u8 list \<Rightarrow> ('e, 'c) outcome) \<Rightarrow> u8 list \<Rightarrow> ('e PacketParseError, 'c Packet) outcome" where
  "packet_try_from try_parse buf =
     (case buf of
        [] \<Rightarrow> Err EmptyBuf
      | prefix # _ \<Rightarrow>
          if prefix = 36 then
            (case decode_packet buf of
               Err e \<Rightarrow> Err e
             | Panic \<Rightarrow> Panic
             | Ok body \<Rightarrow>
                 (case try_parse body of
                    Ok c \<Rightarrow> Ok (Command c) | Err e \<Rightarrow> Err (CommandError e) | Panic \<Rightarrow> Panic))
          else if prefix = 43 then Ok Ack
          else if prefix = 45 then Ok Nack
          else if prefix = 3 then Ok Interrupt
          else Err (UnexpectedHeader prefix))"

section \<open>Receiving\<close>

definition PACKET_DATA_CAPACITY :: nat where "PACKET_DATA_CAPACITY = 0x8000"
definition PACKET_BUFFER_CAPACITY :: nat where "PACKET_BUFFER_CAPACITY = PACKET_DATA_CAPACITY + 4"

datatype 'c PacketWithAck = JustPacket "'c Packet" | WithAck "'c Packet"

datatype 'e recv_error = PacketError "'e PacketParseError" | ConnReset

record scan =
  with_ack :: bool
  searched :: nat
  escaped :: bool
  frame_len :: "nat option"

definition scan_start :: scan where
  "scan_start = \<lparr>with_ack = False, searched = 0, escaped = False, frame_len = None\<rparr>"

text \<open>An acknowledgement before more bytes is taken off, once.\<close>

definition take_ack :: "scan \<Rightarrow> u8 list \<Rightarrow> scan \<times> u8 list" where
  "take_ack sc rx_buf =
     (case rx_buf of
        first # rest \<Rightarrow>
          if first = 43 \<and> \<not> with_ack sc \<and> rest \<noteq> [] then (sc\<lparr>with_ack := True\<rparr>, rest) else (sc, rx_buf)
      | [] \<Rightarrow> (sc, rx_buf))"

definition find_frame :: "scan \<Rightarrow> u8 list \<Rightarrow> scan" where
  "find_frame sc rx_buf =
     (case rx_buf of
        [] \<Rightarrow> sc
      | first # _ \<Rightarrow>
          if first = 36 then
            (case frame_len sc of
               Some _ \<Rightarrow> sc
             | None \<Rightarrow>
                 (case checksum_delimiter (drop (searched sc) rx_buf) (escaped sc) of
                    (offset, e) \<Rightarrow>
                      sc\<lparr>frame_len := map_option (\<lambda>i. searched sc + i + 3) offset,
                         searched := length rx_buf, escaped := e\<rparr>))
          else sc\<lparr>frame_len := Some 1\<rparr>)"

definition frame_ready ::
    "(u8 list \<Rightarrow> ('e, 'c) outcome) \<Rightarrow> scan \<Rightarrow> u8 list \<Rightarrow> (('e recv_error, 'c PacketWithAck) outcome \<times> u8 list) option" where
  "frame_ready try_parse sc rx_buf =
     (case frame_len sc of
        None \<Rightarrow> None
      | Some len \<Rightarrow>
          if len > PACKET_BUFFER_CAPACITY
          then Some (Err (PacketError (PacketTooLarge PACKET_DATA_CAPACITY)), rx_buf)
          else if length rx_buf \<ge> len then
            Some (case packet_try_from try_parse (take len rx_buf) of
                    Ok packet \<Rightarrow> Ok (if with_ack sc then WithAck packet else JustPacket packet)
                  | Err e \<Rightarrow> Err (PacketError e)
                  | Panic \<Rightarrow> Panic,
                  drop len rx_buf)
          else None)"

text \<open>
  The loop, over the bytes the peer still sends. A read returns one byte or more, as many as \<open>pace\<close> says
  within what is there and what the buffer holds, or fails; it returns none at the end of the stream.
\<close>

function recv_loop ::
    "(u8 list \<Rightarrow> ('e, 'c) outcome) \<Rightarrow> (nat \<Rightarrow> nat option) \<Rightarrow> scan \<Rightarrow> u8 list \<Rightarrow> u8 list \<Rightarrow>
     ('e recv_error, 'c PacketWithAck) outcome \<times> u8 list \<times> u8 list" where
  "recv_loop try_parse pace sc0 buf0 stream =
     (let (sc1, rx_buf) = take_ack sc0 buf0; sc = find_frame sc1 rx_buf in
      case frame_ready try_parse sc rx_buf of
        Some (r, rest) \<Rightarrow> (r, rest, stream)
      | None \<Rightarrow>
          if length rx_buf > PACKET_BUFFER_CAPACITY then (Panic, rx_buf, stream)
          else if length rx_buf = PACKET_BUFFER_CAPACITY
          then (Err (PacketError (PacketTooLarge PACKET_DATA_CAPACITY)), rx_buf, stream)
          else
            (case pace (length stream) of
               None \<Rightarrow> (Err ConnReset, rx_buf, stream)
             | Some n \<Rightarrow>
                 if stream = []
                 then (Err (PacketError (if rx_buf = [] then EmptyBuf else MissingChecksum)), rx_buf, stream)
                 else
                   let k = min (Suc n) (PACKET_BUFFER_CAPACITY - length rx_buf) in
                   recv_loop try_parse pace sc (rx_buf @ take k stream) (drop k stream)))"
  by pat_completeness auto

termination
  by (relation "measure (\<lambda>(_, _, _, _, stream). length stream)") auto

definition recv_packet ::
    "(u8 list \<Rightarrow> ('e, 'c) outcome) \<Rightarrow> (nat \<Rightarrow> nat option) \<Rightarrow> u8 list \<Rightarrow> u8 list \<Rightarrow>
     ('e recv_error, 'c PacketWithAck) outcome \<times> u8 list \<times> u8 list" where
  "recv_packet try_parse pace rx_buf stream = recv_loop try_parse pace scan_start rx_buf stream"

end
