(* ===== verification/Gdb_Stream.thy ===== *)
theory Gdb_Stream
  imports Gdb_Packet
begin

text \<open>
  The GDB server's wire format is read back as it was written: what the hexadecimal codec really accepts,
  escaped data inside a frame, the frames that are accepted, and that the receiving loop finds a frame however
  the stream is cut into reads.
\<close>

section \<open>Strings\<close>

lemma nibbles: "c \<le> 15 \<Longrightarrow> c \<in> set (map of_nat [0..<16])" for c :: u8
proof -
  assume "c \<le> 15"
  then have "unat c < 16" by (simp add: word_le_nat_alt)
  then have "of_nat (unat c) \<in> set (map of_nat [0..<16] :: u8 list)" by (metis atLeastLessThan_iff image_eqI set_map set_upt zero_le)
  then show ?thesis by simp
qed

lemma nibble_hex: "c \<le> 15 \<Longrightarrow> \<exists>d. to_hex c = Some d \<and> from_hex d = (if c < 10 then Some c else None)"
proof -
  assume "c \<le> 15"
  moreover have "list_all (\<lambda>c. Option.bind (to_hex c) from_hex = (if c < 10 then Some c else None) \<and> to_hex c \<noteq> None) (map of_nat [0..<16])"
    by code_simp
  ultimately show ?thesis using nibbles by (fastforce simp: list_all_iff)
qed

definition decimal_nibbles :: "u8 \<Rightarrow> bool" where
  "decimal_nibbles b \<longleftrightarrow> drop_bit 4 b < 10 \<and> b AND 15 < 10"

lemma low_nibble: "b AND 15 = take_bit 4 b" for b :: u8
  by (simp add: take_bit_eq_mask mask_eq_exp_minus_1)

lemma hex_byte:
  obtains hi lo where "to_hex (drop_bit 4 b) = Some hi" "to_hex (b AND 15) = Some lo"
    "from_hex hi = (if drop_bit 4 b < 10 then Some (drop_bit 4 b) else None)"
    "from_hex lo = (if b AND 15 < 10 then Some (b AND 15) else None)" "16 * drop_bit 4 b + (b AND 15) = b"
proof -
  have "unat (drop_bit 4 b) \<le> 15" "unat (b AND 15) \<le> 15"
    using unsigned_less [of b, where ?'a = nat]
    by (simp_all add: drop_bit_eq_div low_nibble take_bit_eq_mod unat_div unat_mod)
  then have "drop_bit 4 b \<le> 15" "b AND 15 \<le> 15" by (simp_all add: word_le_nat_alt)
  moreover have "16 * drop_bit 4 b + (b AND 15) = b"
    using bits_ident [of 4 b] by (simp add: push_bit_eq_mult low_nibble mult.commute)
  ultimately show thesis using that nibble_hex [of "drop_bit 4 b"] nibble_hex [of "b AND 15"] by blast
qed

lemma hex_pairs_no_panic: "hex_pairs buf \<noteq> Panic"
proof (induction buf rule: hex_pairs.induct)
  case (1 a b buf)
  then show ?case by (cases "from_hex a"; cases "from_hex b") (auto split: outcome.split)
qed auto

lemma hex_visit_pairs:
  "\<exists>ds. hex_visit_bytes bs = Ok ds \<and> length ds = 2 * length bs \<and> (hex_pairs ds = Ok bs \<longleftrightarrow> list_all decimal_nibbles bs)"
proof (induction bs)
  case (Cons b bs)
  then obtain ds where ds: "hex_visit_bytes bs = Ok ds" "length ds = 2 * length bs"
    "hex_pairs ds = Ok bs \<longleftrightarrow> list_all decimal_nibbles bs" by blast
  obtain hi lo where "to_hex (drop_bit 4 b) = Some hi" "to_hex (b AND 15) = Some lo"
    "from_hex hi = (if drop_bit 4 b < 10 then Some (drop_bit 4 b) else None)"
    "from_hex lo = (if b AND 15 < 10 then Some (b AND 15) else None)" "16 * drop_bit 4 b + (b AND 15) = b"
    by (rule hex_byte)
  then show ?case using ds by (auto simp: decimal_nibbles_def [of b] split: outcome.splits)
qed simp

lemma escape_round_trip: "decode_binary_string (binary_visit_bytes bs) = Ok bs"
proof -
  have "(b XOR 32) XOR 32 = b" for b :: u8 by (simp add: xor.assoc)
  then show ?thesis by (induction bs) auto
qed

interpretation escape: codec binary_visit_bytes
  "\<lambda>bs. case decode_binary_string bs of Ok r \<Rightarrow> Some r | Err _ \<Rightarrow> None | Panic \<Rightarrow> None" "\<lambda>_. True"
  by unfold_locales (simp add: escape_round_trip)

text \<open>The delimiter in two pieces.\<close>

lemma delimiter_append:
  "checksum_delimiter (xs @ ys) e =
     (case checksum_delimiter xs e of
        (Some i, e') \<Rightarrow> (Some i, e')
      | (None, e') \<Rightarrow> map_prod (map_option ((+) (length xs))) (\<lambda>e. e) (checksum_delimiter ys e'))"
proof (induction xs arbitrary: e)
  case Nil
  have "(+) (0 :: nat) = (\<lambda>x. x)" by auto
  then show ?case by (simp add: map_prod_def split_beta option.map_ident)
next
  case (Cons x xs)
  have s: "(+) (Suc n) = (\<lambda>i. Suc (n + i))" for n by auto
  show ?case using Cons [of "\<not> e \<and> x = 125"]
    by (auto simp: option.map_comp comp_def map_prod_def s split: prod.splits option.splits)
qed

text \<open>Data without an open delimiter, as every escaped string is.\<close>

definition framed :: "u8 list \<Rightarrow> bool" where
  "framed bs \<longleftrightarrow> checksum_delimiter bs False = (None, False)"

lemma escape_framed: "framed (binary_visit_bytes bs)"
proof (induction bs)
  case (Cons b bs)
  then show ?case by (auto simp: framed_def)
qed (simp add: framed_def)

lemma delimiter_found:
  "fst (checksum_delimiter bs e) = Some i \<longleftrightarrow>
     (\<exists>xs ys. bs = xs @ 35 # ys \<and> length xs = i \<and> checksum_delimiter xs e = (None, False))"
proof (induction bs arbitrary: e i)
  case (Cons b bs)
  show ?case
  proof (cases "\<not> e \<and> b = 35")
    case True
    have no: "xs = []" if "b # bs = xs @ 35 # ys" "checksum_delimiter xs e = (None, False)" for xs ys
      using that True by (cases xs) auto
    have "fst (checksum_delimiter (b # bs) e) = Some 0" using True by simp
    moreover have "\<exists>xs ys. b # bs = xs @ 35 # ys \<and> length xs = 0 \<and> checksum_delimiter xs e = (None, False)"
      using True by (intro exI [of _ "[]"] exI [of _ bs]) simp
    ultimately show ?thesis using no by (metis list.size(3) option.inject)
  next
    case False
    let ?e = "\<not> e \<and> b = 125"
    have "fst (checksum_delimiter (b # bs) e) = Some i \<longleftrightarrow> (\<exists>j. i = Suc j \<and> fst (checksum_delimiter bs ?e) = Some j)"
      using False by (auto simp: map_prod_def split: prod.splits)
    also have "\<dots> \<longleftrightarrow> (\<exists>xs ys. b # bs = xs @ 35 # ys \<and> length xs = i \<and> checksum_delimiter xs e = (None, False))"
      (is "?L \<longleftrightarrow> ?R")
    proof
      assume ?L
      then obtain j where j: "i = Suc j" "fst (checksum_delimiter bs ?e) = Some j" by (elim exE conjE)
      from j(2) [unfolded Cons.IH] j(1) obtain xs ys where
        "bs = xs @ 35 # ys" "i = Suc (length xs)" "checksum_delimiter xs ?e = (None, False)" by auto
      then show ?R using False by (intro exI [of _ "b # xs"] exI [of _ ys]) auto
    next
      assume ?R
      then obtain xs ys where x: "b # bs = xs @ 35 # ys" "length xs = i" "checksum_delimiter xs e = (None, False)" by blast
      then obtain zs where z: "xs = b # zs" "bs = zs @ 35 # ys" using False by (cases xs) auto
      then have "checksum_delimiter zs ?e = (None, False)"
        using x(3) False by (cases "checksum_delimiter zs ?e") (auto simp: map_prod_def split: if_splits)
      then show ?L using x z Cons.IH by auto
    qed
    finally show ?thesis .
  qed
qed simp


section \<open>Frames\<close>

definition byte_sum :: "u8 list \<Rightarrow> u8" where
  "byte_sum bs = fold (\<lambda>x a. a + x) bs 0"

lemma two_digits:
  "decode_hex 255 [a, b] = Ok n \<longleftrightarrow> (\<exists>x y. from_hex a = Some x \<and> from_hex b = Some y \<and> n = 16 * unat x + unat y)"
  "decode_hex 255 [a, b] \<noteq> Panic"
proof -
  have "unat x \<le> 15" if "from_hex c = Some x" for c x
  proof -
    have "x \<le> 15" using that by (auto simp: from_hex_def word_le_nat_alt unat_sub_if' split: if_splits) 
    then show ?thesis by (simp add: word_le_nat_alt)
  qed
  note small = this
  show "decode_hex 255 [a, b] = Ok n \<longleftrightarrow> (\<exists>x y. from_hex a = Some x \<and> from_hex b = Some y \<and> n = 16 * unat x + unat y)"
    using small [of a] small [of b] by (fastforce simp: decode_hex_def split: option.splits)
  show "decode_hex 255 [a, b] \<noteq> Panic" by (auto simp: decode_hex_def split: option.splits)
qed

lemma decode_packet_exact:
  "decode_packet bs = Ok body \<longleftrightarrow>
     (\<exists>c d1 d2 x y rest. bs = c # body @ 35 # d1 # d2 # rest \<and> framed (c # body)
        \<and> from_hex d1 = Some x \<and> from_hex d2 = Some y \<and> byte_sum body = 16 * x + y)" (is "_ \<longleftrightarrow> ?R")
proof
  assume ok: "decode_packet bs = Ok body"
  then obtain i where i: "fst (checksum_delimiter bs False) = Some i" by (auto simp: decode_packet_def split: option.splits)
  then obtain xs ys where bs: "bs = xs @ 35 # ys" "length xs = i" "framed xs" by (auto simp: delimiter_found framed_def)
  have len: "2 \<le> length ys" using ok i bs by (auto simp: decode_packet_def Let_def split: if_splits)
  then obtain d1 d2 rest where ys: "ys = d1 # d2 # rest" by (cases ys; cases "tl ys") auto
  obtain n where n: "decode_hex 255 [d1, d2] = Ok n" "byte_sum (drop 1 xs) = of_nat n" "xs \<noteq> []" "body = drop 1 xs"
    using ok i bs ys by (auto simp: decode_packet_def Let_def byte_sum_def split: outcome.splits if_splits)
  from n(1) obtain x y where xy: "from_hex d1 = Some x" "from_hex d2 = Some y" "n = 16 * unat x + unat y"
    unfolding two_digits by blast
  obtain c where c: "xs = c # body" using n(3,4) by (cases xs) auto
  have "byte_sum body = 16 * x + y" using n(2,4) xy(3) by simp
  then show ?R using bs ys c xy by auto
next
  assume ?R
  then obtain c d1 d2 x y rest where r: "bs = (c # body) @ 35 # d1 # d2 # rest" "framed (c # body)"
    "from_hex d1 = Some x" "from_hex d2 = Some y" "byte_sum body = 16 * x + y" by auto
  have i: "fst (checksum_delimiter bs False) = Some (length (c # body))"
    using r(1,2) unfolding delimiter_found framed_def by blast
  have "decode_hex 255 [d1, d2] = Ok (16 * unat x + unat y)" unfolding two_digits using r(3,4) by blast
  then show "decode_packet bs = Ok body" using i r(1,5) by (simp add: decode_packet_def Let_def byte_sum_def)
qed

section \<open>Reads\<close>

declare recv_loop.simps [simp del]

definition scanned :: "nat \<Rightarrow> scan \<Rightarrow> u8 list \<Rightarrow> bool" where
  "scanned n sc buf \<longleftrightarrow> \<not> with_ack sc
     \<and> (frame_len sc = Some n
        \<or> frame_len sc = None \<and> searched sc \<le> length buf
          \<and> checksum_delimiter (take (searched sc) buf) False = (None, escaped sc))"

lemma scanned_more: "scanned n sc buf \<Longrightarrow> scanned n sc (buf @ new)"
  by (auto simp: scanned_def)

lemma find_frame_scanned:
  assumes sc: "scanned (i + 3) sc (36 # buf)" and d: "fst (checksum_delimiter (36 # buf) False) \<in> {None, Some i}"
  shows "scanned (i + 3) (find_frame sc (36 # buf)) (36 # buf)"
    and "fst (checksum_delimiter (36 # buf) False) = Some i \<Longrightarrow> frame_len (find_frame sc (36 # buf)) = Some (i + 3)"
proof -
  let ?b = "36 # buf" and ?s = "searched sc"
  have "scanned (i + 3) (find_frame sc ?b) ?b
    \<and> (fst (checksum_delimiter ?b False) = Some i \<longrightarrow> frame_len (find_frame sc ?b) = Some (i + 3))"
  proof (cases "frame_len sc")
    case (Some n)
    then show ?thesis using sc by (auto simp: scanned_def find_frame_def)
  next
    case None
    then have s: "?s \<le> length ?b" "checksum_delimiter (take ?s ?b) False = (None, escaped sc)"
      using sc by (auto simp: scanned_def)
    obtain off e where o: "checksum_delimiter (drop ?s ?b) (escaped sc) = (off, e)" by fastforce
    have all: "checksum_delimiter ?b False = (map_option ((+) ?s) off, e)"
      using delimiter_append [of "take ?s ?b" "drop ?s ?b" False] s o by (simp del: drop_Cons' take_Cons')
    have f: "find_frame sc ?b = sc\<lparr>frame_len := map_option (\<lambda>i. ?s + i + 3) off, searched := length ?b, escaped := e\<rparr>"
      using o None by (simp add: find_frame_def del: drop_Cons' take_Cons')
    show ?thesis using all d sc unfolding f by (cases off) (auto simp: scanned_def)
  qed
  then show "scanned (i + 3) (find_frame sc ?b) ?b"
    "fst (checksum_delimiter ?b False) = Some i \<Longrightarrow> frame_len (find_frame sc ?b) = Some (i + 3)" by simp_all
qed

lemma prefix_delimiter:
  assumes "framed xs" and "buf @ stream = xs @ 35 # tail"
  shows "fst (checksum_delimiter buf False) = (if length xs < length buf then Some (length xs) else None)"
proof (cases "length xs < length buf")
  case True
  then obtain ys where "buf = xs @ 35 # ys" using assms(2) by (auto simp: append_eq_append_conv2 append_eq_Cons_conv)
  then show ?thesis using assms(1) True delimiter_append [of xs "35 # ys" False] by (simp add: framed_def)
next
  case False
  then obtain ys where "xs = buf @ ys" using assms(2) by (auto simp: append_eq_append_conv2)
  then show ?thesis using assms(1) False delimiter_append [of buf ys False]
    by (auto simp: framed_def split: prod.splits option.splits)
qed

definition received :: "(u8 list \<Rightarrow> ('e, 'c) outcome) \<Rightarrow> u8 list \<Rightarrow> ('e recv_error, 'c PacketWithAck) outcome" where
  "received try_parse frame =
     (case packet_try_from try_parse frame of
        Ok packet \<Rightarrow> Ok (JustPacket packet) | Err e \<Rightarrow> Err (PacketError e) | Panic \<Rightarrow> Panic)"

lemma recv_loop_frame:
  assumes "framed (36 # body)" and "buf @ stream = 36 # body @ 35 # d1 # d2 # rest"
    and "length body + 4 \<le> PACKET_BUFFER_CAPACITY" and "scanned (length body + 4) sc buf"
    and "\<And>n. pace n \<noteq> None"
  shows "\<exists>buf' stream'. recv_loop try_parse pace sc buf stream = (received try_parse (36 # body @ [35, d1, d2]), buf', stream')
    \<and> buf' @ stream' = rest"
  using assms
proof (induction "length stream" arbitrary: sc buf stream rule: less_induct)
  case less
  let ?F = "length body + 4" and ?sc = "find_frame sc buf"
  have ack: "take_ack sc buf = (sc, buf)" using less.prems(2) by (cases buf) (auto simp: take_ack_def)
  have d: "fst (checksum_delimiter buf False) = (if length body + 1 < length buf then Some (length body + 1) else None)"
    using prefix_delimiter [OF less.prems(1), of buf stream "d1 # d2 # rest"] less.prems(2) by simp
  have scan: "scanned ?F ?sc buf" and found: "length body + 1 < length buf \<Longrightarrow> frame_len ?sc = Some ?F"
  proof -
    have "scanned ?F ?sc buf \<and> (length body + 1 < length buf \<longrightarrow> frame_len ?sc = Some ?F)"
    proof (cases buf)
      case Nil
      then show ?thesis using less.prems(4) by (simp add: find_frame_def)
    next
      case (Cons b bs)
      then have b: "buf = 36 # bs" using less.prems(2) by simp
      have f: "length body + 1 + 3 = ?F" by simp
      have "fst (checksum_delimiter (36 # bs) False) \<in> {None, Some (length body + 1)}"
        using d unfolding b by (simp only: split: if_split) blast
      from find_frame_scanned [OF less.prems(4) [unfolded b, folded f] this, unfolded f, folded b] d
      show ?thesis by presburger
    qed
    then show "scanned ?F ?sc buf" "length body + 1 < length buf \<Longrightarrow> frame_len ?sc = Some ?F" by simp_all
  qed
  have noack: "\<not> with_ack ?sc" using scan by (simp add: scanned_def)
  show ?case
  proof (cases "?F \<le> length buf")
    case True
    let ?frame = "36 # body @ [35, d1, d2]"
    have "?frame @ rest = buf @ stream" "length ?frame = ?F" using less.prems(2) by simp_all
    then have "take ?F (buf @ stream) = ?frame" "drop ?F (buf @ stream) = rest" by (simp_all only: append_eq_conv_conj)
    then have "take ?F buf = ?frame" "drop ?F buf @ stream = rest" using True by simp_all
    then show ?thesis using True found less.prems(3) noack
      by (subst recv_loop.simps) (auto simp: ack frame_ready_def received_def split: outcome.split)
  next
    case False
    then have none: "frame_ready try_parse ?sc buf = None"
      using scan less.prems(3) by (auto simp: frame_ready_def scanned_def split: option.splits)
    have ne: "stream \<noteq> []" using False less.prems(2) by auto
    obtain n where n: "pace (length stream) = Some n" using less.prems(5) by blast
    let ?k = "min (Suc n) (PACKET_BUFFER_CAPACITY - length buf)"
    have k: "0 < ?k" using False less.prems(3) by simp
    have step: "recv_loop try_parse pace sc buf stream = recv_loop try_parse pace ?sc (buf @ take ?k stream) (drop ?k stream)"
      using False less.prems(3) ne n by (subst recv_loop.simps) (simp add: ack none Let_def)
    have "\<exists>buf' stream'. recv_loop try_parse pace ?sc (buf @ take ?k stream) (drop ?k stream)
        = (received try_parse (36 # body @ [35, d1, d2]), buf', stream') \<and> buf' @ stream' = rest"
    proof (rule less.hyps)
      show "length (drop ?k stream) < length stream" using k ne by simp
      show "(buf @ take ?k stream) @ drop ?k stream = 36 # body @ 35 # d1 # d2 # rest" using less.prems(2) by simp
      show "scanned ?F ?sc (buf @ take ?k stream)" by (rule scanned_more [OF scan])
    qed (use less.prems in simp_all)
    then show ?thesis unfolding step .
  qed
qed

section \<open>What the server reads\<close>

text \<open>
  C38: A frame is found however the stream is cut. For a frame that fits the buffer, whatever part of it was
  read before and however many bytes each further read returns, the receiving loop ends with the packet of
  exactly that frame, or with that frame's error, and every byte after the frame is still there, in the
  buffer or unread.
\<close>

theorem recv_any_pace:
  assumes "framed (36 # body)" and "rx_buf @ stream = 36 # body @ 35 # d1 # d2 # rest"
    and "length body + 4 \<le> PACKET_BUFFER_CAPACITY" and "\<And>n. pace n \<noteq> None"
  shows "\<exists>rx_buf' stream'. recv_packet try_parse pace rx_buf stream
      = (received try_parse (36 # body @ [35, d1, d2]), rx_buf', stream') \<and> rx_buf' @ stream' = rest"
  unfolding recv_packet_def using assms
  by (intro recv_loop_frame) (simp_all add: scanned_def scan_start_def)

text \<open>The packet \<^verbatim>\<open>$qC#b4\<close>, one byte at a time, with the parser that accepts every command.\<close>

theorem recv_any_pace_witness:
  "\<exists>rx_buf' stream'. recv_packet (\<lambda>b. Ok b :: (unit, u8 list) outcome) (\<lambda>_. Some 0) [] [36, 113, 67, 35, 98, 52, 43]
     = (Ok (JustPacket (Command [113, 67])), rx_buf', stream') \<and> rx_buf' @ stream' = [43]"
proof -
  have "framed (36 # [113, 67])" by (simp add: framed_def)
  moreover have "received (\<lambda>b. Ok b :: (unit, u8 list) outcome) (36 # [113, 67] @ [35, 98, 52]) = Ok (JustPacket (Command [113, 67]))"
    by code_simp
  ultimately show ?thesis
    using recv_any_pace [of "[113, 67]" "[]" "[36, 113, 67, 35, 98, 52, 43]" 98 52 "[43]" "\<lambda>_. Some 0"
        "\<lambda>b. Ok b :: (unit, u8 list) outcome"]
    by (simp add: PACKET_BUFFER_CAPACITY_def PACKET_DATA_CAPACITY_def)
qed

text \<open>
  C39: A command frame is accepted exactly when it is well formed. A packet is a command with a given parse if
  and only if it is a dollar sign, a body without an open delimiter that has this parse, the delimiter and two
  hexadecimal digits whose value is the sum of the body's bytes modulo 256; and every escaped string may stand
  in such a body and is read back as it was.
\<close>

theorem packet_frames_exact:
  fixes try_parse :: "u8 list \<Rightarrow> ('e, 'c) outcome"
  shows "(packet_try_from try_parse buf = Ok (Command c) \<longleftrightarrow>
      (\<exists>body d1 d2 x y rest. buf = 36 # body @ 35 # d1 # d2 # rest \<and> framed body
         \<and> from_hex d1 = Some x \<and> from_hex d2 = Some y \<and> byte_sum body = 16 * x + y \<and> try_parse body = Ok c))
   \<and> framed (binary_visit_bytes data) \<and> decode_binary_string (binary_visit_bytes data) = Ok data"
proof -
  have dollar: "framed (36 # body) = framed body" for body
    by (cases "checksum_delimiter body False") (simp add: framed_def)
  have "packet_try_from try_parse buf = Ok (Command c) \<longleftrightarrow>
      (\<exists>body. buf \<noteq> [] \<and> hd buf = 36 \<and> decode_packet buf = (Ok body :: ('e PacketParseError, _) outcome) \<and> try_parse body = Ok c)"
    by (cases buf) (auto simp: packet_try_from_def split: outcome.splits)
  also have "\<dots> \<longleftrightarrow> (\<exists>body d1 d2 x y rest. buf = 36 # body @ 35 # d1 # d2 # rest \<and> framed body
      \<and> from_hex d1 = Some x \<and> from_hex d2 = Some y \<and> byte_sum body = 16 * x + y \<and> try_parse body = Ok c)"
    (is "?L \<longleftrightarrow> ?R")
  proof
    assume ?L
    then obtain body h d1 d2 x y rest where r: "hd buf = 36" "buf = h # body @ 35 # d1 # d2 # rest" "framed (h # body)"
      "from_hex d1 = Some x" "from_hex d2 = Some y" "byte_sum body = 16 * x + y" "try_parse body = Ok c"
      unfolding decode_packet_exact by blast
    then have "h = 36" by simp
    then show ?R using r dollar by blast
  next
    assume ?R
    then obtain body d1 d2 x y rest where r: "buf = 36 # body @ 35 # d1 # d2 # rest" "framed (36 # body)"
      "from_hex d1 = Some x" "from_hex d2 = Some y" "byte_sum body = 16 * x + y" "try_parse body = Ok c"
      using dollar by blast
    then have "decode_packet buf = (Ok body :: ('e PacketParseError, _) outcome)" unfolding decode_packet_exact by blast
    then show ?L using r by auto
  qed
  finally show ?thesis using escape_framed escape_round_trip by blast
qed

text \<open>
  C40: What the hexadecimal strings really do. Every byte string has an encoding of two characters a byte, and
  reading it back gives the bytes if and only if there are any and no byte has a half of ten or more: the encoder
  adds the letter A to such a half without taking ten away. The decoder of a command's data panics on exactly
  one input, the empty one.
\<close>

theorem hex_strings_exact:
  "(\<exists>ds. hex_visit_bytes bs = Ok ds \<and> length ds = 2 * length bs
      \<and> (hex_serialize ds = Ok bs \<longleftrightarrow> bs \<noteq> [] \<and> list_all decimal_nibbles bs))
   \<and> (decode_hex_string buf = Panic \<longleftrightarrow> buf = [])"
proof -
  obtain ds where "hex_visit_bytes bs = Ok ds" "length ds = 2 * length bs"
    "hex_pairs ds = Ok bs \<longleftrightarrow> list_all decimal_nibbles bs" using hex_visit_pairs by blast
  moreover from this have "hex_serialize ds = Ok bs \<longleftrightarrow> bs \<noteq> [] \<and> list_all decimal_nibbles bs"
    by (cases bs) (auto simp: hex_serialize_def)
  ultimately show ?thesis using hex_pairs_no_panic by (auto simp: decode_hex_string_def)
qed

end
