(* ===== verification/Spec2Isabelle.thy ===== *)
theory Spec2Isabelle
  imports Seccomp_Filter Input_Settlement Signal_Status Trap_Instruction Tool_Allocator Patch_Reserve Gdb_Stream
begin

text \<open>
  A verification development of Reverie, a framework that traces a guest's system calls and signals for
  a Tool. Reverie runs one Tool over several backends: a ptrace tracer (\<^verbatim>\<open>reverie-ptrace\<close>), code that
  runs inside the guest (\<^verbatim>\<open>reverie-inguest\<close>, \<^verbatim>\<open>reverie-liteinst\<close>) and a KVM backend. The development
  models the parts whose state and decisions are Reverie's own; the kernel, the C library and other
  crates are arguments of the definitions that use them.

  \<^bold>\<open>Theories and sources.\<close> Paths are under \<^verbatim>\<open>src/\<close>.

  \<^item> \<open>Reverie_Prelude\<close>: machine integers, checked arithmetic, operations that return a value, an error or
    a panic, \<^verbatim>\<open>BTreeMap\<close> as a sorted list of entries, and the interfaces the components instantiate:
    \<open>ordered_map\<close>, \<open>invariant_machine\<close> and \<open>codec\<close>.
  \<^item> \<open>Seccomp_Bpf\<close>, \<open>Seccomp_Filter\<close>: \<^verbatim>\<open>reverie-process/src/seccomp.rs\<close> and \<^verbatim>\<open>seccomp/bpf.rs\<close>,
    \<^verbatim>\<open>reverie/src/subscription.rs\<close> and the filter of \<^verbatim>\<open>reverie-ptrace/src/tracer.rs\<close>. Byte code is a list
    of instructions, run by a machine with an accumulator and scratch memory. The lemmas show that a
    built filter always returns and decides as its rules say, that the ptrace filter traces exactly the
    subscribed calls outside the private window, and that it is short enough to be installed.
  \<^item> \<open>Native_Operation\<close>: \<^verbatim>\<open>reverie/src/native_syscall.rs\<close>. Shared cells are an explicit store. Completion
    is final, and a started attempt keeps its operation open.
  \<^item> \<open>Input_Layout\<close>, \<open>Input_Types\<close>, \<open>Input_Registry\<close>, \<open>Input_Backend\<close>:
    \<^verbatim>\<open>reverie/src/reserved_input/mod.rs\<close> and \<^verbatim>\<open>registry.rs\<close>, the registry of reserved input pages: tasks,
    regions, accesses, physical calls, freezes and page transactions, one definition per operation of
    \<^verbatim>\<open>State\<close> and \<^verbatim>\<open>ReservedInputControl\<close>, with every refusal and panic. The lock of the source makes each
    operation one step. The observers a backend installs are arguments; they act on the registry only
    through the Tool's own operations.
  \<^item> \<open>Input_Invariant\<close> and \<open>Input_Keeps\<close>, \<open>Input_Keeps_Calls\<close>, \<open>Input_Keeps_Backend\<close>,
    \<open>Input_Keeps_Births\<close>, \<open>Input_Keeps_Txn\<close>: the registry's invariant and that every operation keeps it
    and does not panic. \<open>Input_History\<close>: what an operation may change. \<open>Input_Machine\<close>: the registry as a
    machine whose steps are all operations with all arguments. \<open>Input_Authority\<close>: who may write the
    page. \<open>Input_Properties\<close> and \<open>Input_Settlement\<close>: the properties of every reachable registry.
  \<^item> \<open>Exit_Status\<close>: \<^verbatim>\<open>reverie-process/src/exit_status.rs\<close>, the status and its raw form.
  \<^item> \<open>Signal_Delivery\<close>: \<^verbatim>\<open>reverie/src/signal_delivery.rs\<close>, the prediction of deliveries against the rules
    of the kernel, and the check of an approved delivery.
  \<^item> \<open>Trap_State\<close>, \<open>Trap_Instruction\<close>: \<^verbatim>\<open>reverie-ptrace/src/segv_state.rs\<close> and \<^verbatim>\<open>sigtrap_state.rs\<close>, the
    repair of what a forced signal resets, and the scan for instructions that trap by themselves.
  \<^item> \<open>Byte_Text\<close>, \<open>Signal_Sets\<close>, \<open>Signal_Status\<close>: \<^verbatim>\<open>reverie-ptrace/src/signal_sets.rs\<close>, the parser of a
    thread's status and the choice of the directory it is read from.
  \<^item> \<open>Tool_Heap\<close>: \<^verbatim>\<open>reverie-inguest/src/guest/alloc.rs\<close>, the allocator of a Tool inside the guest, over a
    memory of bytes that holds its block headers, its back pointers and its free list, and the private,
    fixed and guest allocators on it. \<open>Tool_Heap_Blocks\<close>: the arena as a list of blocks that tile it.
    \<open>Tool_Heap_Ops\<close>: the walks along the free list and the change of neighbouring blocks in place.
    \<open>Tool_Heap_Live\<close>: allocation is first fit over the blocks, deallocation frees one and joins it with its
    free neighbours. \<open>Tool_Allocator\<close>: a Tool that allocates, frees and writes its payloads as a machine;
    payloads never overlap, every operation returns, a reallocation moves the contents, and a dispatch
    never enters the system's allocator. That allocator is an argument of the model. At most one thread
    is inside the heap's lock, so an operation is one step.
  \<^item> \<open>Patch_Reserve\<close>: \<^verbatim>\<open>reverie-liteinst/src/patch_alloc.rs\<close>, the buffer for instrumentation planning, whose
    cursor threads advance without a lock. However they interleave, reservations never overlap.

  \<^item> \<open>Gdb_Packet\<close>, \<open>Gdb_Stream\<close>: \<^verbatim>\<open>reverie-ptrace/src/gdbstub/hex.rs\<close>, \<^verbatim>\<open>packet.rs\<close> and the receiving loop of
    \<^verbatim>\<open>server.rs\<close>, the wire format of the GDB server. A frame is found however the stream is cut into reads,
    frames are accepted exactly when they are well formed, and escaped data comes back; the hexadecimal
    encoder and the decoder of an empty string do not do what they mean to. The parser of a command is an
    argument.

  \<^bold>\<open>Termination and bounds.\<close> Loops over data are structural recursions. The loop of the delivery
  prediction ends because every round takes a pending signal; the instruction scan ends because every
  word read makes the cache longer; the receiving loop ends because every read takes a byte of the
  stream. The walks of the allocator are partial functions in the option
  monad; they are shown to end on every heap that a Tool reaches. No definition uses fuel. Words keep their width where the code depends on it: signal masks,
  addresses, raw statuses, identities. A \<open>usize\<close> of the allocator is a natural number with each overflow
  check of the source written out.

  \<^bold>\<open>Not modelled.\<close> The ptrace event loop, the notifier threads and the launch of a process are sequences
  of system calls on a live tracee. The KVM backend and the Linux emulation drive a virtual machine and
  host descriptors; their decisions are spread over an executor that reads and writes them at every step.
  Code that runs on raw registers and signal frames, instruction patching and the loader depend on inline
  assembly, an instruction decoder outside the repository and ELF images. The transport serialises with
  another crate over sockets and shared memory. The system call table is generated by macros. What a Tool
  implements has no state of its own. The sessions of the GDB server act on a stopped tracee.
\<close>

end
